(* ===== verification/NginB_Prelude.thy ===== *)
theory NginB_Prelude
  imports Main "HOL-Library.Word" "HOL-Library.Sublist"
begin

text \<open>
  What the components share. Outcomes: a C routine over a state either returns, or runs into
  undefined behaviour (a \<open>fault\<close>), or does not return at all; statement sequences, C
  loops with a \<open>jump_loop\<close> flag, a weakest-precondition calculus for them, the functions
  of the C library the modules call (\<open>tolower\<close>, \<open>isspace\<close>), and lemmas on lists
  updated in place.
\<close>

named_theorems wp_simps \<open>computation rules of the calculus of outcomes\<close>

section \<open>Outcomes\<close>

text \<open>
  The faults are what a C routine of the modules can do that C leaves undefined: a pointer into a
  buffer that leaves it, an index that leaves an array of the context, the use of a pointer that
  is null, of one that is \<open>(void *) -1\<close>, nginx's value for an error or for a setting that was not set, or
  of one into memory that was freed, and a signed integer that overflows.
\<close>

datatype fault =
    OutOfBounds
  | NullPointer
  | StackBounds
  | CacheBounds
  | TagCacheBounds
  | TagEndCacheBounds
  | InvalidPointer
  | FreedMemory
  | SignedOverflow

text \<open>\<open>None\<close>: the routine never returns. \<open>Some (Inl f)\<close>: it commits the fault \<open>f\<close>.\<close>

type_synonym 'a outcome = "(fault + 'a) option"

abbreviation ret :: "'a \<Rightarrow> 'a outcome" where
  "ret x \<equiv> Some (Inr x)"

abbreviation fail :: "fault \<Rightarrow> 'a outcome" where
  "fail f \<equiv> Some (Inl f)"

definition bindO :: "'a outcome \<Rightarrow> ('a \<Rightarrow> 'b outcome) \<Rightarrow> 'b outcome" where
  "bindO m k =
     (case m of None \<Rightarrow> None | Some (Inl f) \<Rightarrow> Some (Inl f) | Some (Inr x) \<Rightarrow> k x)"

lemma bindO_simps [simp]:
  "bindO None k = None"
  "bindO (Some (Inl f)) k = Some (Inl f)"
  "bindO (Some (Inr x)) k = k x"
  by (simp_all add: bindO_def)

text \<open>A sequence of statements, each taking the state the one before left.\<close>

primrec seq :: "('s \<Rightarrow> 's outcome) list \<Rightarrow> 's \<Rightarrow> 's outcome" where
  "seq [] s = ret s"
| "seq (f # fs) s = bindO (f s) (seq fs)"

text \<open>\<open>for (i = 0; i < n; ++i) f\<close> with a bound the body does not change.\<close>

definition repeat_op :: "nat \<Rightarrow> ('s \<Rightarrow> 's outcome) \<Rightarrow> 's \<Rightarrow> 's outcome" where
  "repeat_op n f = seq (replicate n f)"

lemma repeat_op_simps [simp]:
  "repeat_op 0 f s = ret s"
  "repeat_op (Suc n) f s = bindO (f s) (repeat_op n f)"
  by (simp_all add: repeat_op_def)

section \<open>Loops\<close>

text \<open>
  The body of a loop ends an iteration with \<open>Next\<close>, or leaves the loop with
  \<open>Break\<close> (the \<open>jump_loop = 1\<close> of the state machines).
\<close>

datatype 's flow = Next 's | Break 's

partial_function (option) loop ::
  "('s \<Rightarrow> bool) \<Rightarrow> ('s \<Rightarrow> 's flow outcome) \<Rightarrow> 's \<Rightarrow> 's outcome" where
  "loop b f s =
     (if b s then
        (case f s of
           None \<Rightarrow> None
         | Some r \<Rightarrow>
             (case r of
                Inl e \<Rightarrow> Some (Inl e)
              | Inr w \<Rightarrow> (case w of Next s' \<Rightarrow> loop b f s' | Break s' \<Rightarrow> Some (Inr s'))))
      else Some (Inr s))"

declare loop.simps [code]

definition next_of :: "'s outcome \<Rightarrow> 's flow outcome" where
  "next_of m = bindO m (\<lambda>s. ret (Next s))"

lemma next_of_simps [simp]:
  "next_of None = None"
  "next_of (Some (Inl f)) = Some (Inl f)"
  "next_of (Some (Inr s)) = Some (Inr (Next s))"
  by (simp_all add: next_of_def)

section \<open>A calculus of outcomes\<close>

text \<open>
  \<open>wp F m Q\<close>: \<open>m\<close> returns a value with \<open>Q\<close>, or commits one of the faults
  \<open>F\<close>. It is false of a computation that does not return, so it includes termination.
\<close>

definition wp :: "fault set \<Rightarrow> 'a outcome \<Rightarrow> ('a \<Rightarrow> bool) \<Rightarrow> bool" where
  "wp F m Q = (case m of None \<Rightarrow> False | Some (Inl f) \<Rightarrow> f \<in> F | Some (Inr x) \<Rightarrow> Q x)"

lemma wp_base [simp, wp_simps]:
  "wp F None Q = False"
  "wp F (Some (Inl f)) Q = (f \<in> F)"
  "wp F (Some (Inr x)) Q = Q x"
  by (simp_all add: wp_def)

lemma wp_bindO [simp, wp_simps]: "wp F (bindO m k) Q = wp F m (\<lambda>x. wp F (k x) Q)"
  by (simp add: wp_def bindO_def split: option.splits sum.splits)

lemma wp_next_of [simp, wp_simps]: "wp F (next_of m) Q = wp F m (\<lambda>s. Q (Next s))"
  by (simp add: next_of_def)

lemma wp_if [simp, wp_simps]:
  "wp F (if b then m else n) Q = (if b then wp F m Q else wp F n Q)"
  by simp

lemma wp_ifI: "(b \<Longrightarrow> wp F m Q) \<Longrightarrow> (\<not> b \<Longrightarrow> wp F n Q) \<Longrightarrow> wp F (if b then m else n) Q"
  by simp

lemma wp_mono: "wp F m Q \<Longrightarrow> (\<And>x. Q x \<Longrightarrow> R x) \<Longrightarrow> wp F m R"
  by (auto simp: wp_def split: option.splits sum.splits)

lemma wp_weaken: "wp F m Q \<Longrightarrow> F \<subseteq> G \<Longrightarrow> (\<And>x. Q x \<Longrightarrow> R x) \<Longrightarrow> wp G m R"
  by (auto simp: wp_def split: option.splits sum.splits)

lemma wp_conj: "wp F m Q \<Longrightarrow> wp F m R \<Longrightarrow> wp F m (\<lambda>x. Q x \<and> R x)"
  by (auto simp: wp_def split: option.splits sum.splits)

lemma wp_both: "wp F m Q \<Longrightarrow> wp G m R \<Longrightarrow> wp (F \<inter> G) m (\<lambda>x. Q x \<and> R x)"
  by (auto simp: wp_def split: option.splits sum.splits)

lemma wp_no_fault: "wp {} m Q \<longleftrightarrow> (\<exists>x. m = ret x \<and> Q x)"
  by (auto simp: wp_def split: option.splits sum.splits)

lemma wp_cases:
  assumes "wp F m Q"
  obtains (returns) x where "m = ret x" "Q x" | (faults) f where "m = fail f" "f \<in> F"
  using assms by (auto simp: wp_def split: option.splits sum.splits)

text \<open>The rule for loops: an invariant, and a measure that every completed iteration lowers.\<close>

lemma wp_loop:
  fixes \<mu> :: "'s \<Rightarrow> nat"
  assumes init: "I s"
    and body: "\<And>t. I t \<Longrightarrow> b t \<Longrightarrow>
      wp F (f t) (\<lambda>r. case r of Next t' \<Rightarrow> I t' \<and> \<mu> t' < \<mu> t | Break t' \<Rightarrow> Q t')"
    and stop: "\<And>t. I t \<Longrightarrow> \<not> b t \<Longrightarrow> Q t"
  shows "wp F (loop b f s) Q"
  using init
proof (induction "\<mu> s" arbitrary: s rule: less_induct)
  case less
  show ?case
  proof (cases "b s")
    case False
    with stop less.prems show ?thesis by (simp add: loop.simps)
  next
    case True
    from body [OF less.prems True] show ?thesis
    proof (cases rule: wp_cases)
      case (faults e)
      with True show ?thesis by (simp add: loop.simps)
    next
      case (returns r)
      show ?thesis
      proof (cases r)
        case (Next t)
        with returns have "I t" "\<mu> t < \<mu> s" by simp_all
        then have "wp F (loop b f t) Q" using less.hyps by blast
        with True returns Next show ?thesis by (simp add: loop.simps [of b f s])
      next
        case (Break t)
        with True returns show ?thesis by (simp add: loop.simps)
      qed
    qed
  qed
qed

lemma wp_repeat_op:
  assumes "I 0 s"
    and "\<And>k t. I k t \<Longrightarrow> k < n \<Longrightarrow> wp F (f t) (I (Suc k))"
  shows "wp F (repeat_op n f s) (I n)"
  using assms
proof (induction n arbitrary: I s)
  case 0
  then show ?case by simp
next
  case (Suc n)
  have "wp F (f s) (I (Suc 0))" using Suc.prems by blast
  then have "wp F (f s) (\<lambda>t. wp F (repeat_op n f t) (I (Suc n)))"
  proof (rule wp_mono)
    fix t assume "I (Suc 0) t"
    then show "wp F (repeat_op n f t) (I (Suc n))"
      using Suc.IH [of "\<lambda>k. I (Suc k)" t] Suc.prems(2) by simp
  qed
  then show ?case by simp
qed

section \<open>The C library\<close>

text \<open>In the C locale only the letters A to Z are upper case; white space is these six bytes.\<close>

definition tolower_c :: "char \<Rightarrow> char" where
  "tolower_c ch =
     (if 65 \<le> (of_char ch :: nat) \<and> (of_char ch :: nat) \<le> 90
      then char_of ((of_char ch :: nat) + 32) else ch)"

definition isspace_c :: "char \<Rightarrow> bool" where
  "isspace_c ch = ((of_char ch :: nat) = 32 \<or> 9 \<le> (of_char ch :: nat) \<and> (of_char ch :: nat) \<le> 13)"

text \<open>A conversion to the 32-bit \<open>int\<close> of the C code.\<close>

definition to_int32 :: "int \<Rightarrow> int" where
  "to_int32 n = sint (word_of_int n :: 32 word)"

lemma to_int32_id: "0 \<le> n \<Longrightarrow> n < 2 ^ 31 \<Longrightarrow> to_int32 n = n"
  by (simp add: to_int32_def sint_sbintrunc' signed_take_bit_int_eq_self)

section \<open>Lists\<close>

text \<open>Bytes as C comparisons see them.\<close>

abbreviation NL :: char where "NL \<equiv> CHR 0x0A"

abbreviation CR :: char where "CR \<equiv> CHR 0x0D"

abbreviation TAB :: char where "TAB \<equiv> CHR 0x09"

abbreviation SP :: char where "SP \<equiv> CHR 0x20"

abbreviation NUL :: char where "NUL \<equiv> CHR 0x00"

abbreviation DQ :: char where "DQ \<equiv> CHR 0x22"

abbreviation SQ :: char where "SQ \<equiv> CHR 0x27"

abbreviation BSL :: char where "BSL \<equiv> CHR 0x5C"

lemma take_update_snoc: "i < length xs \<Longrightarrow> take (Suc i) (xs[i := x]) = take i xs @ [x]"
  by (simp add: take_Suc_conv_app_nth)

lemma drop_update_earlier: "i < j \<Longrightarrow> drop j (xs[i := x]) = drop j xs"
  by simp

lemma last_take: "0 < n \<Longrightarrow> n \<le> length xs \<Longrightarrow> last (take n xs) = xs ! (n - 1)"
  by (cases n) (simp_all add: take_Suc_conv_app_nth)

lemma subseq_map_snoc:
  "subseq (map f xs) (map f ys) \<Longrightarrow> f x = f y \<Longrightarrow> subseq (map f (xs @ [x])) (map f (ys @ [y]))"
  by (simp add: list_emb_append_mono)

lemma subseq_extend: "subseq xs ys \<Longrightarrow> subseq xs (ys @ zs)"
  by (rule subseq_rev_drop_many)

lemma subseq_append_both: "subseq xs ys \<Longrightarrow> subseq us vs \<Longrightarrow> subseq (xs @ us) (ys @ vs)"
  by (rule list_emb_append_mono)

end
