(* ===== verification/Minify_Ctx.thy ===== *)
theory Minify_Ctx
  imports NginB_Prelude
begin

text \<open>
  The context of the minify module and the inline operations on it, from
  \<open>src/modules/mod_minify/ngx_http_minify_filter_module.h\<close>: the state stack, the read and
  write cursors into a buffer that is rewritten in place, the cache of bytes held back for the
  next buffer, the two tag-name caches. Then the effect of each operation on a well-formed
  context, and the invariant of a pass over a buffer: what has been written, followed by what
  is held back, is a subsequence of what has been read.
\<close>

section \<open>The context\<close>

datatype ngx_minify_type_e =
    MINIFY_FILE_TYPE_NONE
  | MINIFY_FILE_TYPE_HTML
  | MINIFY_FILE_TYPE_CSS
  | MINIFY_FILE_TYPE_JS
  | MINIFY_FILE_TYPE_MAX

datatype ngx_minify_state_e =
    minify_state_text
  | minify_state_abort
  | html_state_skip
  | html_state_tag
  | html_state_tag_bang
  | html_state_comment
  | html_state_comment_ie
  | html_state_comment_skip
  | html_state_tagname
  | html_state_tagatt
  | html_state_tagname_end
  | html_state_cdata
  | css_state_comment
  | css_state_quote
  | css_state_brace
  | js_state_skip
  | js_state_comment
  | js_state_comment_line
  | js_state_quote

text \<open>
  \<open>mem\<close> is the memory of the buffer from \<open>b->pos\<close> to \<open>b->last\<close>, which
  \<open>rpos\<close> and \<open>wpos\<close> both point into: the cursors are offsets from \<open>b->pos\<close>.
  The integers are the C \<open>int\<close>s; \<open>nochange_pre\<close> is a flag.
\<close>

record ngx_minify_ctx =
  ctype :: ngx_minify_type_e
  state :: "ngx_minify_state_e list"
  sspos :: int
  dstlen :: int
  count :: int
  rpos :: nat
  wpos :: nat
  quote_char :: char
  pre_char :: char
  pre_char2 :: char
  nochange_pre :: bool
  cachelen :: int
  cache :: "char list"
  tagcachelen :: int
  tagcache :: "char list"
  tagendcachelen :: int
  tagendcache :: "char list"
  mem :: "char list"

abbreviation CTX_CACHE_BUFLEN :: nat where "CTX_CACHE_BUFLEN \<equiv> 64"

abbreviation CTX_STATE_STACK :: nat where "CTX_STATE_STACK \<equiv> 8"

text \<open>The context as \<open>ngx_pcalloc\<close> leaves it: every byte zero.\<close>

definition zero_ctx :: ngx_minify_ctx where
  "zero_ctx =
     \<lparr>ctype = MINIFY_FILE_TYPE_NONE, state = replicate CTX_STATE_STACK minify_state_text,
      sspos = 0, dstlen = 0, count = 0, rpos = 0, wpos = 0, quote_char = NUL, pre_char = NUL,
      pre_char2 = NUL, nochange_pre = False, cachelen = 0,
      cache = replicate CTX_CACHE_BUFLEN NUL, tagcachelen = 0,
      tagcache = replicate CTX_CACHE_BUFLEN NUL, tagendcachelen = 0,
      tagendcache = replicate CTX_CACHE_BUFLEN NUL, mem = []\<rparr>"

section \<open>The state stack\<close>

definition CTX_STATE :: "ngx_minify_ctx \<Rightarrow> ngx_minify_state_e outcome" where
  "CTX_STATE c =
     (if 0 \<le> sspos c \<and> sspos c < int CTX_STATE_STACK then ret (state c ! nat (sspos c))
      else fail StackBounds)"

definition CTX_CLEAR_STATE :: "ngx_minify_ctx \<Rightarrow> ngx_minify_ctx outcome" where
  "CTX_CLEAR_STATE c = ret (c\<lparr>sspos := -1\<rparr>)"

definition CTX_PUSH_STATE :: "ngx_minify_state_e \<Rightarrow> ngx_minify_ctx \<Rightarrow> ngx_minify_ctx outcome" where
  "CTX_PUSH_STATE s c =
     (if 0 \<le> sspos c + 1 \<and> sspos c + 1 < int CTX_STATE_STACK
      then ret (c\<lparr>sspos := sspos c + 1, state := (state c)[nat (sspos c + 1) := s]\<rparr>)
      else fail StackBounds)"

definition CTX_POP_STATE :: "ngx_minify_ctx \<Rightarrow> ngx_minify_ctx outcome" where
  "CTX_POP_STATE c = ret (c\<lparr>sspos := sspos c - 1\<rparr>)"

definition CTX_SET_STATE :: "ngx_minify_state_e \<Rightarrow> ngx_minify_ctx \<Rightarrow> ngx_minify_ctx outcome" where
  "CTX_SET_STATE s = seq [CTX_CLEAR_STATE, CTX_PUSH_STATE s]"

text \<open>A \<open>switch (CTX_STATE(ctx))\<close>.\<close>

definition switch_state ::
  "ngx_minify_ctx \<Rightarrow> (ngx_minify_state_e \<Rightarrow> 'a outcome) \<Rightarrow> 'a outcome" where
  "switch_state c k = bindO (CTX_STATE c) k"

section \<open>The tag-name caches\<close>

definition CTX_TAGCACHE_CLEAR :: "ngx_minify_ctx \<Rightarrow> ngx_minify_ctx outcome" where
  "CTX_TAGCACHE_CLEAR c = ret (c\<lparr>tagcachelen := 0\<rparr>)"

definition CTX_TAGCACHE_ADD :: "char \<Rightarrow> ngx_minify_ctx \<Rightarrow> ngx_minify_ctx outcome" where
  "CTX_TAGCACHE_ADD a c =
     (if 0 \<le> tagcachelen c \<and> tagcachelen c < int CTX_CACHE_BUFLEN
      then ret (c\<lparr>tagcache := (tagcache c)[nat (tagcachelen c) := a],
                  tagcachelen := tagcachelen c + 1\<rparr>)
      else fail TagCacheBounds)"

definition CTX_TAGCACHE_CLOSE :: "ngx_minify_ctx \<Rightarrow> ngx_minify_ctx outcome" where
  "CTX_TAGCACHE_CLOSE c =
     (if 0 \<le> tagcachelen c \<and> tagcachelen c < int CTX_CACHE_BUFLEN
      then ret (c\<lparr>tagcache := (tagcache c)[nat (tagcachelen c) := NUL]\<rparr>)
      else fail TagCacheBounds)"

definition CTX_TAGENDCACHE_CLEAR :: "ngx_minify_ctx \<Rightarrow> ngx_minify_ctx outcome" where
  "CTX_TAGENDCACHE_CLEAR c = ret (c\<lparr>tagendcachelen := 0\<rparr>)"

definition CTX_TAGENDCACHE_ADD :: "char \<Rightarrow> ngx_minify_ctx \<Rightarrow> ngx_minify_ctx outcome" where
  "CTX_TAGENDCACHE_ADD a c =
     (if 0 \<le> tagendcachelen c \<and> tagendcachelen c < int CTX_CACHE_BUFLEN
      then ret (c\<lparr>tagendcache := (tagendcache c)[nat (tagendcachelen c) := a],
                  tagendcachelen := tagendcachelen c + 1\<rparr>)
      else fail TagEndCacheBounds)"

definition CTX_TAGENDCACHE_CLOSE :: "ngx_minify_ctx \<Rightarrow> ngx_minify_ctx outcome" where
  "CTX_TAGENDCACHE_CLOSE c =
     (if 0 \<le> tagendcachelen c \<and> tagendcachelen c < int CTX_CACHE_BUFLEN
      then ret (c\<lparr>tagendcache := (tagendcache c)[nat (tagendcachelen c) := NUL]\<rparr>)
      else fail TagEndCacheBounds)"

section \<open>The cursors\<close>

text \<open>\<open>*(ctx->rpos + k)\<close>, and \<open>!memcmp(ctx->rpos, lit, strlen(lit))\<close>.\<close>

definition deref :: "nat \<Rightarrow> ngx_minify_ctx \<Rightarrow> (char \<Rightarrow> 'a outcome) \<Rightarrow> 'a outcome" where
  "deref k c f = (if rpos c + k < length (mem c) then f (mem c ! (rpos c + k)) else fail OutOfBounds)"

definition memcmp_rpos :: "string \<Rightarrow> ngx_minify_ctx \<Rightarrow> (bool \<Rightarrow> 'a outcome) \<Rightarrow> 'a outcome" where
  "memcmp_rpos lit c f =
     (if rpos c + length lit \<le> length (mem c)
      then f (take (length lit) (drop (rpos c) (mem c)) = lit)
      else fail OutOfBounds)"

text \<open>A cursor may reach \<open>b->last\<close> and no further; a write must hit the buffer.\<close>

definition ngx_minify_inc_rpos :: "ngx_minify_ctx \<Rightarrow> ngx_minify_ctx outcome" where
  "ngx_minify_inc_rpos c =
     (if rpos c < length (mem c) then ret (c\<lparr>rpos := rpos c + 1, count := count c - 1\<rparr>)
      else fail OutOfBounds)"

definition put_wpos :: "char \<Rightarrow> ngx_minify_ctx \<Rightarrow> ngx_minify_ctx outcome" where
  "put_wpos ch c =
     (if wpos c < length (mem c)
      then ret (c\<lparr>mem := (mem c)[wpos c := ch], wpos := wpos c + 1, dstlen := dstlen c + 1\<rparr>)
      else fail OutOfBounds)"

definition ngx_minify_copy_char :: "char \<Rightarrow> ngx_minify_ctx \<Rightarrow> ngx_minify_ctx outcome" where
  "ngx_minify_copy_char ch = seq [put_wpos ch, ngx_minify_inc_rpos]"

definition ngx_minify_copy_rpos :: "ngx_minify_ctx \<Rightarrow> ngx_minify_ctx outcome" where
  "ngx_minify_copy_rpos c = deref 0 c (\<lambda>ch. seq [put_wpos ch, ngx_minify_inc_rpos] c)"

definition ngx_minify_dec_wpos :: "ngx_minify_ctx \<Rightarrow> ngx_minify_ctx outcome" where
  "ngx_minify_dec_wpos c =
     (if dstlen c \<noteq> 0
      then (if 0 < wpos c then ret (c\<lparr>dstlen := dstlen c - 1, wpos := wpos c - 1\<rparr>)
            else fail OutOfBounds)
      else ret c)"

text \<open>
  \<open>if (!ctx->nochange_pre) ...\<close> at the end of an iteration: remember the last two bytes
  written to this buffer.
\<close>

definition record_pre_char :: "ngx_minify_ctx \<Rightarrow> ngx_minify_ctx outcome" where
  "record_pre_char c =
     (if \<not> nochange_pre c then
        (if 2 \<le> dstlen c then
           (if 2 \<le> wpos c \<and> wpos c \<le> length (mem c)
            then ret (c\<lparr>pre_char := mem c ! (wpos c - 1), pre_char2 := mem c ! (wpos c - 2)\<rparr>)
            else fail OutOfBounds)
         else if dstlen c = 1 then
           (if 1 \<le> wpos c \<and> wpos c \<le> length (mem c)
            then ret (c\<lparr>pre_char := mem c ! (wpos c - 1), pre_char2 := NUL\<rparr>)
            else fail OutOfBounds)
         else ret c)
      else ret c)"

section \<open>The cache of bytes held back for the next buffer\<close>

text \<open>
  The loop of \<open>ngx_minify_cache\<close> from index \<open>i\<close>. The literal ends with a NUL byte
  that may be read; a read behind it is a fault.
\<close>

function cache_from :: "string \<Rightarrow> nat \<Rightarrow> ngx_minify_ctx \<Rightarrow> (int \<times> ngx_minify_ctx) outcome" where
  "cache_from lit i c =
     (if int i < count c then
        (if i \<le> length lit \<and> rpos c + i < length (mem c) then
           (if tolower_c ((lit @ [NUL]) ! i) = tolower_c (mem c ! (rpos c + i)) then
              (if 0 \<le> cachelen c \<and> cachelen c < int CTX_CACHE_BUFLEN then
                 (if int CTX_CACHE_BUFLEN \<le> cachelen c + 1
                  then ret (-2, c\<lparr>cache := (cache c)[nat (cachelen c) := mem c ! (rpos c + i)],
                                  cachelen := cachelen c + 1\<rparr>)
                  else cache_from lit (Suc i)
                         (c\<lparr>cache := (cache c)[nat (cachelen c) := mem c ! (rpos c + i)],
                            cachelen := cachelen c + 1\<rparr>))
               else fail CacheBounds)
            else ret (-1, c\<lparr>cachelen := cachelen c - int i\<rparr>))
         else fail OutOfBounds)
      else ret (int i, c))"
  by pat_completeness auto
termination
  by (relation "measure (\<lambda>(lit, i, c). nat (count c) - i)") auto

declare cache_from.simps [simp del]

definition ngx_minify_cache ::
  "string \<Rightarrow> ngx_minify_ctx \<Rightarrow> (int \<Rightarrow> ngx_minify_ctx \<Rightarrow> 'a outcome) \<Rightarrow> 'a outcome" where
  "ngx_minify_cache lit c k = bindO (cache_from lit 0 c) (\<lambda>(n, c'). k n c')"

text \<open>A call whose result is ignored.\<close>

definition cache_stmt :: "string \<Rightarrow> ngx_minify_ctx \<Rightarrow> ngx_minify_ctx outcome" where
  "cache_stmt lit c = ngx_minify_cache lit c (\<lambda>_. ret)"

end
