(* ===== verification/Minify_Inv.thy ===== *)
theory Minify_Inv
  imports Minify_Ctx
begin

text \<open>
  Well-formed contexts and the effect of the inline operations on them. A context is read
  through four views: \<open>rest\<close>, the bytes not read yet; \<open>out\<close>, the bytes written;
  \<open>held\<close>, the bytes held back for the next buffer; \<open>stk\<close>, the state stack, top
  first. The operations act on the views as on lists, and in place: a write never reaches a byte
  that is still to be read.
\<close>

named_theorems view_simps \<open>the views of updated contexts\<close>
named_theorems op_simps \<open>operations on well-formed contexts\<close>

section \<open>Views\<close>

definition rest :: "ngx_minify_ctx \<Rightarrow> char list" where
  "rest c = drop (rpos c) (mem c)"

definition out :: "ngx_minify_ctx \<Rightarrow> char list" where
  "out c = take (wpos c) (mem c)"

definition held :: "ngx_minify_ctx \<Rightarrow> char list" where
  "held c = take (nat (cachelen c)) (cache c)"

definition stk :: "ngx_minify_ctx \<Rightarrow> ngx_minify_state_e list" where
  "stk c = rev (take (nat (sspos c + 1)) (state c))"

definition buf_ok :: "ngx_minify_ctx \<Rightarrow> bool" where
  "buf_ok c =
     (0 \<le> count c \<and> int (rpos c) + count c = int (length (mem c)) \<and> wpos c \<le> rpos c \<and>
      dstlen c = int (wpos c) \<and>
      length (state c) = CTX_STATE_STACK \<and> -1 \<le> sspos c \<and> sspos c < int CTX_STATE_STACK \<and>
      length (cache c) = CTX_CACHE_BUFLEN \<and> 0 \<le> cachelen c \<and> cachelen c \<le> int CTX_CACHE_BUFLEN \<and>
      (cachelen c = 0 \<or> count c = 0) \<and>
      length (tagcache c) = CTX_CACHE_BUFLEN \<and> 0 \<le> tagcachelen c \<and>
      tagcachelen c \<le> int CTX_CACHE_BUFLEN \<and>
      length (tagendcache c) = CTX_CACHE_BUFLEN \<and> 0 \<le> tagendcachelen c \<and>
      tagendcachelen c \<le> int CTX_CACHE_BUFLEN)"

text \<open>
  The invariant of a pass over the input \<open>inp\<close>: the unread part of the buffer is still the
  input's, and the bytes written and held back are a subsequence of the bytes read, up to the
  renaming \<open>nm\<close> of bytes.
\<close>

definition pass_inv :: "ngx_minify_type_e \<Rightarrow> (char \<Rightarrow> char) \<Rightarrow> char list \<Rightarrow> ngx_minify_ctx \<Rightarrow> bool" where
  "pass_inv T nm inp c =
     (buf_ok c \<and> ctype c = T \<and> length (mem c) = length inp \<and> rest c = drop (rpos c) inp \<and>
      subseq (map nm (out c @ held c)) (map nm (take (rpos c) inp)))"

lemma pass_inv_buf_ok: "pass_inv T nm inp c \<Longrightarrow> buf_ok c"
  by (simp add: pass_inv_def)

section \<open>Effects of the cursor operations\<close>

definition stepped :: "ngx_minify_ctx \<Rightarrow> ngx_minify_ctx" where
  "stepped c = c\<lparr>rpos := rpos c + 1, count := count c - 1\<rparr>"

definition written :: "char \<Rightarrow> ngx_minify_ctx \<Rightarrow> ngx_minify_ctx" where
  "written ch c =
     stepped (c\<lparr>mem := (mem c)[wpos c := ch], wpos := wpos c + 1, dstlen := dstlen c + 1\<rparr>)"

lemma drop_Suc_tl: "drop (Suc n) xs = tl (drop n xs)"
  by (simp add: drop_Suc tl_drop)

lemma buf_ok_rest: "buf_ok c \<Longrightarrow> count c = int (length (rest c))"
  by (auto simp: buf_ok_def rest_def)

lemma buf_ok_count: "buf_ok c \<Longrightarrow> 0 \<le> count c"
  by (simp add: buf_ok_def)

lemma rest_Cons: "rest c = x # xs \<Longrightarrow> mem c ! rpos c = x \<and> rpos c < length (mem c)"
  by (metis drop_all hd_drop_conv_nth list.distinct(1) list.sel(1) not_less rest_def)

lemma count_pos_rest: "buf_ok c \<Longrightarrow> 0 < count c \<Longrightarrow> rest c \<noteq> []"
  by (auto simp: buf_ok_rest)

lemma deref_rest:
  "deref k c f = (if k < length (rest c) then f (rest c ! k) else fail OutOfBounds)"
  by (auto simp: deref_def rest_def)

lemma deref_ok [op_simps]:
  "buf_ok c \<Longrightarrow> int k < count c \<Longrightarrow> deref k c f = f (rest c ! k)"
  by (auto simp: deref_rest buf_ok_rest)

lemma memcmp_ok [op_simps]:
  "buf_ok c \<Longrightarrow> int (length lit) \<le> count c \<Longrightarrow> memcmp_rpos lit c f = f (take (length lit) (rest c) = lit)"
  by (auto simp: memcmp_rpos_def buf_ok_def rest_def)

lemma inc_rpos_ok [op_simps]:
  "buf_ok c \<Longrightarrow> 0 < count c \<Longrightarrow> ngx_minify_inc_rpos c = ret (stepped c)"
  by (auto simp: ngx_minify_inc_rpos_def stepped_def buf_ok_def)

lemma copy_char_ok [op_simps]:
  "buf_ok c \<Longrightarrow> 0 < count c \<Longrightarrow> ngx_minify_copy_char ch c = ret (written ch c)"
  by (auto simp: ngx_minify_copy_char_def put_wpos_def ngx_minify_inc_rpos_def written_def
      stepped_def buf_ok_def)

lemma copy_rpos_ok [op_simps]:
  "buf_ok c \<Longrightarrow> 0 < count c \<Longrightarrow> ngx_minify_copy_rpos c = ret (written (rest c ! 0) c)"
  by (auto simp: ngx_minify_copy_rpos_def put_wpos_def ngx_minify_inc_rpos_def written_def
      stepped_def buf_ok_def deref_def rest_def)

lemma stepped_fields [simp, view_simps]:
  "count (stepped c) = count c - 1"  "dstlen (stepped c) = dstlen c"
  "sspos (stepped c) = sspos c"  "state (stepped c) = state c"  "stk (stepped c) = stk c"
  "cachelen (stepped c) = cachelen c"  "cache (stepped c) = cache c"
  "tagcachelen (stepped c) = tagcachelen c"  "tagcache (stepped c) = tagcache c"
  "tagendcachelen (stepped c) = tagendcachelen c"  "tagendcache (stepped c) = tagendcache c"
  "quote_char (stepped c) = quote_char c"  "pre_char (stepped c) = pre_char c"
  "pre_char2 (stepped c) = pre_char2 c"  "nochange_pre (stepped c) = nochange_pre c"
  "ctype (stepped c) = ctype c"  "out (stepped c) = out c"  "held (stepped c) = held c"
  "rest (stepped c) = tl (rest c)"
  by (simp_all add: stepped_def stk_def out_def held_def rest_def drop_Suc tl_drop)

lemma written_fields [simp, view_simps]:
  "count (written ch c) = count c - 1"  "dstlen (written ch c) = dstlen c + 1"
  "sspos (written ch c) = sspos c"  "state (written ch c) = state c"  "stk (written ch c) = stk c"
  "cachelen (written ch c) = cachelen c"  "cache (written ch c) = cache c"
  "tagcachelen (written ch c) = tagcachelen c"  "tagcache (written ch c) = tagcache c"
  "tagendcachelen (written ch c) = tagendcachelen c"  "tagendcache (written ch c) = tagendcache c"
  "quote_char (written ch c) = quote_char c"  "pre_char (written ch c) = pre_char c"
  "pre_char2 (written ch c) = pre_char2 c"  "nochange_pre (written ch c) = nochange_pre c"
  "ctype (written ch c) = ctype c"  "held (written ch c) = held c"
  by (simp_all add: written_def stepped_def stk_def held_def)

lemma written_views [view_simps]:
  assumes "buf_ok c" "0 < count c"
  shows "rest (written ch c) = tl (rest c)"  "out (written ch c) = out c @ [ch]"
proof -
  have w: "wpos c < length (mem c)" "wpos c < Suc (rpos c)" using assms by (auto simp: buf_ok_def)
  then have "drop (Suc (rpos c)) ((mem c)[wpos c := ch]) = drop (Suc (rpos c)) (mem c)" by simp
  then show "rest (written ch c) = tl (rest c)"
    by (simp add: written_def stepped_def rest_def drop_Suc tl_drop)
  show "out (written ch c) = out c @ [ch]"
    using w by (simp add: written_def stepped_def out_def take_update_snoc)
qed

lemma buf_ok_stepped [simp, intro]: "buf_ok c \<Longrightarrow> 0 < count c \<Longrightarrow> buf_ok (stepped c)"
  by (auto simp: buf_ok_def stepped_def)

lemma buf_ok_written [simp, intro]: "buf_ok c \<Longrightarrow> 0 < count c \<Longrightarrow> buf_ok (written ch c)"
  by (auto simp: buf_ok_def written_def stepped_def)

lemma pass_inv_take_Suc:
  assumes "pass_inv T nm inp c" "0 < count c"
  shows "take (Suc (rpos c)) inp = take (rpos c) inp @ [rest c ! 0]"
proof -
  have "rpos c < length inp" using assms by (auto simp: pass_inv_def buf_ok_def)
  moreover have "rest c ! 0 = inp ! rpos c"
    using assms calculation by (auto simp: pass_inv_def)
  ultimately show ?thesis by (simp add: take_Suc_conv_app_nth)
qed

lemma pass_inv_stepped [simp, intro]:
  assumes "pass_inv T nm inp c" "0 < count c"
  shows "pass_inv T nm inp (stepped c)"
proof -
  have "rest (stepped c) = drop (rpos (stepped c)) inp"
    using assms by (simp add: pass_inv_def stepped_def rest_def drop_Suc_tl)
  moreover have "rpos (stepped c) = Suc (rpos c)" "mem (stepped c) = mem c"
    by (simp_all add: stepped_def)
  ultimately show ?thesis
    using assms pass_inv_take_Suc [OF assms]
    by (auto simp: pass_inv_def intro: subseq_extend)
qed

lemma held_Nil: "buf_ok c \<Longrightarrow> 0 < count c \<Longrightarrow> held c = []"
  by (auto simp: buf_ok_def held_def)

lemma pass_inv_written [simp, intro]:
  assumes "pass_inv T nm inp c" "0 < count c" "nm ch = nm (rest c ! 0)"
  shows "pass_inv T nm inp (written ch c)"
proof -
  have ok: "buf_ok c" using assms(1) by (rule pass_inv_buf_ok)
  have "rest (written ch c) = drop (rpos (written ch c)) inp"
    using assms ok written_views(1) [OF ok assms(2)]
    by (simp add: pass_inv_def written_def stepped_def drop_Suc_tl)
  moreover have "rpos (written ch c) = Suc (rpos c)" "length (mem (written ch c)) = length (mem c)"
    by (simp_all add: written_def stepped_def)
  ultimately show ?thesis
    using assms ok pass_inv_take_Suc [OF assms(1,2)] held_Nil [OF ok assms(2)]
    by (auto simp: pass_inv_def written_views intro: subseq_map_snoc [simplified])
qed

section \<open>Effects of the stack operations\<close>

definition pushed :: "ngx_minify_state_e \<Rightarrow> ngx_minify_ctx \<Rightarrow> ngx_minify_ctx" where
  "pushed s c = c\<lparr>sspos := sspos c + 1, state := (state c)[nat (sspos c + 1) := s]\<rparr>"

definition popped :: "ngx_minify_ctx \<Rightarrow> ngx_minify_ctx" where
  "popped c = c\<lparr>sspos := sspos c - 1\<rparr>"

definition set_to :: "ngx_minify_state_e \<Rightarrow> ngx_minify_ctx \<Rightarrow> ngx_minify_ctx" where
  "set_to s c = pushed s (c\<lparr>sspos := -1\<rparr>)"

lemma length_stk: "buf_ok c \<Longrightarrow> int (length (stk c)) = sspos c + 1"
  by (auto simp: buf_ok_def stk_def)

lemma CTX_STATE_ok [op_simps]:
  assumes "buf_ok c" "stk c = s # ss"
  shows "CTX_STATE c = ret s"
proof -
  have p: "0 \<le> sspos c" "sspos c < 8" "length (state c) = 8"
    using assms length_stk [OF assms(1)] by (auto simp: buf_ok_def)
  then have "take (nat (sspos c + 1)) (state c) = take (nat (sspos c)) (state c) @ [state c ! nat (sspos c)]"
    by (simp add: nat_add_distrib take_Suc_conv_app_nth)
  then have "state c ! nat (sspos c) = s" using assms(2) by (simp add: stk_def)
  with p show ?thesis by (simp add: CTX_STATE_def)
qed

lemma switch_state_ok [op_simps]:
  "buf_ok c \<Longrightarrow> stk c = s # ss \<Longrightarrow> switch_state c k = k s"
  by (simp add: switch_state_def CTX_STATE_ok)

lemma PUSH_ok [op_simps]:
  "buf_ok c \<Longrightarrow> length (stk c) < CTX_STATE_STACK \<Longrightarrow> CTX_PUSH_STATE s c = ret (pushed s c)"
  using length_stk [of c] by (auto simp: CTX_PUSH_STATE_def pushed_def buf_ok_def)

lemma POP_ok [op_simps]: "CTX_POP_STATE c = ret (popped c)"
  by (simp add: CTX_POP_STATE_def popped_def)

lemma SET_ok [op_simps]: "CTX_SET_STATE s c = ret (set_to s c)"
  by (simp add: CTX_SET_STATE_def CTX_CLEAR_STATE_def CTX_PUSH_STATE_def pushed_def set_to_def)

lemma stack_op_fields [simp, view_simps]:
  "count (pushed s c) = count c"  "count (popped c) = count c"  "count (set_to s c) = count c"
  "rest (pushed s c) = rest c"  "rest (popped c) = rest c"  "rest (set_to s c) = rest c"
  "out (pushed s c) = out c"  "out (popped c) = out c"  "out (set_to s c) = out c"
  "held (pushed s c) = held c"  "held (popped c) = held c"  "held (set_to s c) = held c"
  "dstlen (pushed s c) = dstlen c"  "dstlen (popped c) = dstlen c"  "dstlen (set_to s c) = dstlen c"
  "rpos (pushed s c) = rpos c"  "rpos (popped c) = rpos c"  "rpos (set_to s c) = rpos c"
  "mem (pushed s c) = mem c"  "mem (popped c) = mem c"  "mem (set_to s c) = mem c"
  "cachelen (pushed s c) = cachelen c"  "cachelen (popped c) = cachelen c"
  "cachelen (set_to s c) = cachelen c"
  "tagcachelen (pushed s c) = tagcachelen c"  "tagcachelen (popped c) = tagcachelen c"
  "tagcachelen (set_to s c) = tagcachelen c"
  "tagendcachelen (pushed s c) = tagendcachelen c"  "tagendcachelen (popped c) = tagendcachelen c"
  "tagendcachelen (set_to s c) = tagendcachelen c"
  "quote_char (pushed s c) = quote_char c"  "quote_char (popped c) = quote_char c"
  "quote_char (set_to s c) = quote_char c"
  "pre_char (pushed s c) = pre_char c"  "pre_char (popped c) = pre_char c"
  "pre_char (set_to s c) = pre_char c"
  "pre_char2 (pushed s c) = pre_char2 c"  "pre_char2 (popped c) = pre_char2 c"
  "pre_char2 (set_to s c) = pre_char2 c"
  "nochange_pre (pushed s c) = nochange_pre c"  "nochange_pre (popped c) = nochange_pre c"
  "nochange_pre (set_to s c) = nochange_pre c"
  "ctype (pushed s c) = ctype c"  "ctype (popped c) = ctype c"  "ctype (set_to s c) = ctype c"
  by (simp_all add: pushed_def popped_def set_to_def rest_def out_def held_def)

lemma stk_pushed [simp, view_simps]:
  assumes "buf_ok c" "length (stk c) < CTX_STATE_STACK"
  shows "stk (pushed s c) = s # stk c"
proof -
  let ?n = "nat (sspos c + 1)"
  have "0 \<le> sspos c + 1" and n: "?n < length (state c)"
    using assms length_stk [OF assms(1)] by (auto simp: buf_ok_def)
  then have "nat (sspos (pushed s c) + 1) = Suc ?n" by (simp add: pushed_def)
  then show ?thesis
    using take_update_snoc [OF n] by (simp add: stk_def pushed_def)
qed

lemma stk_popped [simp, view_simps]:
  assumes "buf_ok c" shows "stk (popped c) = tl (stk c)"
proof -
  have "tl (rev xs) = rev (butlast xs)" for xs :: "ngx_minify_state_e list"
    by (induction xs rule: rev_induct) auto
  moreover have "butlast (take (nat (sspos c + 1)) (state c)) = take (nat (sspos c)) (state c)"
    using assms by (cases "sspos c = -1") (auto simp: buf_ok_def butlast_take nat_add_distrib)
  ultimately show ?thesis by (simp add: stk_def popped_def)
qed

lemma stk_set_to [simp, view_simps]: "buf_ok c \<Longrightarrow> stk (set_to s c) = [s]"
  by (simp add: stk_def set_to_def pushed_def buf_ok_def take_Suc_conv_app_nth)

lemma buf_ok_stack_ops [simp, intro]:
  "buf_ok c \<Longrightarrow> length (stk c) < CTX_STATE_STACK \<Longrightarrow> buf_ok (pushed s c)"
  "buf_ok c \<Longrightarrow> stk c \<noteq> [] \<Longrightarrow> buf_ok (popped c)"
  "buf_ok c \<Longrightarrow> buf_ok (set_to s c)"
  using length_stk [of c]
  by (auto simp: buf_ok_def pushed_def popped_def set_to_def neq_Nil_conv)

lemma pass_inv_stack_ops [simp, intro]:
  "pass_inv T nm inp c \<Longrightarrow> length (stk c) < CTX_STATE_STACK \<Longrightarrow> pass_inv T nm inp (pushed s c)"
  "pass_inv T nm inp c \<Longrightarrow> stk c \<noteq> [] \<Longrightarrow> pass_inv T nm inp (popped c)"
  "pass_inv T nm inp c \<Longrightarrow> pass_inv T nm inp (set_to s c)"
  by (simp_all add: pass_inv_def)

section \<open>Flags, and the bytes written last\<close>

lemma flag_views [simp, view_simps]:
  "stk (c\<lparr>quote_char := q\<rparr>) = stk c"  "stk (c\<lparr>pre_char := q\<rparr>) = stk c"
  "stk (c\<lparr>pre_char2 := q\<rparr>) = stk c"  "stk (c\<lparr>nochange_pre := b\<rparr>) = stk c"
  "stk (c\<lparr>cache := xs\<rparr>) = stk c"  "stk (c\<lparr>cachelen := n\<rparr>) = stk c"
  "stk (c\<lparr>tagcache := xs\<rparr>) = stk c"  "stk (c\<lparr>tagcachelen := n\<rparr>) = stk c"
  "stk (c\<lparr>tagendcache := xs\<rparr>) = stk c"  "stk (c\<lparr>tagendcachelen := n\<rparr>) = stk c"
  "rest (c\<lparr>quote_char := q\<rparr>) = rest c"  "rest (c\<lparr>pre_char := q\<rparr>) = rest c"
  "rest (c\<lparr>pre_char2 := q\<rparr>) = rest c"  "rest (c\<lparr>nochange_pre := b\<rparr>) = rest c"
  "rest (c\<lparr>cache := xs\<rparr>) = rest c"  "rest (c\<lparr>cachelen := n\<rparr>) = rest c"
  "rest (c\<lparr>tagcache := xs\<rparr>) = rest c"  "rest (c\<lparr>tagcachelen := n\<rparr>) = rest c"
  "rest (c\<lparr>tagendcache := xs\<rparr>) = rest c"  "rest (c\<lparr>tagendcachelen := n\<rparr>) = rest c"
  "out (c\<lparr>quote_char := q\<rparr>) = out c"  "out (c\<lparr>pre_char := q\<rparr>) = out c"
  "out (c\<lparr>pre_char2 := q\<rparr>) = out c"  "out (c\<lparr>nochange_pre := b\<rparr>) = out c"
  "out (c\<lparr>cache := xs\<rparr>) = out c"  "out (c\<lparr>cachelen := n\<rparr>) = out c"
  "out (c\<lparr>tagcache := xs\<rparr>) = out c"  "out (c\<lparr>tagcachelen := n\<rparr>) = out c"
  "out (c\<lparr>tagendcache := xs\<rparr>) = out c"  "out (c\<lparr>tagendcachelen := n\<rparr>) = out c"
  "held (c\<lparr>quote_char := q\<rparr>) = held c"  "held (c\<lparr>pre_char := q\<rparr>) = held c"
  "held (c\<lparr>pre_char2 := q\<rparr>) = held c"  "held (c\<lparr>nochange_pre := b\<rparr>) = held c"
  "held (c\<lparr>tagcache := xs\<rparr>) = held c"  "held (c\<lparr>tagcachelen := n\<rparr>) = held c"
  "held (c\<lparr>tagendcache := xs\<rparr>) = held c"  "held (c\<lparr>tagendcachelen := n\<rparr>) = held c"
  by (simp_all add: stk_def rest_def out_def held_def)

lemma buf_ok_flags [simp]:
  "buf_ok (c\<lparr>quote_char := q\<rparr>) = buf_ok c"  "buf_ok (c\<lparr>pre_char := q\<rparr>) = buf_ok c"
  "buf_ok (c\<lparr>pre_char2 := q\<rparr>) = buf_ok c"  "buf_ok (c\<lparr>nochange_pre := b\<rparr>) = buf_ok c"
  by (simp_all add: buf_ok_def)

lemma buf_ok_clear [simp]:
  "buf_ok c \<Longrightarrow> buf_ok (c\<lparr>tagcachelen := 0\<rparr>)"  "buf_ok c \<Longrightarrow> buf_ok (c\<lparr>tagendcachelen := 0\<rparr>)"
  by (simp_all add: buf_ok_def)

lemma pass_inv_flags [simp]:
  "pass_inv T nm inp (c\<lparr>quote_char := q\<rparr>) = pass_inv T nm inp c"
  "pass_inv T nm inp (c\<lparr>pre_char := q\<rparr>) = pass_inv T nm inp c"
  "pass_inv T nm inp (c\<lparr>pre_char2 := q\<rparr>) = pass_inv T nm inp c"
  "pass_inv T nm inp (c\<lparr>nochange_pre := b\<rparr>) = pass_inv T nm inp c"
  by (simp_all add: pass_inv_def)

lemma pass_inv_clear [simp]:
  "pass_inv T nm inp c \<Longrightarrow> pass_inv T nm inp (c\<lparr>tagcachelen := 0\<rparr>)"
  "pass_inv T nm inp c \<Longrightarrow> pass_inv T nm inp (c\<lparr>tagendcachelen := 0\<rparr>)"
  by (simp_all add: pass_inv_def)

definition pre_recorded :: "ngx_minify_ctx \<Rightarrow> ngx_minify_ctx" where
  "pre_recorded c =
     (if nochange_pre c \<or> out c = [] then c
      else c\<lparr>pre_char := last (out c),
             pre_char2 := (if length (out c) = 1 then NUL else last (butlast (out c)))\<rparr>)"

lemma record_pre_char_ok [op_simps]:
  assumes "buf_ok c" shows "record_pre_char c = ret (pre_recorded c)"
proof -
  have w: "wpos c \<le> length (mem c)" "dstlen c = int (wpos c)" using assms by (auto simp: buf_ok_def)
  then have len: "length (out c) = wpos c" by (simp add: out_def)
  have "last (out c) = mem c ! (wpos c - 1)" if "0 < wpos c"
    using that w by (simp add: out_def last_take)
  moreover have "last (butlast (out c)) = mem c ! (wpos c - 2)" if "2 \<le> wpos c"
    using that w by (simp add: out_def butlast_take last_take numeral_2_eq_2)
  moreover have "(out c = []) = (wpos c = 0)" using len by auto
  ultimately show ?thesis
    using w len by (auto simp: record_pre_char_def pre_recorded_def)
qed

lemma pre_recorded_fields [simp, view_simps]:
  "count (pre_recorded c) = count c"  "rest (pre_recorded c) = rest c"
  "out (pre_recorded c) = out c"  "held (pre_recorded c) = held c"  "stk (pre_recorded c) = stk c"
  "buf_ok (pre_recorded c) = buf_ok c"  "pass_inv T nm inp (pre_recorded c) = pass_inv T nm inp c"
  "tagcachelen (pre_recorded c) = tagcachelen c"  "tagcache (pre_recorded c) = tagcache c"
  "tagendcachelen (pre_recorded c) = tagendcachelen c"  "cachelen (pre_recorded c) = cachelen c"
  "quote_char (pre_recorded c) = quote_char c"  "nochange_pre (pre_recorded c) = nochange_pre c"
  "dstlen (pre_recorded c) = dstlen c"  "rpos (pre_recorded c) = rpos c"
  "mem (pre_recorded c) = mem c"  "ctype (pre_recorded c) = ctype c"
  by (simp_all add: pre_recorded_def)

lemma pass_inv_record [op_simps]: "pass_inv T nm inp c \<Longrightarrow> record_pre_char c = ret (pre_recorded c)"
  by (simp add: record_pre_char_ok pass_inv_buf_ok)

section \<open>Tag-name caches\<close>

definition tag_added :: "char \<Rightarrow> ngx_minify_ctx \<Rightarrow> ngx_minify_ctx" where
  "tag_added a c =
     c\<lparr>tagcache := (tagcache c)[nat (tagcachelen c) := a], tagcachelen := tagcachelen c + 1\<rparr>"

definition tagend_added :: "char \<Rightarrow> ngx_minify_ctx \<Rightarrow> ngx_minify_ctx" where
  "tagend_added a c =
     c\<lparr>tagendcache := (tagendcache c)[nat (tagendcachelen c) := a],
       tagendcachelen := tagendcachelen c + 1\<rparr>"

definition tag_closed :: "ngx_minify_ctx \<Rightarrow> ngx_minify_ctx" where
  "tag_closed c = c\<lparr>tagcache := (tagcache c)[nat (tagcachelen c) := NUL]\<rparr>"

definition tagend_closed :: "ngx_minify_ctx \<Rightarrow> ngx_minify_ctx" where
  "tagend_closed c = c\<lparr>tagendcache := (tagendcache c)[nat (tagendcachelen c) := NUL]\<rparr>"

lemma tag_ops_ok [op_simps]:
  "CTX_TAGCACHE_CLEAR c = ret (c\<lparr>tagcachelen := 0\<rparr>)"
  "CTX_TAGENDCACHE_CLEAR c = ret (c\<lparr>tagendcachelen := 0\<rparr>)"
  "buf_ok c \<Longrightarrow> CTX_TAGCACHE_ADD a c =
     (if tagcachelen c < 64 then ret (tag_added a c) else fail TagCacheBounds)"
  "buf_ok c \<Longrightarrow> CTX_TAGENDCACHE_ADD a c =
     (if tagendcachelen c < 64 then ret (tagend_added a c) else fail TagEndCacheBounds)"
  "buf_ok c \<Longrightarrow> CTX_TAGCACHE_CLOSE c =
     (if tagcachelen c < 64 then ret (tag_closed c) else fail TagCacheBounds)"
  "buf_ok c \<Longrightarrow> CTX_TAGENDCACHE_CLOSE c =
     (if tagendcachelen c < 64 then ret (tagend_closed c) else fail TagEndCacheBounds)"
  by (simp_all add: CTX_TAGCACHE_CLEAR_def CTX_TAGENDCACHE_CLEAR_def CTX_TAGCACHE_ADD_def
      CTX_TAGENDCACHE_ADD_def CTX_TAGCACHE_CLOSE_def CTX_TAGENDCACHE_CLOSE_def tag_added_def
      tagend_added_def tag_closed_def tagend_closed_def buf_ok_def)

lemma tag_op_fields [simp, view_simps]:
  "count (tag_added a c) = count c"  "count (tagend_added a c) = count c"
  "count (tag_closed c) = count c"  "count (tagend_closed c) = count c"
  "rest (tag_added a c) = rest c"  "rest (tagend_added a c) = rest c"
  "rest (tag_closed c) = rest c"  "rest (tagend_closed c) = rest c"
  "out (tag_added a c) = out c"  "out (tagend_added a c) = out c"
  "out (tag_closed c) = out c"  "out (tagend_closed c) = out c"
  "held (tag_added a c) = held c"  "held (tagend_added a c) = held c"
  "held (tag_closed c) = held c"  "held (tagend_closed c) = held c"
  "stk (tag_added a c) = stk c"  "stk (tagend_added a c) = stk c"
  "stk (tag_closed c) = stk c"  "stk (tagend_closed c) = stk c"
  "tagcachelen (tag_closed c) = tagcachelen c"  "tagendcachelen (tagend_closed c) = tagendcachelen c"
  "nochange_pre (tag_added a c) = nochange_pre c"  "nochange_pre (tagend_added a c) = nochange_pre c"
  "ctype (tag_added a c) = ctype c"  "ctype (tagend_added a c) = ctype c"
  "ctype (tag_closed c) = ctype c"  "ctype (tagend_closed c) = ctype c"
  by (simp_all add: tag_added_def tagend_added_def tag_closed_def tagend_closed_def)

lemma buf_ok_tag_ops [simp]:
  "buf_ok c \<Longrightarrow> tagcachelen c < 64 \<Longrightarrow> buf_ok (tag_added a c)"
  "buf_ok c \<Longrightarrow> tagendcachelen c < 64 \<Longrightarrow> buf_ok (tagend_added a c)"
  "buf_ok c \<Longrightarrow> buf_ok (tag_closed c)"  "buf_ok c \<Longrightarrow> buf_ok (tagend_closed c)"
  by (auto simp: buf_ok_def tag_added_def tagend_added_def tag_closed_def tagend_closed_def)

lemma pass_inv_tag_ops [simp]:
  "pass_inv T nm inp c \<Longrightarrow> tagcachelen c < 64 \<Longrightarrow> pass_inv T nm inp (tag_added a c)"
  "pass_inv T nm inp c \<Longrightarrow> tagendcachelen c < 64 \<Longrightarrow> pass_inv T nm inp (tagend_added a c)"
  "pass_inv T nm inp c \<Longrightarrow> pass_inv T nm inp (tag_closed c)"
  "pass_inv T nm inp c \<Longrightarrow> pass_inv T nm inp (tagend_closed c)"
  using buf_ok_tag_ops [of c]
  by (auto simp: pass_inv_def)
   (simp_all add: tag_added_def tagend_added_def tag_closed_def tagend_closed_def)

section \<open>Holding bytes back\<close>

text \<open>
  When the unread bytes, at most as many as the literal has, agree with it up to case, all of
  them go to the cache and the result is their number; otherwise the cache is as empty as before
  and the result is \<open>-1\<close>.
\<close>

definition ci_prefix :: "char list \<Rightarrow> string \<Rightarrow> bool" where
  "ci_prefix xs lit = (map tolower_c xs = map tolower_c (take (length xs) lit))"

definition cached_upto :: "nat \<Rightarrow> ngx_minify_ctx \<Rightarrow> ngx_minify_ctx" where
  "cached_upto i c = c\<lparr>cache := take i (rest c) @ drop i (cache c), cachelen := int i\<rparr>"

lemma ci_prefix_nth:
  "length xs \<le> length lit \<Longrightarrow>
   ci_prefix xs lit \<longleftrightarrow> (\<forall>j < length xs. tolower_c (lit ! j) = tolower_c (xs ! j))"
  by (auto simp: ci_prefix_def list_eq_iff_nth_eq)

lemma cached_upto_Suc:
  assumes "i < length (rest c)" "length (rest c) \<le> length (cache c)"
  shows "cached_upto (Suc i) c =
    (cached_upto i c)\<lparr>cache := (cache (cached_upto i c))[i := rest c ! i], cachelen := int i + 1\<rparr>"
proof -
  have "(take i (rest c) @ drop i (cache c))[i := rest c ! i]
      = take (Suc i) (rest c) @ drop (Suc i) (cache c)"
    using assms by (simp add: list_update_append take_Suc_conv_app_nth Cons_nth_drop_Suc [symmetric])
  then show ?thesis by (simp add: cached_upto_def)
qed

lemma cache_from_run:
  assumes ok: "buf_ok c" "cachelen c = 0" "length (rest c) \<le> length lit" "length (rest c) < 64"
    and "i \<le> length (rest c)" "\<forall>j < i. tolower_c (lit ! j) = tolower_c (rest c ! j)"
  shows "\<exists>m \<le> length (rest c). cache_from lit i (cached_upto i c) =
    (if ci_prefix (rest c) lit then ret (count c, cached_upto (length (rest c)) c)
     else ret (-1, (cached_upto m c)\<lparr>cachelen := 0\<rparr>))"
  using assms(5,6)
proof (induction "length (rest c) - i" arbitrary: i)
  case 0
  then have "i = length (rest c)" by simp
  moreover have "ci_prefix (rest c) lit" using 0 ok calculation by (simp add: ci_prefix_nth)
  ultimately show ?case
    using ok by (subst cache_from.simps) (auto simp: cached_upto_def buf_ok_rest)
next
  case (Suc d)
  then have i: "i < length (rest c)" by simp
  have cnt: "count (cached_upto i c) = int (length (rest c))"
    "cachelen (cached_upto i c) = int i" "length (cache c) = 64"
    using ok buf_ok_rest [OF ok(1)] by (auto simp: cached_upto_def buf_ok_def)
  have rd: "rpos (cached_upto i c) + i < length (mem (cached_upto i c))"
    "mem (cached_upto i c) ! (rpos (cached_upto i c) + i) = rest c ! i"
    using i ok by (auto simp: cached_upto_def rest_def buf_ok_def)
  have lit: "(lit @ [NUL]) ! i = lit ! i" using i ok by (simp add: nth_append)
  show ?case
  proof (cases "tolower_c (lit ! i) = tolower_c (rest c ! i)")
    case True
    have "cache_from lit i (cached_upto i c) = cache_from lit (Suc i) (cached_upto (Suc i) c)"
      using i ok cnt rd lit True
      by (subst cache_from.simps) (simp add: cached_upto_Suc add.commute)
    then show ?thesis using Suc.hyps(1) [of "Suc i"] Suc.hyps(2) Suc.prems True i
      by (simp add: less_Suc_eq)
  next
    case False
    have "cache_from lit i (cached_upto i c) = ret (-1, (cached_upto i c)\<lparr>cachelen := 0\<rparr>)"
      using i ok cnt rd lit False by (subst cache_from.simps) simp
    moreover have "\<not> ci_prefix (rest c) lit" using False i ok by (auto simp: ci_prefix_nth)
    ultimately show ?thesis using Suc.prems by auto
  qed
qed

lemma wp_cache:
  assumes ok: "buf_ok c" "cachelen c = 0" "count c \<le> int (length lit)" "count c < 64"
    and hit: "ci_prefix (rest c) lit \<Longrightarrow> wp F (k (count c) (cached_upto (length (rest c)) c)) Q"
    and miss: "\<And>ca. \<not> ci_prefix (rest c) lit \<Longrightarrow> length ca = 64 \<Longrightarrow> wp F (k (-1) (c\<lparr>cache := ca\<rparr>)) Q"
  shows "wp F (ngx_minify_cache lit c k) Q"
proof -
  have len: "length (rest c) \<le> length lit" "length (rest c) < 64" "length (cache c) = 64"
    using ok buf_ok_rest [OF ok(1)] by (auto simp: buf_ok_def)
  have c0: "cached_upto 0 c = c" using ok by (simp add: cached_upto_def)
  have "\<exists>m \<le> length (rest c). cache_from lit 0 (cached_upto 0 c) =
    (if ci_prefix (rest c) lit then ret (count c, cached_upto (length (rest c)) c)
     else ret (-1, (cached_upto m c)\<lparr>cachelen := 0\<rparr>))"
    by (rule cache_from_run [OF ok(1,2) len(1,2)]) simp_all
  then obtain m where m: "m \<le> length (rest c)" and run: "cache_from lit 0 c =
    (if ci_prefix (rest c) lit then ret (count c, cached_upto (length (rest c)) c)
     else ret (-1, (cached_upto m c)\<lparr>cachelen := 0\<rparr>))"
    unfolding c0 by blast
  have "(cached_upto m c)\<lparr>cachelen := 0\<rparr> = c\<lparr>cache := take m (rest c) @ drop m (cache c)\<rparr>"
    using ok by (simp add: cached_upto_def)
  moreover have ca: "length (take m (rest c) @ drop m (cache c)) = 64" using m len by simp
  ultimately show ?thesis
  proof (cases "ci_prefix (rest c) lit")
    case True
    then show ?thesis using hit run by (simp add: ngx_minify_cache_def)
  next
    case False
    with miss [OF False ca] show ?thesis
      using run \<open>(cached_upto m c)\<lparr>cachelen := 0\<rparr> = _\<close> by (simp add: ngx_minify_cache_def)
  qed
qed

text \<open>After a hit the callers step over what was held back: the buffer is at its end.\<close>

definition held_back :: "ngx_minify_ctx \<Rightarrow> ngx_minify_ctx" where
  "held_back c =
     (cached_upto (length (rest c)) c)\<lparr>rpos := length (mem c), count := 0\<rparr>"

lemma step_over_held:
  assumes "buf_ok c"
  shows "repeat_op (nat (count c)) ngx_minify_inc_rpos (cached_upto (length (rest c)) c)
    = ret (held_back c)"
proof -
  have "repeat_op n ngx_minify_inc_rpos d
      = ret (d\<lparr>rpos := rpos d + n, count := count d - int n\<rparr>)"
    if "rpos d + n \<le> length (mem d)" for n d
    using that by (induction n arbitrary: d) (simp_all add: ngx_minify_inc_rpos_def)
  moreover have "rpos c + nat (count c) = length (mem c)" "0 \<le> count c"
    using assms by (auto simp: buf_ok_def)
  ultimately show ?thesis by (simp add: held_back_def cached_upto_def)
qed

lemma held_back_fields [simp, view_simps]:
  "count (held_back c) = 0"  "stk (held_back c) = stk c"  "out (held_back c) = out c"
  "tagcachelen (held_back c) = tagcachelen c"  "tagendcachelen (held_back c) = tagendcachelen c"
  "nochange_pre (held_back c) = nochange_pre c"  "pre_char (held_back c) = pre_char c"
  "pre_char2 (held_back c) = pre_char2 c"  "quote_char (held_back c) = quote_char c"
  "rest (held_back c) = []"  "held (held_back c) = rest c"  "ctype (held_back c) = ctype c"
  by (simp_all add: held_back_def cached_upto_def stk_def out_def rest_def held_def)

lemma buf_ok_held_back [simp]:
  "buf_ok c \<Longrightarrow> count c < 64 \<Longrightarrow> buf_ok (held_back c)"
  by (auto simp: buf_ok_def held_back_def cached_upto_def rest_def)

lemma pass_inv_held_back [simp, intro]:
  assumes "pass_inv T nm inp c" "count c < 64" "0 < count c"
  shows "pass_inv T nm inp (held_back c)"
proof -
  have ok: "buf_ok c" using assms(1) by (rule pass_inv_buf_ok)
  have inp: "take (rpos c) inp @ rest c = inp" using assms(1) by (simp add: pass_inv_def)
  have "subseq (map nm (out c @ rest c)) (map nm inp)"
    using assms ok held_Nil [OF ok assms(3)] subseq_append_both
      [of "map nm (out c)" "map nm (take (rpos c) inp)" "map nm (rest c)" "map nm (rest c)"]
    by (simp add: pass_inv_def inp flip: map_append)
  moreover have "mem (held_back c) = mem c" "rpos (held_back c) = length (mem c)"
    by (simp_all add: held_back_def cached_upto_def)
  ultimately show ?thesis
    using assms buf_ok_held_back [OF ok assms(2)] by (simp add: pass_inv_def)
qed

text \<open>The one-byte literals: the last byte of the buffer is held back.\<close>

lemma cache_one_ok [op_simps]:
  assumes "buf_ok c" "0 < count c" "count c \<le> 1" "rest c ! 0 = ch"
  shows "cache_stmt [ch] c = ret (cached_upto (length (rest c)) c)"
proof -
  have l: "length (rest c) = 1" using assms(2,3) buf_ok_rest [OF assms(1)] by linarith
  then have "rest c = [ch]" using assms(4) by (cases "rest c") auto
  then have pre: "ci_prefix (rest c) [ch]" by (simp add: ci_prefix_def)
  have "wp {} (cache_stmt [ch] c) (\<lambda>d. d = cached_upto (length (rest c)) c)"
    unfolding cache_stmt_def using assms l pre
    by (intro wp_cache) (auto simp: buf_ok_def)
  then show ?thesis by (auto simp: wp_no_fault)
qed

lemma inc_cached_ok [op_simps]:
  assumes "buf_ok c" "0 < count c" "count c \<le> 1"
  shows "ngx_minify_inc_rpos (cached_upto (length (rest c)) c) = ret (held_back c)"
proof -
  have "nat (count c) = Suc 0" using assms by simp
  then show ?thesis
    using step_over_held [OF assms(1)] by (simp add: bindO_def split: option.splits sum.splits)
qed

lemma pass_inv_cache [simp]:
  "length ca = 64 \<Longrightarrow> cachelen c = 0 \<Longrightarrow> pass_inv T nm inp c \<Longrightarrow> pass_inv T nm inp (c\<lparr>cache := ca\<rparr>)"
  by (simp add: pass_inv_def buf_ok_def held_def)

lemma cachelen_0 [op_simps]: "buf_ok c \<Longrightarrow> 0 < count c \<Longrightarrow> cachelen c = 0"
  by (auto simp: buf_ok_def)

section \<open>Small state machines\<close>

text \<open>
  The rule for \<open>while (ctx->count) { switch (CTX_STATE(ctx)) ... }\<close>: the machine runs
  while the top of the stack is one of its states \<open>S\<close>. Every iteration lowers a measure, and
  one that consumes nothing stays in \<open>S\<close>; so the machine, started in \<open>S\<close> on a
  non-empty buffer, ends, has consumed something, and has left \<open>S\<close> or used the buffer up.
\<close>

lemma wp_machine_break:
  fixes \<mu> :: "ngx_minify_ctx \<Rightarrow> nat"
  assumes start: "ok c" "hd (stk c) \<in> S" "0 < count c"
    and ok: "\<And>t. ok t \<Longrightarrow> buf_ok t \<and> stk t \<noteq> []"
    and step: "\<And>t x. ok t \<Longrightarrow> hd (stk t) = x \<Longrightarrow> x \<in> S \<Longrightarrow> 0 < count t \<Longrightarrow>
      wp F (k x t) (\<lambda>r. case r of
          Next d \<Rightarrow> ok d \<and> \<mu> d < \<mu> t \<and> count d \<le> count t \<and> (count d < count t \<or> hd (stk d) \<in> S)
        | Break d \<Rightarrow> False)"
    and stop: "\<And>t x. ok t \<Longrightarrow> hd (stk t) = x \<Longrightarrow> x \<notin> S \<Longrightarrow>
      \<exists>d. k x t = ret (Break d) \<and> ok d \<and> stk d = stk t \<and> count d = count t"
  shows "wp F (loop (\<lambda>c. count c \<noteq> 0) (\<lambda>c. switch_state c (\<lambda>x. k x c)) c)
    (\<lambda>d. ok d \<and> count d < count c \<and> (hd (stk d) \<notin> S \<or> count d = 0))"
proof (rule wp_loop [where \<mu> = \<mu> and
      I = "\<lambda>d. ok d \<and> count d \<le> count c \<and> (count d < count c \<or> hd (stk d) \<in> S)"])
  fix t
  assume I: "ok t \<and> count t \<le> count c \<and> (count t < count c \<or> hd (stk t) \<in> S)" and "count t \<noteq> 0"
  then have pos: "0 < count t" using ok [of t] by (auto simp: buf_ok_def)
  obtain x xs where x: "stk t = x # xs" using ok [of t] I by (cases "stk t") auto
  then have sw: "switch_state t (\<lambda>x. k x t) = k x t" using ok [of t] I by (simp add: switch_state_ok)
  have hd: "ok t" "hd (stk t) = x" using I x by simp_all
  show "wp F (switch_state t (\<lambda>x. k x t))
    (\<lambda>r. case r of
        Next d \<Rightarrow> (ok d \<and> count d \<le> count c \<and> (count d < count c \<or> hd (stk d) \<in> S)) \<and> \<mu> d < \<mu> t
      | Break d \<Rightarrow> ok d \<and> count d < count c \<and> (hd (stk d) \<notin> S \<or> count d = 0))"
  proof (cases "x \<in> S")
    case True
    show ?thesis
      unfolding sw
      by (rule wp_mono [OF step [OF hd True pos]]) (use I in \<open>auto split: flow.splits\<close>)
  next
    case False
    from stop [OF hd False] show ?thesis using I x False unfolding sw by auto
  qed
qed (use start in auto)

text \<open>The usual case: the context is left as it is.\<close>

lemma wp_machine:
  fixes \<mu> :: "ngx_minify_ctx \<Rightarrow> nat"
  assumes start: "ok c" "hd (stk c) \<in> S" "0 < count c"
    and ok: "\<And>t. ok t \<Longrightarrow> buf_ok t \<and> stk t \<noteq> []"
    and step: "\<And>t x. ok t \<Longrightarrow> hd (stk t) = x \<Longrightarrow> x \<in> S \<Longrightarrow> 0 < count t \<Longrightarrow>
      wp F (k x t) (\<lambda>r. case r of
          Next d \<Rightarrow> ok d \<and> \<mu> d < \<mu> t \<and> count d \<le> count t \<and> (count d < count t \<or> hd (stk d) \<in> S)
        | Break d \<Rightarrow> False)"
    and stop: "\<And>t x. x \<notin> S \<Longrightarrow> k x t = ret (Break t)"
  shows "wp F (loop (\<lambda>c. count c \<noteq> 0) (\<lambda>c. switch_state c (\<lambda>x. k x c)) c)
    (\<lambda>d. ok d \<and> count d < count c \<and> (hd (stk d) \<notin> S \<or> count d = 0))"
  by (rule wp_machine_break [where \<mu> = \<mu>]) (use assms in auto)

text \<open>
  The same with a single measure for the whole machine, for states that are left without
  anything being consumed.
\<close>

lemma wp_machine_measure:
  fixes \<mu> :: "ngx_minify_ctx \<Rightarrow> nat"
  assumes start: "ok c" "hd (stk c) \<in> S" "0 < count c"
    and ok: "\<And>t. ok t \<Longrightarrow> buf_ok t \<and> stk t \<noteq> []"
    and step: "\<And>t x. ok t \<Longrightarrow> hd (stk t) = x \<Longrightarrow> x \<in> S \<Longrightarrow> 0 < count t \<Longrightarrow>
      wp F (k x t) (\<lambda>r. case r of Next d \<Rightarrow> ok d \<and> \<mu> d < \<mu> t | Break d \<Rightarrow> False)"
    and stop: "\<And>t x. ok t \<Longrightarrow> hd (stk t) = x \<Longrightarrow> x \<notin> S \<Longrightarrow>
      wp F (k x t) (\<lambda>r. case r of Next d \<Rightarrow> False | Break d \<Rightarrow> ok d \<and> \<mu> d = \<mu> t)"
  shows "wp F (loop (\<lambda>c. count c \<noteq> 0) (\<lambda>c. switch_state c (\<lambda>x. k x c)) c) (\<lambda>d. ok d \<and> \<mu> d < \<mu> c)"
proof (rule wp_loop [where \<mu> = \<mu> and I = "\<lambda>d. ok d \<and> (d = c \<or> \<mu> d < \<mu> c)"])
  fix t
  assume I: "ok t \<and> (t = c \<or> \<mu> t < \<mu> c)" and "count t \<noteq> 0"
  then have pos: "0 < count t" using ok [of t] by (auto simp: buf_ok_def)
  obtain x xs where x: "stk t = x # xs" using ok [of t] I by (cases "stk t") auto
  then have sw: "switch_state t (\<lambda>x. k x t) = k x t" using ok [of t] I by (simp add: switch_state_ok)
  have "ok t" "hd (stk t) = x" using I x by simp_all
  show "wp F (switch_state t (\<lambda>x. k x t))
    (\<lambda>r. case r of Next d \<Rightarrow> (ok d \<and> (d = c \<or> \<mu> d < \<mu> c)) \<and> \<mu> d < \<mu> t
      | Break d \<Rightarrow> ok d \<and> \<mu> d < \<mu> c)"
  proof (cases "x \<in> S")
    case True
    show ?thesis
      unfolding sw
      by (rule wp_mono [OF step [OF \<open>ok t\<close> \<open>hd (stk t) = x\<close> True pos]])
         (use I in \<open>auto split: flow.splits\<close>)
  next
    case False
    show ?thesis
      unfolding sw
      by (rule wp_mono [OF stop [OF \<open>ok t\<close> \<open>hd (stk t) = x\<close> False]])
         (use I x False start in \<open>auto split: flow.splits\<close>)
  qed
qed (use start in auto)

section \<open>Runs of copies and of skips\<close>

text \<open>\<open>for (i = 0; i < n; ++i)\<close> over the cursor operations.\<close>

definition copied :: "nat \<Rightarrow> ngx_minify_ctx \<Rightarrow> ngx_minify_ctx" where
  "copied n = (\<lambda>d. written (rest d ! 0) d) ^^ n"

definition skipped :: "nat \<Rightarrow> ngx_minify_ctx \<Rightarrow> ngx_minify_ctx" where
  "skipped n = stepped ^^ n"

lemma repeat_copy_ok [op_simps]:
  "buf_ok c \<Longrightarrow> int n \<le> count c \<Longrightarrow> repeat_op n ngx_minify_copy_rpos c = ret (copied n c)"
  by (induction n arbitrary: c) (simp_all add: copied_def copy_rpos_ok funpow_Suc_right del: funpow.simps(2))

lemma repeat_inc_ok [op_simps]:
  "buf_ok c \<Longrightarrow> int n \<le> count c \<Longrightarrow> repeat_op n ngx_minify_inc_rpos c = ret (skipped n c)"
  by (induction n arbitrary: c) (simp_all add: skipped_def inc_rpos_ok funpow_Suc_right del: funpow.simps(2))

lemma copied_fields [simp, view_simps]:
  "count (copied n c) = count c - int n"  "stk (copied n c) = stk c"
  "tagcachelen (copied n c) = tagcachelen c"  "tagendcachelen (copied n c) = tagendcachelen c"
  "nochange_pre (copied n c) = nochange_pre c"
  by (induction n) (simp_all add: copied_def)

lemma skipped_fields [simp, view_simps]:
  "count (skipped n c) = count c - int n"  "stk (skipped n c) = stk c"
  "tagcachelen (skipped n c) = tagcachelen c"  "tagendcachelen (skipped n c) = tagendcachelen c"
  "nochange_pre (skipped n c) = nochange_pre c"
  by (induction n) (simp_all add: skipped_def)

lemma pass_inv_copied [simp, intro]:
  "pass_inv T nm inp c \<Longrightarrow> int n \<le> count c \<Longrightarrow> pass_inv T nm inp (copied n c)"
proof (induction n)
  case (Suc n)
  then have "pass_inv T nm inp (copied n c)" "0 < count (copied n c)" by simp_all
  then show ?case by (simp add: copied_def pass_inv_written)
qed (simp add: copied_def)

lemma pass_inv_skipped [simp, intro]:
  "pass_inv T nm inp c \<Longrightarrow> int n \<le> count c \<Longrightarrow> pass_inv T nm inp (skipped n c)"
proof (induction n)
  case (Suc n)
  then have "pass_inv T nm inp (skipped n c)" "0 < count (skipped n c)" by simp_all
  then show ?case by (simp add: skipped_def pass_inv_stepped)
qed (simp add: skipped_def)

lemma buf_ok_copied [simp, intro]: "buf_ok c \<Longrightarrow> int n \<le> count c \<Longrightarrow> buf_ok (copied n c)"
proof (induction n)
  case (Suc n)
  then have "buf_ok (copied n c)" "0 < count (copied n c)" by simp_all
  then show ?case by (simp add: copied_def)
qed (simp add: copied_def)

lemma buf_ok_skipped [simp, intro]: "buf_ok c \<Longrightarrow> int n \<le> count c \<Longrightarrow> buf_ok (skipped n c)"
proof (induction n)
  case (Suc n)
  then have "buf_ok (skipped n c)" "0 < count (skipped n c)" by simp_all
  then show ?case by (simp add: skipped_def)
qed (simp add: skipped_def)

text \<open>What a missed \<open>ngx_minify_cache\<close> leaves: only scratch in the cache has changed.\<close>

definition cache_missed :: "string \<Rightarrow> ngx_minify_ctx \<Rightarrow> ngx_minify_ctx" where
  "cache_missed lit c =
     c\<lparr>cache := (case cache_from lit 0 c of Some (Inr r) \<Rightarrow> cache (snd r) | _ \<Rightarrow> cache c)\<rparr>"

lemma cache_ok:
  assumes "buf_ok c" "0 < count c" "count c \<le> int (length lit)" "length lit < 64"
  shows "ngx_minify_cache lit c k =
      (if ci_prefix (rest c) lit then k (count c) (cached_upto (length (rest c)) c)
       else k (-1) (cache_missed lit c))"
    and "\<not> ci_prefix (rest c) lit \<Longrightarrow> length (cache (cache_missed lit c)) = 64"
proof -
  let ?k = "\<lambda>n d. ret (n, d)"
  have "wp {} (ngx_minify_cache lit c ?k)
    (\<lambda>r. if ci_prefix (rest c) lit then r = (count c, cached_upto (length (rest c)) c)
      else \<exists>ca. length ca = 64 \<and> r = (-1, c\<lparr>cache := ca\<rparr>))"
    by (rule wp_cache) (use assms cachelen_0 in auto)
  moreover have "ngx_minify_cache lit c ?k = cache_from lit 0 c"
    by (simp add: ngx_minify_cache_def bindO_def split: option.splits sum.splits)
  ultimately obtain r where r: "cache_from lit 0 c = ret r"
    "if ci_prefix (rest c) lit then r = (count c, cached_upto (length (rest c)) c)
      else \<exists>ca. length ca = 64 \<and> r = (-1, c\<lparr>cache := ca\<rparr>)"
    by (auto simp: wp_no_fault)
  then show "ngx_minify_cache lit c k =
      (if ci_prefix (rest c) lit then k (count c) (cached_upto (length (rest c)) c)
       else k (-1) (cache_missed lit c))"
    by (auto simp: ngx_minify_cache_def cache_missed_def split: if_splits)
  show "\<not> ci_prefix (rest c) lit \<Longrightarrow> length (cache (cache_missed lit c)) = 64"
    using r by (auto simp: cache_missed_def)
qed

lemma cache_missed_fields [simp, view_simps]:
  "count (cache_missed lit c) = count c"  "stk (cache_missed lit c) = stk c"
  "rest (cache_missed lit c) = rest c"  "out (cache_missed lit c) = out c"
  "tagcachelen (cache_missed lit c) = tagcachelen c"
  "tagendcachelen (cache_missed lit c) = tagendcachelen c"
  "nochange_pre (cache_missed lit c) = nochange_pre c"
  by (simp_all add: cache_missed_def)

lemma pass_inv_cache_missed [simp]:
  assumes "pass_inv T nm inp c" "0 < count c" "count c \<le> int (length lit)" "length lit < 64"
    "\<not> ci_prefix (rest c) lit"
  shows "pass_inv T nm inp (cache_missed lit c)"
  using cache_ok(2) [of c lit] pass_inv_cache [of _ c T nm inp] assms cachelen_0 [of c]
    pass_inv_buf_ok [OF assms(1)]
  by (simp add: cache_missed_def)

lemma buf_ok_cache_missed [simp]:
  assumes "buf_ok c" "0 < count c" "count c \<le> int (length lit)" "length lit < 64"
    "\<not> ci_prefix (rest c) lit"
  shows "buf_ok (cache_missed lit c)"
  using cache_ok(2) [of c lit] assms by (simp add: cache_missed_def buf_ok_def)

lemma step_over_ok [op_simps]:
  "buf_ok c \<Longrightarrow> count c = n \<Longrightarrow>
   repeat_op (nat n) ngx_minify_inc_rpos (cached_upto (length (rest c)) c) = ret (held_back c)"
  using step_over_held by blast

section \<open>Between two buffers\<close>

text \<open>
  What a context keeps between two calls; and the context a call starts from, with the cursors
  at the start of the buffer.
\<close>

definition idle_ok :: "ngx_minify_ctx \<Rightarrow> bool" where
  "idle_ok c =
     (buf_ok (c\<lparr>count := 0, mem := [], rpos := 0, wpos := 0, dstlen := 0\<rparr>) \<and>
      0 \<le> dstlen c \<and> dstlen c \<le> int (length (mem c)))"

definition loaded :: "char list \<Rightarrow> ngx_minify_ctx \<Rightarrow> ngx_minify_ctx" where
  "loaded src c =
     c\<lparr>dstlen := 0, mem := src, rpos := 0, wpos := 0, count := int (length src)\<rparr>"

lemma buf_ok_idle: "buf_ok c \<Longrightarrow> idle_ok c"
  by (auto simp: idle_ok_def buf_ok_def)

lemma pass_inv_idle: "pass_inv T nm inp c \<Longrightarrow> idle_ok c"
  by (auto intro: buf_ok_idle pass_inv_buf_ok)

lemma pass_inv_loaded:
  "idle_ok c \<Longrightarrow> cachelen c = 0 \<Longrightarrow> pass_inv (ctype c) nm src (loaded src c)"
  by (auto simp: pass_inv_def idle_ok_def loaded_def buf_ok_def rest_def out_def held_def)

lemma loaded_fields [simp]:
  "stk (loaded src c) = stk c"  "count (loaded src c) = int (length src)"
  "rest (loaded src c) = src"  "out (loaded src c) = []"  "dstlen (loaded src c) = 0"
  "nochange_pre (loaded src c) = nochange_pre c"  "pre_char (loaded src c) = pre_char c"
  "quote_char (loaded src c) = quote_char c"
  "tagcachelen (loaded src c) = tagcachelen c"  "tagendcachelen (loaded src c) = tagendcachelen c"
  by (simp_all add: loaded_def stk_def rest_def out_def)

lemma stk_clear_cache [simp]: "stk (c\<lparr>dstlen := m\<rparr>) = stk c"
  by (simp add: stk_def)

lemma idle_ok_clear_cache: "idle_ok c \<Longrightarrow> idle_ok (c\<lparr>cachelen := 0\<rparr>)"
  by (simp add: idle_ok_def buf_ok_def)

lemma idle_ok_held: "idle_ok c \<Longrightarrow> int (length (held c)) = cachelen c"
  by (auto simp: idle_ok_def buf_ok_def held_def)

lemma idle_ok_zero_ctx: "idle_ok zero_ctx"
  by (simp add: idle_ok_def buf_ok_def zero_ctx_def)

text \<open>At the end of a pass everything was read.\<close>

lemma pass_inv_done:
  assumes "pass_inv T nm inp c" "count c = 0"
  shows "subseq (map nm (out c @ held c)) (map nm inp)"
proof -
  have "rpos c = length inp" using assms by (auto simp: pass_inv_def buf_ok_def)
  then show ?thesis using assms by (simp add: pass_inv_def)
qed

lemma buf_ok_output: "buf_ok c \<Longrightarrow> take (nat (dstlen c)) (mem c) = out c"
  by (simp add: buf_ok_def out_def)

lemma stk_zero_ctx [simp]: "stk zero_ctx = [minify_state_text]"
  by (simp add: stk_def zero_ctx_def)

lemma ctype_update_views [simp]:
  "stk (c\<lparr>ctype := T\<rparr>) = stk c"  "idle_ok (c\<lparr>ctype := T\<rparr>) = idle_ok c"
  "held (c\<lparr>ctype := T\<rparr>) = held c"
  by (simp_all add: stk_def idle_ok_def buf_ok_def held_def)

lemma cachelen_zero_ctx [simp]: "cachelen zero_ctx = 0"
  by (simp add: zero_ctx_def)

text \<open>
  The main loop of the three minifiers: a step \<open>sw\<close> of the machine, then the two bytes
  written last are recorded. If every step keeps \<open>P\<close> and lowers a measure, the call ends
  with everything read.
\<close>

lemma wp_buffer_loop_rec:
  fixes \<mu> :: "ngx_minify_ctx \<Rightarrow> nat"
  assumes start: "idle_ok c" "cachelen c = 0" "P (loaded src c)"
    and step: "\<And>t. pass_inv (ctype c) nm src t \<Longrightarrow> P t \<Longrightarrow> 0 < count t \<Longrightarrow>
      wp F (sw t) (\<lambda>d. pass_inv (ctype c) nm src d \<and> R d \<and> \<mu> d < \<mu> t)"
    and rec: "\<And>d. R d \<Longrightarrow> P (pre_recorded d)" "\<And>d. \<mu> (pre_recorded d) = \<mu> d"
  shows "wp F (bindO (loop (\<lambda>c. 0 < count c) (\<lambda>c. next_of (seq [sw, record_pre_char] c)) (loaded src c))
      (\<lambda>d. ret (take (nat (dstlen d)) (mem d), d)))
    (\<lambda>(o', d). idle_ok d \<and> P d \<and> count d = 0 \<and> rest d = [] \<and> ctype d = ctype c \<and> o' = out d \<and>
      subseq (map nm (o' @ held d)) (map nm src))"
proof -
  have "wp F (loop (\<lambda>c. 0 < count c) (\<lambda>c. next_of (seq [sw, record_pre_char] c)) (loaded src c))
    (\<lambda>d. pass_inv (ctype c) nm src d \<and> P d \<and> count d = 0)"
  proof (rule wp_loop [where \<mu> = \<mu> and I = "\<lambda>d. pass_inv (ctype c) nm src d \<and> P d"])
    show "pass_inv (ctype c) nm src (loaded src c) \<and> P (loaded src c)"
      using start by (simp add: pass_inv_loaded)
  next
    fix t assume t: "pass_inv (ctype c) nm src t \<and> P t" "0 < count t"
    have "wp F (sw t) (\<lambda>d. wp F (record_pre_char d)
      (\<lambda>d. (pass_inv (ctype c) nm src d \<and> P d) \<and> \<mu> d < \<mu> t))"
      by (rule wp_mono [OF step]) (use t rec in \<open>auto simp: op_simps\<close>)
    then show "wp F (next_of (seq [sw, record_pre_char] t))
      (\<lambda>r. case r of Next d \<Rightarrow> (pass_inv (ctype c) nm src d \<and> P d) \<and> \<mu> d < \<mu> t
        | Break d \<Rightarrow> pass_inv (ctype c) nm src d \<and> P d \<and> count d = 0)"
      by simp
  next
    fix t assume "pass_inv (ctype c) nm src t \<and> P t" "\<not> 0 < count t"
    then show "pass_inv (ctype c) nm src t \<and> P t \<and> count t = 0"
      by (auto dest: pass_inv_buf_ok simp: buf_ok_def)
  qed
  then show ?thesis
    unfolding wp_bindO
  proof (rule wp_mono)
    fix d assume d: "pass_inv (ctype c) nm src d \<and> P d \<and> count d = 0"
    then have "rest d = []" using buf_ok_rest [of d] by (auto dest: pass_inv_buf_ok)
    moreover have "ctype d = ctype c" using d by (simp add: pass_inv_def)
    moreover have "take (nat (dstlen d)) (mem d) = out d"
      using d by (intro buf_ok_output) (auto dest: pass_inv_buf_ok)
    ultimately show "wp F (ret (take (nat (dstlen d)) (mem d), d)) (\<lambda>(o', d). idle_ok d \<and> P d \<and>
        count d = 0 \<and> rest d = [] \<and> ctype d = ctype c \<and> o' = out d \<and> subseq (map nm (o' @ held d)) (map nm src))"
      using d pass_inv_done [of "ctype c" nm src d] pass_inv_idle [of "ctype c" nm src d] \<open>ctype d = ctype c\<close> by simp
  qed
qed

text \<open>The usual case: the predicate does not depend on the bytes recorded.\<close>

lemma wp_buffer_loop:
  fixes \<mu> :: "ngx_minify_ctx \<Rightarrow> nat"
  assumes "idle_ok c" "cachelen c = 0" "P (loaded src c)"
    and "\<And>t. pass_inv (ctype c) nm src t \<Longrightarrow> P t \<Longrightarrow> 0 < count t \<Longrightarrow>
      wp F (sw t) (\<lambda>d. pass_inv (ctype c) nm src d \<and> P d \<and> \<mu> d < \<mu> t)"
    and "\<And>d. P d \<Longrightarrow> P (pre_recorded d)" "\<And>d. \<mu> (pre_recorded d) = \<mu> d"
  shows "wp F (bindO (loop (\<lambda>c. 0 < count c) (\<lambda>c. next_of (seq [sw, record_pre_char] c)) (loaded src c))
      (\<lambda>d. ret (take (nat (dstlen d)) (mem d), d)))
    (\<lambda>(o', d). idle_ok d \<and> P d \<and> count d = 0 \<and> ctype d = ctype c \<and> o' = out d \<and>
      subseq (map nm (o' @ held d)) (map nm src))"
  by (rule wp_mono [OF wp_buffer_loop_rec [where R = P and \<mu> = \<mu>, OF assms]]) auto

section \<open>The byte written last\<close>

text \<open>
  Of the bytes that are recorded at the end of an iteration the minifiers only use
  \<open>pre_char\<close>: the last byte written by this call, if it has written any.
\<close>

definition last_out :: "ngx_minify_ctx \<Rightarrow> char option" where
  "last_out c = (if out c = [] then None else Some (last (out c)))"

definition recorded :: "char option \<Rightarrow> char \<Rightarrow> char" where
  "recorded l p = (case l of None \<Rightarrow> p | Some y \<Rightarrow> y)"

lemma recorded_simps [simp]:
  "recorded None p = p"  "recorded (Some y) p = y"  "recorded l (recorded l p) = recorded l p"
  by (auto simp: recorded_def split: option.splits)

lemma pre_char_recorded [simp]:
  "pre_char (pre_recorded c) = (if nochange_pre c then pre_char c else recorded (last_out c) (pre_char c))"
  by (simp add: pre_recorded_def last_out_def)

lemma last_out_fields [simp]:
  "last_out (stepped c) = last_out c"  "last_out (pushed s c) = last_out c"
  "last_out (popped c) = last_out c"  "last_out (set_to s c) = last_out c"
  "last_out (pre_recorded c) = last_out c"  "last_out (held_back c) = last_out c"
  "last_out (c\<lparr>nochange_pre := b\<rparr>) = last_out c"  "last_out (c\<lparr>quote_char := q\<rparr>) = last_out c"
  "last_out (c\<lparr>pre_char := q\<rparr>) = last_out c"  "last_out (c\<lparr>pre_char2 := q\<rparr>) = last_out c"
  "last_out (loaded src c) = None"
  by (simp_all add: last_out_def)

lemma last_out_written [simp]: "buf_ok c \<Longrightarrow> 0 < count c \<Longrightarrow> last_out (written ch c) = Some ch"
  by (simp add: last_out_def written_views)

end
