(* ===== verification/Ngx_Core.thy ===== *)
theory Ngx_Core
  imports NginB_Prelude
begin

text \<open>
  What the modules use of nginx: return codes, status codes, unset configuration values. nginx
  itself is not part of the repository, so its functions are parameters of the definitions
  that call them; what is relied on is stated as predicates on these parameters.
\<close>

abbreviation NGX_OK :: int where "NGX_OK \<equiv> 0"

abbreviation NGX_ERROR :: int where "NGX_ERROR \<equiv> -1"

abbreviation NGX_AGAIN :: int where "NGX_AGAIN \<equiv> -2"

abbreviation NGX_DECLINED :: int where "NGX_DECLINED \<equiv> -5"

abbreviation NGX_CONF_UNSET :: int where "NGX_CONF_UNSET \<equiv> -1"

abbreviation NGX_HTTP_OK :: int where "NGX_HTTP_OK \<equiv> 200"

abbreviation NGX_HTTP_FORBIDDEN :: int where "NGX_HTTP_FORBIDDEN \<equiv> 403"

abbreviation NGX_HTTP_NO_CONTENT :: int where "NGX_HTTP_NO_CONTENT \<equiv> 204"

abbreviation NGX_HTTP_NOT_ALLOWED :: int where "NGX_HTTP_NOT_ALLOWED \<equiv> 405"

abbreviation NGX_HTTP_INTERNAL_SERVER_ERROR :: int where "NGX_HTTP_INTERNAL_SERVER_ERROR \<equiv> 500"

abbreviation NGX_HTTP_NOT_FOUND :: int where "NGX_HTTP_NOT_FOUND \<equiv> 404"

text \<open>The result of a directive handler or of a merge: \<open>NGX_CONF_OK\<close> or \<open>NGX_CONF_ERROR\<close>.\<close>

datatype conf_rc = NGX_CONF_OK | NGX_CONF_ERROR

text \<open>
  What a function returns that makes the configuration of a module: a null pointer, which nginx takes
  for a failure; \<open>NGX_CONF_ERROR\<close>, the pointer \<open>(void *) -1\<close>, which nginx compares with nothing and so
  takes for a configuration; or a configuration.
\<close>

datatype 'c conf_ptr = conf_null | conf_invalid | conf_at 'c

section \<open>Buffers, chains, requests\<close>

text \<open>
  A buffer is the bytes from \<open>pos\<close> to \<open>last\<close> and the flags the modules use; a chain is a list of
  buffers. Of a request these are the fields that the header filters share; each module extends
  the record by its own context.
\<close>

record ngx_buf =
  bytes :: "char list"
  in_file :: bool
  last_buf :: bool

record ngx_http_request =
  status :: int
  header_only :: bool
  content_type :: string
  content_encoding :: "string option"
  filter_need_in_memory :: bool
  main_filter_need_in_memory :: bool

definition chain_bytes :: "ngx_buf list \<Rightarrow> char list" where
  "chain_bytes bs = concat (map bytes bs)"

lemma chain_bytes_simps [simp]:
  "chain_bytes [] = []"  "chain_bytes (b # bs) = bytes b @ chain_bytes bs"
  "chain_bytes (bs @ cs) = chain_bytes bs @ chain_bytes cs"
  by (simp_all add: chain_bytes_def)

text \<open>
  Installing the filters: the old heads of the two filter chains become the next filters.
\<close>

record ('hf, 'bf) ngx_filter_chains =
  ngx_http_top_header_filter :: 'hf
  ngx_http_top_body_filter :: 'bf
  ngx_http_next_header_filter :: 'hf
  ngx_http_next_body_filter :: 'bf

section \<open>Configuration values\<close>

text \<open>
  \<open>ngx_conf_merge_value (conf, prev, default)\<close>: an unset value is taken from the
  surrounding block, and if that is unset too it is the default.
\<close>

definition merge_value_spec :: "('a \<Rightarrow> 'a \<Rightarrow> 'a \<Rightarrow> 'a) \<Rightarrow> 'a \<Rightarrow> bool" where
  "merge_value_spec mv unset =
     (\<forall>c p d. mv c p d = (if c = unset then if p = unset then d else p else c))"

text \<open>A function with that behaviour, for concrete runs.\<close>

definition merge_value_at :: "'a \<Rightarrow> 'a \<Rightarrow> 'a \<Rightarrow> 'a \<Rightarrow> 'a" where
  "merge_value_at unset c p d = (if c = unset then if p = unset then d else p else c)"

lemma merge_value_at_spec [simp]: "merge_value_spec (merge_value_at unset) unset"
  by (simp add: merge_value_spec_def merge_value_at_def)

lemma merge_value_cases:
  assumes "merge_value_spec mv unset"
  shows "mv unset unset d = d"
    and "p \<noteq> unset \<Longrightarrow> mv unset p d = p"
    and "c \<noteq> unset \<Longrightarrow> mv c p d = c"
  using assms by (simp_all add: merge_value_spec_def)

section \<open>Strings\<close>

text \<open>
  \<open>ngx_strncasecmp (s1, s2, n)\<close> looks at \<open>n\<close> bytes of each string, or at fewer if it meets a NUL:
  it is zero exactly when what it looks at agrees up to case.
\<close>

definition c_prefix :: "nat \<Rightarrow> string \<Rightarrow> string" where
  "c_prefix n s = take n (takeWhile (\<lambda>ch. ch \<noteq> NUL) s)"

definition ci_eq :: "string \<Rightarrow> string \<Rightarrow> bool" where
  "ci_eq a b = (map tolower_c a = map tolower_c b)"

definition strncasecmp_spec :: "(string \<Rightarrow> string \<Rightarrow> nat \<Rightarrow> int) \<Rightarrow> bool" where
  "strncasecmp_spec f =
     (\<forall>a b n. (n \<le> length a \<or> NUL \<in> set a) \<longrightarrow> (n \<le> length b \<or> NUL \<in> set b) \<longrightarrow>
        (f a b n = 0) = ci_eq (c_prefix n a) (c_prefix n b))"

definition strncasecmp_at :: "string \<Rightarrow> string \<Rightarrow> nat \<Rightarrow> int" where
  "strncasecmp_at a b n = (if ci_eq (c_prefix n a) (c_prefix n b) then 0 else 1)"

lemma strncasecmp_at_spec [simp]: "strncasecmp_spec strncasecmp_at"
  by (simp add: strncasecmp_spec_def strncasecmp_at_def)

lemma takeWhile_no_nul [simp]: "NUL \<notin> set s \<Longrightarrow> takeWhile (\<lambda>ch. ch \<noteq> NUL) s = s"
  by (auto simp: takeWhile_eq_all_conv)

lemma c_prefix_no_nul: "NUL \<notin> set s \<Longrightarrow> c_prefix n s = take n s"
  by (simp add: c_prefix_def)

lemma strncasecmp_no_nul:
  assumes "strncasecmp_spec f" "n \<le> length a" "n \<le> length b" "NUL \<notin> set a" "NUL \<notin> set b"
  shows "(f a b n = 0) = ci_eq (take n a) (take n b)"
  using assms by (simp add: strncasecmp_spec_def c_prefix_no_nul)

lemma ci_eq_refl [simp, intro]: "ci_eq a a"
  by (simp add: ci_eq_def)

lemma ci_eq_sym: "ci_eq a b \<Longrightarrow> ci_eq b a"
  by (simp add: ci_eq_def)

lemma ci_eq_trans: "ci_eq a b \<Longrightarrow> ci_eq b c \<Longrightarrow> ci_eq a c"
  by (simp add: ci_eq_def)

lemma ci_eq_length: "ci_eq a b \<Longrightarrow> length a = length b"
  unfolding ci_eq_def by (rule map_eq_imp_length_eq)

section \<open>Decimal numbers\<close>

definition is_digit :: "char \<Rightarrow> bool" where
  "is_digit ch = (48 \<le> (of_char ch :: nat) \<and> (of_char ch :: nat) \<le> 57)"

definition digit_of :: "char \<Rightarrow> nat" where
  "digit_of ch = of_char ch - 48"

text \<open>A number in decimal, as \<open>%u\<close> prints it.\<close>

fun show_dec :: "nat \<Rightarrow> string" where
  "show_dec n = (if n < 10 then [char_of (48 + n)] else show_dec (n div 10) @ [char_of (48 + n mod 10)])"

declare show_dec.simps [simp del]

lemma show_dec_length: "n < 10 ^ k \<Longrightarrow> 0 < k \<Longrightarrow> length (show_dec n) \<le> k"
proof (induction n arbitrary: k rule: show_dec.induct)
  case (1 n)
  show ?case
  proof (cases "n < 10")
    case True
    then show ?thesis using 1 by (simp add: show_dec.simps [of n])
  next
    case False
    then obtain j where k: "k = Suc j" "0 < j" using 1 by (cases k; cases "k = 1") auto
    then have "n div 10 < 10 ^ j" using 1 by (simp add: div_less_iff_less_mult mult.commute)
    then have "length (show_dec (n div 10)) \<le> j" using 1 False k by simp
    then show ?thesis using False k by (simp add: show_dec.simps [of n])
  qed
qed

lemma show_word_length: "length (show_dec (unat (w :: 64 word))) \<le> 20"
proof -
  have "unat w < 2 ^ 64" using unsigned_less [of w] by simp
  also have "\<dots> < 10 ^ 20" by simp
  finally show ?thesis by (intro show_dec_length) simp_all
qed

end
