(* ===== verification/Minify_Contract.thy ===== *)
theory Minify_Contract
  imports Minify_Inv Ngx_Core
begin

text \<open>
  How the body filter of \<open>src/modules/mod_minify/ngx_http_minify_filter_module.c\<close> feeds the
  buffers of a chain to a minifier, and what it needs from a minifier: the three process
  functions of the table \<open>ngx_http_minify_process\<close> share the contract
  \<open>minify_processor\<close>, and what the filter promises is proved from the contract alone.
\<close>

section \<open>Chains of buffers\<close>

type_synonym minify_process_f = "char list \<Rightarrow> ngx_minify_ctx \<Rightarrow> (char list \<times> ngx_minify_ctx) outcome"

text \<open>
  One turn of the loop over the chain: bytes held back are put in front of the buffer's own in
  new memory, then the process function runs. The length of the buffer is a C \<open>int\<close>: a
  negative one, or one that overflows when the cached bytes are added, is a fault, as is
  copying more than the cache holds.
\<close>

definition minify_link ::
  "minify_process_f \<Rightarrow> ngx_buf \<Rightarrow> ngx_minify_ctx \<Rightarrow> (ngx_buf \<times> ngx_minify_ctx) outcome" where
  "minify_link pf b c =
     bindO
       (if cachelen c \<noteq> 0 then
          (if 0 \<le> cachelen c \<and> cachelen c \<le> int CTX_CACHE_BUFLEN
           then
             (let buflen = to_int32 (int (length (bytes b))) in
              if 0 \<le> buflen \<and> cachelen c + buflen < 2 ^ 31
              then pf (take (nat (cachelen c)) (cache c) @ take (nat buflen) (bytes b))
                     (c\<lparr>cachelen := 0\<rparr>)
              else fail OutOfBounds)
           else fail CacheBounds)
        else pf (bytes b) c)
       (\<lambda>(o', d). ret (b\<lparr>bytes := o', in_file := False\<rparr>, d))"

text \<open>
  The loop. \<open>palloc i\<close> tells whether the pool has memory for the new buffer of link
  \<open>i\<close>; if not, the filter gives up and the rest of the chain goes on as it is.
\<close>

fun minify_chain ::
  "minify_process_f \<Rightarrow> (nat \<Rightarrow> bool) \<Rightarrow> nat \<Rightarrow> ngx_buf list \<Rightarrow> ngx_minify_ctx \<Rightarrow>
   (ngx_buf list \<times> ngx_minify_ctx) outcome" where
  "minify_chain pf palloc i [] c = ret ([], c)"
| "minify_chain pf palloc i (b # bs) c =
     (if cachelen c \<noteq> 0 \<and> \<not> palloc i then ret (b # bs, c)
      else bindO (minify_link pf b c)
        (\<lambda>(b', d). bindO (minify_chain pf palloc (Suc i) bs d) (\<lambda>(bs', e). ret (b' # bs', e))))"

text \<open>A response arrives as a sequence of chains, one per call of the body filter.\<close>

fun minify_stream ::
  "minify_process_f \<Rightarrow> ngx_buf list list \<Rightarrow> ngx_minify_ctx \<Rightarrow>
   (ngx_buf list list \<times> ngx_minify_ctx) outcome" where
  "minify_stream pf [] c = ret ([], c)"
| "minify_stream pf (ch # chs) c =
     bindO (minify_chain pf (\<lambda>_. True) 0 ch c)
       (\<lambda>(ch', d). bindO (minify_stream pf chs d) (\<lambda>(chs', e). ret (ch' # chs', e)))"

definition small_chain :: "ngx_buf list \<Rightarrow> bool" where
  "small_chain bs = list_all (\<lambda>b. length (bytes b) < 2 ^ 30) bs"

lemma small_chain_simps [simp]:
  "small_chain []"  "small_chain (b # bs) = (length (bytes b) < 2 ^ 30 \<and> small_chain bs)"
  by (simp_all add: small_chain_def)

text \<open>Outputs of two stages one after the other, with the bytes \<open>h\<close> held between them.\<close>

lemma subseq_glue:
  assumes "subseq (map nm (x @ h)) (map nm (g @ b))"
    and "subseq (map nm (ys @ h')) (map nm (h @ bs))"
  shows "subseq (map nm (x @ ys @ h')) (map nm (g @ b @ bs))"
proof -
  have "subseq (map nm x @ map nm (ys @ h')) (map nm x @ map nm (h @ bs))"
    using assms(2) by (intro subseq_append_both) auto
  also have "subseq \<dots> (map nm (g @ b) @ map nm bs)"
    using subseq_append_both [OF assms(1), of "map nm bs"] by simp
  finally show ?thesis by simp
qed

section \<open>The contract of a minifier\<close>

text \<open>
  A minifier keeps an invariant of the context between buffers. Run on what was held back
  followed by a new buffer, it ends, commits no fault outside \<open>F\<close>, and what it writes
  followed by what it now holds back is what it was given with some bytes deleted (up to the
  renaming \<open>nm\<close> of bytes).
\<close>

locale minify_processor =
  fixes process :: minify_process_f
    and inv :: "ngx_minify_ctx \<Rightarrow> bool"
    and T :: ngx_minify_type_e
    and nm :: "char \<Rightarrow> char"
    and F :: "fault set"
  assumes inv_idle: "inv c \<Longrightarrow> idle_ok c"
    and inv_type: "inv c \<Longrightarrow> ctype c = T"
    and inv_init: "inv (zero_ctx\<lparr>ctype := T\<rparr>)"
    and process_ok: "inv c \<Longrightarrow> length (held c @ b) < 2 ^ 31 \<Longrightarrow>
      wp F (process (held c @ b) (c\<lparr>cachelen := 0\<rparr>))
        (\<lambda>(o', d). inv d \<and> subseq (map nm (o' @ held d)) (map nm (held c @ b)))"
begin

lemma held_bound: "inv c \<Longrightarrow> length (held c) \<le> CTX_CACHE_BUFLEN"
  by (auto dest!: inv_idle simp: idle_ok_def buf_ok_def held_def)

lemma link_ok:
  assumes "inv c" "length (bytes b) < 2 ^ 30"
  shows "wp F (minify_link process b c)
    (\<lambda>(b', d). inv d \<and> subseq (map nm (bytes b' @ held d)) (map nm (held c @ bytes b)) \<and>
      last_buf b' = last_buf b \<and> \<not> in_file b')"
proof -
  have len: "length (held c @ bytes b) < 2 ^ 31" using assms held_bound [of c] by simp
  have cl: "0 \<le> cachelen c" "cachelen c \<le> 64" "held c = take (nat (cachelen c)) (cache c)"
    using inv_idle [OF assms(1)] by (auto simp: idle_ok_def buf_ok_def held_def)
  have b32: "to_int32 (int (length (bytes b))) = int (length (bytes b))"
    using assms by (simp add: to_int32_id)
  have "wp F (if cachelen c \<noteq> 0 then
          (if 0 \<le> cachelen c \<and> cachelen c \<le> int CTX_CACHE_BUFLEN
           then
             (let buflen = to_int32 (int (length (bytes b))) in
              if 0 \<le> buflen \<and> cachelen c + buflen < 2 ^ 31
              then process (take (nat (cachelen c)) (cache c) @ take (nat buflen) (bytes b))
                     (c\<lparr>cachelen := 0\<rparr>)
              else fail OutOfBounds)
           else fail CacheBounds)
        else process (bytes b) c)
      (\<lambda>(o', d). inv d \<and> subseq (map nm (o' @ held d)) (map nm (held c @ bytes b)))"
  proof (cases "cachelen c = 0")
    case True
    then have eq: "c\<lparr>cachelen := 0\<rparr> = c" and "held c = []" using cl by simp_all
    then have "wp F (process (bytes b) c)
      (\<lambda>(o', d). inv d \<and> subseq (map nm (o' @ held d)) (map nm (held c @ bytes b)))"
      using process_ok [OF assms(1) len] unfolding eq by simp
    then show ?thesis using True by simp
  next
    case False
    have "cachelen c + int (length (bytes b)) < 2 ^ 31" using assms(2) cl by simp
    then show ?thesis using False process_ok [OF assms(1) len] cl b32 by (simp add: Let_def)
  qed
  then show ?thesis
    unfolding minify_link_def wp_bindO by (rule wp_mono) auto
qed

lemma chain_ok:
  assumes "inv c" "small_chain bs"
  shows "wp F (minify_chain process (\<lambda>_. True) i bs c)
    (\<lambda>(bs', d). inv d \<and> map last_buf bs' = map last_buf bs \<and>
      subseq (map nm (chain_bytes bs' @ held d)) (map nm (held c @ chain_bytes bs)))"
  using assms
proof (induction bs arbitrary: i c)
  case Nil
  then show ?case by simp
next
  case (Cons b bs)
  have "wp F (minify_link process b c)
    (\<lambda>(b', d). wp F (minify_chain process (\<lambda>_. True) (Suc i) bs d)
      (\<lambda>(bs', e). inv e \<and> map last_buf (b' # bs') = map last_buf (b # bs) \<and>
        subseq (map nm (chain_bytes (b' # bs') @ held e)) (map nm (held c @ chain_bytes (b # bs)))))"
  proof (rule wp_mono [OF link_ok [OF Cons.prems(1)]], goal_cases)
    case (2 r)
    then obtain b' d where r: "r = (b', d)" and d: "inv d"
      and sub: "subseq (map nm (bytes b' @ held d)) (map nm (held c @ bytes b))"
      and lb: "last_buf b' = last_buf b" by auto
    have "wp F (minify_chain process (\<lambda>_. True) (Suc i) bs d)
      (\<lambda>(bs', e). inv e \<and> map last_buf bs' = map last_buf bs \<and>
        subseq (map nm (chain_bytes bs' @ held e)) (map nm (held d @ chain_bytes bs)))"
      using Cons d by simp
    then show ?case
      unfolding r prod.case
      by (rule wp_mono) (use subseq_glue [OF sub] lb in auto)
  qed (use Cons.prems in simp)
  then show ?case
    using Cons.prems by (simp add: case_prod_unfold)
qed

text \<open>Where the pool refuses memory the chain is still safe, and nothing is added to it.\<close>

lemma chain_safe:
  assumes "inv c" "small_chain bs"
  shows "wp F (minify_chain process palloc i bs c)
    (\<lambda>(bs', d). inv d \<and> map last_buf bs' = map last_buf bs \<and>
      subseq (map nm (chain_bytes bs')) (map nm (held c @ chain_bytes bs)))"
  using assms
proof (induction bs arbitrary: i c)
  case Nil
  then show ?case by simp
next
  case (Cons b bs)
  have "wp F (minify_link process b c)
    (\<lambda>(b', d). wp F (minify_chain process palloc (Suc i) bs d)
      (\<lambda>(bs', e). inv e \<and> map last_buf (b' # bs') = map last_buf (b # bs) \<and>
        subseq (map nm (chain_bytes (b' # bs'))) (map nm (held c @ chain_bytes (b # bs)))))"
  proof (rule wp_mono [OF link_ok [OF Cons.prems(1)]], goal_cases)
    case (2 r)
    then obtain b' d where r: "r = (b', d)" and d: "inv d"
      and sub: "subseq (map nm (bytes b' @ held d)) (map nm (held c @ bytes b))"
      and lb: "last_buf b' = last_buf b" by auto
    have "wp F (minify_chain process palloc (Suc i) bs d)
      (\<lambda>(bs', e). inv e \<and> map last_buf bs' = map last_buf bs \<and>
        subseq (map nm (chain_bytes bs')) (map nm (held d @ chain_bytes bs)))"
      using Cons d by simp
    then show ?case
      unfolding r prod.case
      by (rule wp_mono) (use subseq_glue [OF sub, where h' = "[]"] lb in auto)
  qed (use Cons.prems in simp)
  moreover have "subseq (map nm (chain_bytes (b # bs))) (map nm (held c @ chain_bytes (b # bs)))"
    by (simp add: subseq_drop_many)
  ultimately show ?case
    using Cons.prems by (simp add: case_prod_unfold)
qed

text \<open>Over a whole response: the bytes sent, then those held back, are the bytes received with some deleted.\<close>

lemma stream_ok:
  assumes "inv c" "list_all small_chain chs"
  shows "wp F (minify_stream process chs c)
    (\<lambda>(chs', d). inv d \<and>
      subseq (map nm (chain_bytes (concat chs') @ held d)) (map nm (held c @ chain_bytes (concat chs))))"
  using assms
proof (induction chs arbitrary: c)
  case Nil
  then show ?case by simp
next
  case (Cons ch chs)
  have "wp F (minify_chain process (\<lambda>_. True) 0 ch c)
    (\<lambda>(ch', d). wp F (minify_stream process chs d)
      (\<lambda>(chs', e). inv e \<and>
        subseq (map nm (chain_bytes (concat (ch' # chs')) @ held e))
          (map nm (held c @ chain_bytes (concat (ch # chs))))))"
  proof (rule wp_mono [OF chain_ok [OF Cons.prems(1)]], goal_cases)
    case (2 r)
    then obtain ch' d where r: "r = (ch', d)" and d: "inv d"
      and sub: "subseq (map nm (chain_bytes ch' @ held d)) (map nm (held c @ chain_bytes ch))" by auto
    have "wp F (minify_stream process chs d)
      (\<lambda>(chs', e). inv e \<and>
        subseq (map nm (chain_bytes (concat chs') @ held e)) (map nm (held d @ chain_bytes (concat chs))))"
      using Cons d by simp
    then show ?case
      unfolding r prod.case
      by (rule wp_mono) (use subseq_glue [OF sub] in \<open>auto simp: chain_bytes_def\<close>)
  qed (use Cons.prems in simp_all)
  then show ?case by (simp add: case_prod_unfold)
qed

end

end
