(* ===== verification/Minify_HTML.thy ===== *)
theory Minify_HTML
  imports Minify_Contract
begin

text \<open>
  The HTML minifier, \<open>src/modules/mod_minify/ngx_http_minify_filter_module_html.c\<close>: the
  machine of \<open>ngx_minify_html_strip_buffer\<close> (text, skipped elements) calls the machine of
  \<open>ngx_minify_html_strip_tag\<close> (tags, declarations, character data), which calls the machines
  of \<open>ngx_minify_html_strip_tagname\<close> and \<open>ngx_minify_html_strip_comment\<close>. Each
  \<open>case\<close> of a \<open>switch\<close> is a definition.
\<close>

section \<open>The code\<close>

definition html_skip_tag :: "string list" where
  "html_skip_tag = [''pre'', ''script'', ''style'']"

text \<open>
  \<open>strncasecmp\<close> over the length of the cached name; the names of the list hold no NUL byte,
  so an equal run cannot stop early.
\<close>

primrec skip_tagname_from :: "string list \<Rightarrow> int \<Rightarrow> ngx_minify_ctx \<Rightarrow> int" where
  "skip_tagname_from [] i c = -1"
| "skip_tagname_from (t # ts) i c =
     (if tagcachelen c = int (length t) \<and>
         map tolower_c (take (length t) (tagcache c)) = map tolower_c t
      then i else skip_tagname_from ts (i + 1) c)"

definition ngx_minify_get_skip_tagname :: "ngx_minify_ctx \<Rightarrow> int" where
  "ngx_minify_get_skip_tagname = skip_tagname_from html_skip_tag 0"

text \<open>\<open>!memcmp(ctx->tagcache, ctx->tagendcache, ctx->tagcachelen)\<close>.\<close>

definition memcmp_tagcaches :: "ngx_minify_ctx \<Rightarrow> (bool \<Rightarrow> 'a outcome) \<Rightarrow> 'a outcome" where
  "memcmp_tagcaches c f =
     (if 0 \<le> tagcachelen c \<and> tagcachelen c \<le> int CTX_CACHE_BUFLEN
      then f (take (nat (tagcachelen c)) (tagcache c) = take (nat (tagcachelen c)) (tagendcache c))
      else fail TagCacheBounds)"

text \<open>The three cases of \<open>ngx_minify_html_strip_tagname\<close>.\<close>

definition html_case_tagname :: "ngx_minify_ctx \<Rightarrow> ngx_minify_ctx outcome" where
  "html_case_tagname c = deref 0 c (\<lambda>ch.
     if ch = CHR ''>'' then
       seq [ngx_minify_copy_rpos, CTX_TAGCACHE_CLOSE,
            \<lambda>c. if 0 \<le> ngx_minify_get_skip_tagname c then CTX_SET_STATE html_state_skip c
                else seq [CTX_TAGCACHE_CLEAR, CTX_SET_STATE minify_state_text] c] c
     else if ch = SP \<or> ch = CHR ''/'' then
       seq [ngx_minify_copy_rpos, CTX_TAGCACHE_CLOSE,
            \<lambda>c. if ngx_minify_get_skip_tagname c < 0 then CTX_TAGCACHE_CLEAR c else ret c,
            CTX_POP_STATE, CTX_PUSH_STATE html_state_tagatt] c
     else seq [CTX_TAGCACHE_ADD ch, ngx_minify_copy_rpos] c)"

definition html_case_tagatt :: "ngx_minify_ctx \<Rightarrow> ngx_minify_ctx outcome" where
  "html_case_tagatt c = deref 0 c (\<lambda>ch.
     if ch = SP \<and> pre_char c = SP then ngx_minify_inc_rpos c
     else if ch = CHR ''>'' then
       seq [ngx_minify_copy_rpos,
            \<lambda>c. if tagcachelen c \<noteq> 0 then CTX_SET_STATE html_state_skip c
                else CTX_SET_STATE minify_state_text c] c
     else if ch = CHR ''/'' then
       (if 2 \<le> count c then
          deref 1 c (\<lambda>ch1.
            if ch1 = CHR ''>'' then seq [ngx_minify_copy_rpos, CTX_TAGCACHE_CLEAR] c
            else seq [ngx_minify_copy_rpos, ngx_minify_copy_rpos] c)
        else seq [cache_stmt ''/'', ngx_minify_inc_rpos] c)
     else ngx_minify_copy_rpos c)"

definition html_case_tagname_end :: "ngx_minify_ctx \<Rightarrow> ngx_minify_ctx outcome" where
  "html_case_tagname_end c = deref 0 c (\<lambda>ch.
     if ch = SP then ngx_minify_inc_rpos c
     else if ch = CHR ''>'' then
       seq [ngx_minify_copy_rpos,
            \<lambda>c. if tagendcachelen c \<noteq> 0 then
                  seq [CTX_TAGENDCACHE_CLOSE,
                       \<lambda>c. memcmp_tagcaches c (\<lambda>eq.
                         if eq then seq [CTX_SET_STATE minify_state_text, CTX_TAGCACHE_CLEAR] c
                         else CTX_SET_STATE html_state_skip c),
                       CTX_TAGENDCACHE_CLEAR] c
                else CTX_SET_STATE minify_state_text c] c
     else
       seq [\<lambda>c. if tagcachelen c \<noteq> 0 then CTX_TAGENDCACHE_ADD ch c else ret c,
            ngx_minify_copy_rpos] c)"

definition ngx_minify_html_strip_tagname :: "ngx_minify_ctx \<Rightarrow> ngx_minify_ctx outcome" where
  "ngx_minify_html_strip_tagname c0 =
     loop (\<lambda>c. count c \<noteq> 0)
       (\<lambda>c. switch_state c (\<lambda>s.
          if s = html_state_tagname then next_of (seq [html_case_tagname, record_pre_char] c)
          else if s = html_state_tagatt then next_of (seq [html_case_tagatt, record_pre_char] c)
          else if s = html_state_tagname_end then
            next_of (seq [html_case_tagname_end, record_pre_char] c)
          else if s = html_state_skip then ret (Break (c\<lparr>nochange_pre := True\<rparr>))
          else ret (Break c)))
       (c0\<lparr>pre_char := NUL, pre_char2 := NUL\<rparr>)"

text \<open>
  The three cases of \<open>ngx_minify_html_strip_comment\<close>. In the first, \<open>ctx->rpos\<close>
  points at the four bytes that open a comment.
\<close>

definition html_open_skipped :: "ngx_minify_ctx \<Rightarrow> ngx_minify_ctx outcome" where
  "html_open_skipped =
     seq [repeat_op (length ''<!--'') ngx_minify_inc_rpos, CTX_POP_STATE,
          CTX_PUSH_STATE html_state_comment_skip]"

definition html_case_comment :: "ngx_minify_ctx \<Rightarrow> ngx_minify_ctx outcome" where
  "html_case_comment c =
     (if count c = int (length ''<!--'') then
        ngx_minify_cache ''<!--'' c (\<lambda>cached. repeat_op (nat cached) ngx_minify_inc_rpos)
      else deref 4 c (\<lambda>ch.
        if ch = CHR ''['' then
          (if int (length ''<!--[if'') \<le> count c then
             memcmp_rpos ''<!--[if'' c (\<lambda>eq.
               if eq then seq [CTX_POP_STATE, CTX_PUSH_STATE html_state_comment_ie] c
               else html_open_skipped c)
           else
             ngx_minify_cache ''<!--[if'' c (\<lambda>cached.
               if cached = -1 then html_open_skipped
               else repeat_op (nat cached) ngx_minify_inc_rpos))
        else html_open_skipped c))"

definition html_case_comment_ie :: "ngx_minify_ctx \<Rightarrow> ngx_minify_ctx outcome" where
  "html_case_comment_ie c = deref 0 c (\<lambda>ch.
     if ch = CHR '']'' then
       (if int (length '']-->'') \<le> count c then
          memcmp_rpos '']-->'' c (\<lambda>eq.
            if eq then
              seq [repeat_op (length '']-->'') ngx_minify_copy_rpos,
                   CTX_SET_STATE minify_state_text] c
            else repeat_op (length '']-->'') ngx_minify_copy_rpos c)
        else
          ngx_minify_cache '']-->'' c (\<lambda>cached.
            if cached = -1 then ngx_minify_inc_rpos
            else repeat_op (nat cached) ngx_minify_inc_rpos))
     else ngx_minify_copy_rpos c)"

definition html_case_comment_skip :: "ngx_minify_ctx \<Rightarrow> ngx_minify_ctx outcome" where
  "html_case_comment_skip c = deref 0 c (\<lambda>ch.
     if ch = CHR ''-'' then
       (if int (length ''-->'') \<le> count c then
          memcmp_rpos ''-->'' c (\<lambda>eq.
            if eq then
              seq [repeat_op (length ''-->'') ngx_minify_inc_rpos,
                   CTX_SET_STATE minify_state_text] c
            else repeat_op (length ''-->'') ngx_minify_inc_rpos c)
        else
          ngx_minify_cache ''-->'' c (\<lambda>cached.
            if cached = -1 then ngx_minify_inc_rpos
            else repeat_op (nat cached) ngx_minify_inc_rpos))
     else ngx_minify_inc_rpos c)"

definition ngx_minify_html_strip_comment :: "ngx_minify_ctx \<Rightarrow> ngx_minify_ctx outcome" where
  "ngx_minify_html_strip_comment =
     loop (\<lambda>c. count c \<noteq> 0)
       (\<lambda>c. switch_state c (\<lambda>s.
          if s = html_state_comment then next_of (html_case_comment c)
          else if s = html_state_comment_ie then next_of (html_case_comment_ie c)
          else if s = html_state_comment_skip then next_of (html_case_comment_skip c)
          else ret (Break c)))"

text \<open>The cases of \<open>ngx_minify_html_strip_tag\<close>.\<close>

definition html_case_tag :: "ngx_minify_ctx \<Rightarrow> ngx_minify_ctx outcome" where
  "html_case_tag c = deref 0 c (\<lambda>ch.
     if ch = SP then ngx_minify_inc_rpos c
     else if ch = CHR ''/'' then seq [ngx_minify_copy_rpos, CTX_PUSH_STATE html_state_tagname_end] c
     else seq [CTX_PUSH_STATE html_state_tagname, CTX_TAGCACHE_CLEAR, CTX_TAGENDCACHE_CLEAR] c)"

text \<open>\<open>for (i = 0; i < ctx->count; ++i)\<close>: the bound shrinks while the loop runs.\<close>

definition copy_below_count :: "ngx_minify_ctx \<Rightarrow> ngx_minify_ctx outcome" where
  "copy_below_count c =
     bindO (loop (\<lambda>(i, c). int i < count c)
              (\<lambda>(i, c). bindO (ngx_minify_copy_rpos c) (\<lambda>d. ret (Next (Suc i, d)))) (0, c))
       (\<lambda>(_, d). ret d)"

definition html_case_tag_bang :: "ngx_minify_ctx \<Rightarrow> ngx_minify_ctx outcome" where
  "html_case_tag_bang c =
     (if count c \<le> 2 then seq [copy_below_count, CTX_SET_STATE minify_state_text] c
      else deref 2 c (\<lambda>ch.
        if ch \<noteq> CHR ''-'' \<and> ch \<noteq> CHR ''['' then
          seq [ngx_minify_copy_rpos, ngx_minify_copy_rpos, CTX_POP_STATE,
               CTX_PUSH_STATE html_state_tag] c
        else if ch = CHR ''-'' then
          (if int (length ''<!--'') \<le> count c then
             memcmp_rpos ''<!--'' c (\<lambda>eq.
               if eq then
                 seq [CTX_PUSH_STATE html_state_comment, \<lambda>c. ret (c\<lparr>nochange_pre := True\<rparr>)] c
               else
                 seq [ngx_minify_copy_rpos, ngx_minify_copy_rpos, ngx_minify_copy_rpos,
                      CTX_POP_STATE, CTX_PUSH_STATE html_state_tag] c)
           else
             ngx_minify_cache ''<!--'' c (\<lambda>cached.
               if cached = -1 then CTX_SET_STATE minify_state_abort
               else repeat_op (nat cached) ngx_minify_inc_rpos))
        else
          (if int (length ''<![CDATA['') \<le> count c then
             memcmp_rpos ''<![CDATA['' c (\<lambda>eq.
               if eq then
                 seq [repeat_op (length ''<![CDATA['') ngx_minify_copy_rpos, CTX_POP_STATE,
                      CTX_PUSH_STATE html_state_cdata] c
               else
                 seq [repeat_op (length ''<![CDATA['') ngx_minify_copy_rpos,
                      CTX_SET_STATE minify_state_text] c)
           else
             ngx_minify_cache ''<![CDATA['' c (\<lambda>cached.
               if cached = -1 then CTX_SET_STATE minify_state_abort
               else repeat_op (nat cached) ngx_minify_inc_rpos))))"

definition html_case_cdata :: "ngx_minify_ctx \<Rightarrow> ngx_minify_ctx outcome" where
  "html_case_cdata c = deref 0 c (\<lambda>ch.
     if ch = CHR '']'' then
       (if int (length '']]>'') \<le> count c then
          memcmp_rpos '']]>'' c (\<lambda>eq.
            if eq then
              seq [repeat_op (length '']]>'') ngx_minify_copy_rpos,
                   CTX_SET_STATE minify_state_text] c
            else seq [ngx_minify_copy_rpos, ngx_minify_copy_rpos, ngx_minify_copy_rpos] c)
        else
          ngx_minify_cache '']]>'' c (\<lambda>cached.
            if cached = -1 then ngx_minify_copy_rpos
            else repeat_op (nat cached) ngx_minify_inc_rpos))
     else ngx_minify_copy_rpos c)"

definition ngx_minify_html_strip_tag :: "ngx_minify_ctx \<Rightarrow> ngx_minify_ctx outcome" where
  "ngx_minify_html_strip_tag =
     loop (\<lambda>c. count c \<noteq> 0)
       (\<lambda>c. switch_state c (\<lambda>s.
          if s = html_state_tag then next_of (html_case_tag c)
          else if s = html_state_tag_bang then next_of (html_case_tag_bang c)
          else if s = html_state_cdata then next_of (html_case_cdata c)
          else if s \<in> {html_state_tagname, html_state_tagname_end, html_state_tagatt} then
            next_of (ngx_minify_html_strip_tagname c)
          else if s \<in> {html_state_comment, html_state_comment_ie, html_state_comment_skip} then
            next_of (ngx_minify_html_strip_comment c)
          else if s = html_state_skip then ret (Break (c\<lparr>nochange_pre := True\<rparr>))
          else ret (Break c)))"

text \<open>The cases of \<open>ngx_minify_html_strip_buffer\<close>.\<close>

definition html_case_text :: "ngx_minify_ctx \<Rightarrow> ngx_minify_ctx outcome" where
  "html_case_text c = deref 0 c (\<lambda>ch.
     if ch = NL \<or> ch = CR \<or> ch = TAB then ngx_minify_inc_rpos c
     else if ch = CHR ''<'' then
       (if 2 \<le> count c then
          deref 1 c (\<lambda>ch1.
            if ch1 \<noteq> CHR ''!'' then seq [ngx_minify_copy_rpos, CTX_PUSH_STATE html_state_tag] c
            else if 2 < count c then CTX_PUSH_STATE html_state_tag_bang c
            else if count c = 2 then
              seq [cache_stmt ''<!'', ngx_minify_inc_rpos, ngx_minify_inc_rpos] c
            else ret c)
        else seq [cache_stmt ''<'', ngx_minify_inc_rpos] c)
     else if ch = SP \<and> pre_char c = SP then ngx_minify_inc_rpos c
     else if ch = SP \<and> pre_char c \<noteq> SP then ngx_minify_copy_rpos c
     else ngx_minify_copy_rpos c)"

definition html_case_skip :: "ngx_minify_ctx \<Rightarrow> ngx_minify_ctx outcome" where
  "html_case_skip c = deref 0 c (\<lambda>ch.
     if ch = CHR ''<'' then
       (if 2 \<le> count c then
          deref 1 c (\<lambda>ch1.
            if ch1 = CHR ''/'' then CTX_SET_STATE minify_state_text c
            else seq [ngx_minify_copy_rpos, ngx_minify_copy_rpos] c)
        else seq [cache_stmt ''<'', ngx_minify_inc_rpos] c)
     else ngx_minify_copy_rpos c)"

definition html_tag_states :: "ngx_minify_state_e set" where
  "html_tag_states =
     {html_state_tag, html_state_tag_bang, html_state_cdata, html_state_tagname, html_state_tagatt,
      html_state_tagname_end, html_state_comment, html_state_comment_ie, html_state_comment_skip}"

definition html_switch :: "ngx_minify_ctx \<Rightarrow> ngx_minify_ctx outcome" where
  "html_switch c = switch_state c (\<lambda>s.
     if s = minify_state_abort then ngx_minify_copy_rpos c
     else if s = minify_state_text then html_case_text (c\<lparr>nochange_pre := False\<rparr>)
     else if s = html_state_skip then html_case_skip c
     else if s \<in> html_tag_states then ngx_minify_html_strip_tag c
     else CTX_SET_STATE minify_state_abort c)"

definition ngx_minify_html_strip_buffer ::
  "char list \<Rightarrow> ngx_minify_ctx \<Rightarrow> ngx_minify_ctx outcome" where
  "ngx_minify_html_strip_buffer src c0 =
     (let c = c0\<lparr>mem := src, rpos := 0, wpos := 0, count := to_int32 (int (length src))\<rparr> in
      if count c < 0 then CTX_SET_STATE minify_state_abort c
      else loop (\<lambda>c. 0 < count c) (\<lambda>c. next_of (seq [html_switch, record_pre_char] c)) c)"

definition ngx_minify_html_process ::
  "char list \<Rightarrow> ngx_minify_ctx \<Rightarrow> (char list \<times> ngx_minify_ctx) outcome" where
  "ngx_minify_html_process b c =
     bindO (ngx_minify_html_strip_buffer b (c\<lparr>dstlen := 0\<rparr>))
       (\<lambda>d. ret (take (nat (dstlen d)) (mem d), d))"

section \<open>Every pass ends and only deletes\<close>

text \<open>
  The shapes of the state stack, and what the comment state relies on: its four opening bytes
  are the next ones to read, or are held back.
\<close>

definition html_stacks :: "ngx_minify_state_e list set" where
  "html_stacks =
     {[minify_state_text], [minify_state_abort], [html_state_skip],
      [html_state_tag, minify_state_text], [html_state_tag_bang, minify_state_text],
      [html_state_cdata, minify_state_text],
      [html_state_tagname, html_state_tag, minify_state_text],
      [html_state_tagatt, html_state_tag, minify_state_text],
      [html_state_tagname_end, html_state_tag, minify_state_text],
      [html_state_comment, html_state_tag_bang, minify_state_text],
      [html_state_comment_ie, html_state_tag_bang, minify_state_text],
      [html_state_comment_skip, html_state_tag_bang, minify_state_text]}"

definition pend :: "ngx_minify_ctx \<Rightarrow> char list" where
  "pend c = (if count c = 0 then held c else rest c)"

definition opens :: "ngx_minify_ctx \<Rightarrow> bool" where
  "opens c = (hd (stk c) = html_state_comment \<longrightarrow> take 4 (pend c) = ''<!--'')"

definition html_ok :: "ngx_minify_type_e \<Rightarrow> char list \<Rightarrow> ngx_minify_ctx \<Rightarrow> bool" where
  "html_ok T inp c = (pass_inv T id inp c \<and> stk c \<in> html_stacks \<and> opens c)"

primrec html_rank :: "ngx_minify_state_e \<Rightarrow> nat" where
  "html_rank minify_state_text = 4"
| "html_rank minify_state_abort = 0"
| "html_rank html_state_skip = 5"
| "html_rank html_state_tag = 2"
| "html_rank html_state_tag_bang = 3"
| "html_rank html_state_comment = 2"
| "html_rank html_state_comment_ie = 1"
| "html_rank html_state_comment_skip = 1"
| "html_rank html_state_tagname = 1"
| "html_rank html_state_tagatt = 1"
| "html_rank html_state_tagname_end = 1"
| "html_rank html_state_cdata = 1"
| "html_rank css_state_comment = 0"
| "html_rank css_state_quote = 0"
| "html_rank css_state_brace = 0"
| "html_rank js_state_skip = 0"
| "html_rank js_state_comment = 0"
| "html_rank js_state_comment_line = 0"
| "html_rank js_state_quote = 0"

definition html_measure :: "ngx_minify_ctx \<Rightarrow> nat" where
  "html_measure c = 6 * nat (count c) + html_rank (hd (stk c))"

abbreviation tag_faults :: "fault set" where
  "tag_faults \<equiv> {TagCacheBounds, TagEndCacheBounds}"

lemma html_okD:
  assumes "html_ok T inp c"
  shows "pass_inv T id inp c" "buf_ok c" "stk c \<in> html_stacks" "opens c" "stk c \<noteq> []"
  using assms by (auto simp: html_ok_def html_stacks_def dest: pass_inv_buf_ok)

lemma html_ok_record [simp]: "html_ok T inp (pre_recorded c) = html_ok T inp c"
  by (simp add: html_ok_def opens_def pend_def)

lemma html_measure_record [simp]: "html_measure (pre_recorded c) = html_measure c"
  by (simp add: html_measure_def)

lemma html_ok_flags [simp]:
  "html_ok T inp (c\<lparr>pre_char := q\<rparr>) = html_ok T inp c"  "html_ok T inp (c\<lparr>pre_char2 := q\<rparr>) = html_ok T inp c"
  "html_ok T inp (c\<lparr>nochange_pre := b\<rparr>) = html_ok T inp c"
  by (simp_all add: html_ok_def opens_def pend_def)

lemma html_measure_flags [simp]:
  "html_measure (c\<lparr>pre_char := q\<rparr>) = html_measure c"
  "html_measure (c\<lparr>pre_char2 := q\<rparr>) = html_measure c"
  "html_measure (c\<lparr>nochange_pre := b\<rparr>) = html_measure c"
  by (simp_all add: html_measure_def)

lemma memcmp_tagcaches_ok [op_simps]:
  "buf_ok c \<Longrightarrow> memcmp_tagcaches c f =
     f (take (nat (tagcachelen c)) (tagcache c) = take (nat (tagcachelen c)) (tagendcache c))"
  by (simp add: memcmp_tagcaches_def buf_ok_def)

lemmas html_step_simps = op_simps html_ok_def html_stacks_def opens_def html_measure_def

lemma html_tagname_step:
  assumes "html_ok T inp c" "stk c = [html_state_tagname, html_state_tag, minify_state_text]" "0 < count c"
  shows "wp tag_faults (html_case_tagname c) (\<lambda>d. html_ok T inp d \<and> html_measure d < html_measure c)"
  using assms html_okD [OF assms(1)]
  by (auto simp: html_case_tagname_def html_step_simps)

lemma html_tagatt_step:
  assumes "html_ok T inp c" "stk c = [html_state_tagatt, html_state_tag, minify_state_text]" "0 < count c"
  shows "wp tag_faults (html_case_tagatt c) (\<lambda>d. html_ok T inp d \<and> html_measure d < html_measure c)"
  using assms html_okD [OF assms(1)]
  by (auto simp: html_case_tagatt_def html_step_simps)

lemma html_tagname_end_step:
  assumes "html_ok T inp c" "stk c = [html_state_tagname_end, html_state_tag, minify_state_text]" "0 < count c"
  shows "wp tag_faults (html_case_tagname_end c) (\<lambda>d. html_ok T inp d \<and> html_measure d < html_measure c)"
  using assms html_okD [OF assms(1)]
  by (auto simp: html_case_tagname_end_def html_step_simps)

lemma html_tag_step:
  assumes "html_ok T inp c" "stk c = [html_state_tag, minify_state_text]" "0 < count c"
  shows "wp tag_faults (html_case_tag c) (\<lambda>d. html_ok T inp d \<and> html_measure d < html_measure c)"
  using assms html_okD [OF assms(1)]
  by (auto simp: html_case_tag_def html_step_simps)

lemma html_skip_step:
  assumes "html_ok T inp c" "stk c = [html_state_skip]" "0 < count c"
  shows "wp tag_faults (html_case_skip c) (\<lambda>d. html_ok T inp d \<and> html_measure d < html_measure c)"
  using assms html_okD [OF assms(1)]
  by (auto simp: html_case_skip_def html_step_simps)

lemma html_cdata_step:
  assumes "html_ok T inp c" "stk c = [html_state_cdata, minify_state_text]" "0 < count c"
  shows "wp tag_faults (html_case_cdata c) (\<lambda>d. html_ok T inp d \<and> html_measure d < html_measure c)"
  using assms html_okD [OF assms(1)]
  by (auto simp: html_case_cdata_def html_step_simps cache_ok)

lemma html_comment_ie_step:
  assumes "html_ok T inp c" "stk c = [html_state_comment_ie, html_state_tag_bang, minify_state_text]"
    "0 < count c"
  shows "wp tag_faults (html_case_comment_ie c) (\<lambda>d. html_ok T inp d \<and> html_measure d < html_measure c)"
  using assms html_okD [OF assms(1)]
  by (auto simp: html_case_comment_ie_def html_step_simps cache_ok)

lemma html_comment_skip_step:
  assumes "html_ok T inp c" "stk c = [html_state_comment_skip, html_state_tag_bang, minify_state_text]"
    "0 < count c"
  shows "wp tag_faults (html_case_comment_skip c) (\<lambda>d. html_ok T inp d \<and> html_measure d < html_measure c)"
  using assms html_okD [OF assms(1)]
  by (auto simp: html_case_comment_skip_def html_step_simps cache_ok)

text \<open>In the comment state the opening bytes are there, so the pass moves on.\<close>

lemma html_comment_open:
  assumes "html_ok T inp c" "stk c = [html_state_comment, html_state_tag_bang, minify_state_text]"
    "0 < count c"
  shows "take 4 (rest c) = ''<!--''" "4 \<le> count c" "count c = 4 \<Longrightarrow> ci_prefix (rest c) ''<!--''"
proof -
  have c: "count c = int (length (rest c))"
    using html_okD [OF assms(1)] by (rule_tac buf_ok_rest) simp
  show tk: "take 4 (rest c) = ''<!--''"
    using assms by (simp add: html_ok_def opens_def pend_def)
  then have "length (take 4 (rest c)) = 4" by simp
  then show "4 \<le> count c" using c by simp
  show "ci_prefix (rest c) ''<!--''" if "count c = 4"
    using tk c that by (simp add: ci_prefix_def)
qed

lemma html_open_skipped_ok:
  assumes "pass_inv T id inp c" "stk c = [html_state_comment, html_state_tag_bang, minify_state_text]"
    "4 \<le> count c"
  shows "wp F (html_open_skipped c) (\<lambda>d. html_ok T inp d \<and> html_measure d < html_measure c)"
  using assms pass_inv_buf_ok [OF assms(1)]
  by (auto simp: html_open_skipped_def html_step_simps)

lemma html_comment_step:
  assumes "html_ok T inp c" "stk c = [html_state_comment, html_state_tag_bang, minify_state_text]"
    "0 < count c"
  shows "wp tag_faults (html_case_comment c) (\<lambda>d. html_ok T inp d \<and> html_measure d < html_measure c)"
proof -
  note ok = html_okD [OF assms(1)] html_comment_open [OF assms] assms
  have held: "html_ok T inp (held_back c) \<and> html_measure (held_back c) < html_measure c"
    if "count c < 64"
    using that ok by (auto simp: html_ok_def opens_def pend_def html_measure_def)
  have skip: "wp tag_faults (html_open_skipped d) (\<lambda>e. html_ok T inp e \<and> html_measure e < html_measure c)"
    if "pass_inv T id inp d" "stk d = stk c" "count d = count c" for d
    using html_open_skipped_ok [of T inp d tag_faults] that ok by (simp add: html_measure_def)
  show ?thesis
  proof (cases "count c = 4")
    case True
    then have "repeat_op 4 ngx_minify_inc_rpos (cached_upto (length (rest c)) c) = ret (held_back c)"
      using step_over_held [of c] ok by simp
    with True show ?thesis using ok held by (simp add: html_case_comment_def op_simps cache_ok)
  next
    case False
    have ie: "wp tag_faults (seq [CTX_POP_STATE, CTX_PUSH_STATE html_state_comment_ie] c)
        (\<lambda>d. html_ok T inp d \<and> html_measure d < html_measure c)"
      using ok by (auto simp: html_step_simps)
    from False have "5 \<le> count c" using ok by simp
    then show ?thesis
      using False ok held skip [of c] skip [of "cache_missed ''<!--[if'' c"] ie
      by (auto simp: html_case_comment_def op_simps cache_ok)
  qed
qed

lemma html_copy_below_count:
  assumes "pass_inv T id inp c" "0 < count c"
  shows "wp F (copy_below_count c) (\<lambda>d. pass_inv T id inp d \<and> count d < count c \<and> stk d = stk c)"
  unfolding copy_below_count_def wp_bindO
proof (rule wp_loop [where \<mu> = "\<lambda>(i, d). nat (count d)" and
      I = "\<lambda>(i, d). pass_inv T id inp d \<and> stk d = stk c \<and>
        (if i = 0 then d = c else count d < count c)"])
qed (use assms in \<open>auto simp: op_simps pass_inv_buf_ok split: if_splits\<close>)

lemma html_tag_bang_step:
  assumes "html_ok T inp c" "stk c = [html_state_tag_bang, minify_state_text]" "0 < count c"
  shows "wp tag_faults (html_case_tag_bang c) (\<lambda>d. html_ok T inp d \<and> html_measure d < html_measure c)"
proof (cases "count c \<le> 2")
  case True
  have "wp tag_faults (copy_below_count c)
    (\<lambda>d. wp tag_faults (seq [CTX_SET_STATE minify_state_text] d)
      (\<lambda>d. html_ok T inp d \<and> html_measure d < html_measure c))"
    by (rule wp_mono [OF html_copy_below_count [OF html_okD(1) [OF assms(1)] assms(3)]])
       (use assms html_okD [OF assms(1)] in \<open>auto simp: html_step_simps pass_inv_buf_ok\<close>)
  with True show ?thesis by (simp add: html_case_tag_bang_def)
next
  case False
  then show ?thesis
    using assms html_okD [OF assms(1)]
    by (auto simp: html_case_tag_bang_def html_step_simps cache_ok pend_def)
       (simp_all add: numeral_eq_Suc)
qed

lemma html_cache_bang:
  assumes "buf_ok c" "count c = 2" "rest c ! 0 = CHR ''<''" "rest c ! Suc 0 = CHR ''!''"
  shows "seq [cache_stmt ''<!'', ngx_minify_inc_rpos, ngx_minify_inc_rpos] c = ret (held_back c)"
proof -
  have len: "length (rest c) = 2" using buf_ok_rest [OF assms(1)] assms(2) by simp
  then have "rest c = [rest c ! 0, rest c ! Suc 0]"
    by (auto simp: list_eq_iff_nth_eq less_Suc_eq numeral_2_eq_2)
  then have "ci_prefix (rest c) ''<!''" using assms by (simp add: ci_prefix_def)
  then have "cache_stmt ''<!'' c = ret (cached_upto (length (rest c)) c)"
    using assms by (simp add: cache_stmt_def cache_ok)
  then show ?thesis
    using step_over_held [OF assms(1)] assms(2)
    by (simp add: repeat_op_def numeral_2_eq_2 del: repeat_op_simps)
qed

lemma html_text_step:
  assumes "html_ok T inp c" "stk c = [minify_state_text]" "0 < count c"
  shows "wp tag_faults (html_case_text c) (\<lambda>d. html_ok T inp d \<and> html_measure d < html_measure c)"
  using assms html_okD [OF assms(1)]
  by (auto simp: html_case_text_def html_step_simps html_cache_bang simp del: seq.simps)
     (auto simp: html_case_text_def html_step_simps)

text \<open>The machines.\<close>

abbreviation html_done :: "ngx_minify_type_e \<Rightarrow> char list \<Rightarrow> ngx_minify_ctx \<Rightarrow> ngx_minify_ctx \<Rightarrow> bool" where
  "html_done T inp c d \<equiv> html_ok T inp d \<and> html_measure d < html_measure c"

lemma html_stack_of:
  assumes "html_ok T inp c"
  shows "hd (stk c) = html_state_tagname \<Longrightarrow> stk c = [html_state_tagname, html_state_tag, minify_state_text]"
    "hd (stk c) = html_state_tagatt \<Longrightarrow> stk c = [html_state_tagatt, html_state_tag, minify_state_text]"
    "hd (stk c) = html_state_tagname_end \<Longrightarrow>
      stk c = [html_state_tagname_end, html_state_tag, minify_state_text]"
    "hd (stk c) = html_state_comment \<Longrightarrow>
      stk c = [html_state_comment, html_state_tag_bang, minify_state_text]"
    "hd (stk c) = html_state_comment_ie \<Longrightarrow>
      stk c = [html_state_comment_ie, html_state_tag_bang, minify_state_text]"
    "hd (stk c) = html_state_comment_skip \<Longrightarrow>
      stk c = [html_state_comment_skip, html_state_tag_bang, minify_state_text]"
    "hd (stk c) = html_state_tag \<Longrightarrow> stk c = [html_state_tag, minify_state_text]"
    "hd (stk c) = html_state_tag_bang \<Longrightarrow> stk c = [html_state_tag_bang, minify_state_text]"
    "hd (stk c) = html_state_cdata \<Longrightarrow> stk c = [html_state_cdata, minify_state_text]"
    "hd (stk c) = html_state_skip \<Longrightarrow> stk c = [html_state_skip]"
    "hd (stk c) = minify_state_text \<Longrightarrow> stk c = [minify_state_text]"
    "hd (stk c) = minify_state_abort \<Longrightarrow> stk c = [minify_state_abort]"
  using html_okD(3) [OF assms] by (auto simp: html_stacks_def)

lemma html_recorded:
  assumes "wp F (m t) (html_done T inp t)"
  shows "wp F (next_of (seq [m, record_pre_char] t))
    (\<lambda>r. case r of Next d \<Rightarrow> html_done T inp t d | Break d \<Rightarrow> False)"
proof -
  have "wp F (m t) (\<lambda>d. wp F (record_pre_char d) (html_done T inp t))"
  proof (rule wp_mono [OF assms])
    fix x assume "html_done T inp t x"
    then show "wp F (record_pre_char x) (html_done T inp t)"
      using record_pre_char_ok [OF html_okD(2), of T inp x] by simp
  qed
  then show ?thesis by simp
qed

lemma wp_html_tagname:
  assumes "html_ok T inp c" "hd (stk c) \<in> {html_state_tagname, html_state_tagatt, html_state_tagname_end}"
    "0 < count c"
  shows "wp tag_faults (ngx_minify_html_strip_tagname c) (html_done T inp c)"
proof -
  let ?c = "c\<lparr>pre_char := NUL, pre_char2 := NUL\<rparr>"
  have "wp tag_faults (ngx_minify_html_strip_tagname c) (html_done T inp ?c)"
    unfolding ngx_minify_html_strip_tagname_def
  proof (rule wp_machine_measure
      [where S = "{html_state_tagname, html_state_tagatt, html_state_tagname_end}"])
    fix t x
    assume t: "html_ok T inp t" "hd (stk t) = x"
      "x \<in> {html_state_tagname, html_state_tagatt, html_state_tagname_end}" "0 < count t"
    then consider "x = html_state_tagname" | "x = html_state_tagatt" | "x = html_state_tagname_end"
      by blast
    then show "wp tag_faults
        (if x = html_state_tagname then next_of (seq [html_case_tagname, record_pre_char] t)
         else if x = html_state_tagatt then next_of (seq [html_case_tagatt, record_pre_char] t)
         else if x = html_state_tagname_end then next_of (seq [html_case_tagname_end, record_pre_char] t)
         else if x = html_state_skip then ret (Break (t\<lparr>nochange_pre := True\<rparr>))
         else ret (Break t))
        (\<lambda>r. case r of Next d \<Rightarrow> html_done T inp t d | Break d \<Rightarrow> False)"
    proof cases
      case 1
      show ?thesis
        using html_recorded [where m = html_case_tagname, OF html_tagname_step
            [OF t(1) html_stack_of(1) [OF t(1)] t(4)]] t(2) 1 by simp
    next
      case 2
      show ?thesis
        using html_recorded [where m = html_case_tagatt, OF html_tagatt_step
            [OF t(1) html_stack_of(2) [OF t(1)] t(4)]] t(2) 2 by simp
    next
      case 3
      show ?thesis
        using html_recorded [where m = html_case_tagname_end, OF html_tagname_end_step
            [OF t(1) html_stack_of(3) [OF t(1)] t(4)]] t(2) 3 by simp
    qed
  qed (use assms html_okD in auto)
  then show ?thesis by simp
qed

lemma wp_html_comment:
  assumes "html_ok T inp c"
    "hd (stk c) \<in> {html_state_comment, html_state_comment_ie, html_state_comment_skip}" "0 < count c"
  shows "wp tag_faults (ngx_minify_html_strip_comment c) (html_done T inp c)"
  unfolding ngx_minify_html_strip_comment_def
proof (rule wp_machine_measure
    [where S = "{html_state_comment, html_state_comment_ie, html_state_comment_skip}"])
  fix t x
  assume t: "html_ok T inp t" "hd (stk t) = x"
    "x \<in> {html_state_comment, html_state_comment_ie, html_state_comment_skip}" "0 < count t"
  then consider "x = html_state_comment" | "x = html_state_comment_ie" | "x = html_state_comment_skip"
    by blast
  then show "wp tag_faults
      (if x = html_state_comment then next_of (html_case_comment t)
       else if x = html_state_comment_ie then next_of (html_case_comment_ie t)
       else if x = html_state_comment_skip then next_of (html_case_comment_skip t)
       else ret (Break t))
      (\<lambda>r. case r of Next d \<Rightarrow> html_done T inp t d | Break d \<Rightarrow> False)"
  proof cases
    case 1
    then show ?thesis using html_comment_step [OF t(1) html_stack_of(4) [OF t(1)] t(4)] t(2) by simp
  next
    case 2
    then show ?thesis using html_comment_ie_step [OF t(1) html_stack_of(5) [OF t(1)] t(4)] t(2) by simp
  next
    case 3
    then show ?thesis using html_comment_skip_step [OF t(1) html_stack_of(6) [OF t(1)] t(4)] t(2) by simp
  qed
qed (use assms html_okD in auto)

lemma wp_html_tag:
  assumes "html_ok T inp c" "hd (stk c) \<in> html_tag_states" "0 < count c"
  shows "wp tag_faults (ngx_minify_html_strip_tag c) (html_done T inp c)"
  unfolding ngx_minify_html_strip_tag_def
proof (rule wp_machine_measure [where S = html_tag_states])
  fix t x
  assume t: "html_ok T inp t" "hd (stk t) = x" "x \<in> html_tag_states" "0 < count t"
  have "wp tag_faults (html_case_tag t) (html_done T inp t)" if "x = html_state_tag"
    using that html_tag_step [OF t(1) html_stack_of(7) [OF t(1)] t(4)] t(2) by simp
  moreover have "wp tag_faults (html_case_tag_bang t) (html_done T inp t)" if "x = html_state_tag_bang"
    using that html_tag_bang_step [OF t(1) html_stack_of(8) [OF t(1)] t(4)] t(2) by simp
  moreover have "wp tag_faults (html_case_cdata t) (html_done T inp t)" if "x = html_state_cdata"
    using that html_cdata_step [OF t(1) html_stack_of(9) [OF t(1)] t(4)] t(2) by simp
  moreover note wp_html_tagname [OF t(1) _ t(4)] wp_html_comment [OF t(1) _ t(4)]
  ultimately show "wp tag_faults
      (if x = html_state_tag then next_of (html_case_tag t)
       else if x = html_state_tag_bang then next_of (html_case_tag_bang t)
       else if x = html_state_cdata then next_of (html_case_cdata t)
       else if x \<in> {html_state_tagname, html_state_tagname_end, html_state_tagatt} then
         next_of (ngx_minify_html_strip_tagname t)
       else if x \<in> {html_state_comment, html_state_comment_ie, html_state_comment_skip} then
         next_of (ngx_minify_html_strip_comment t)
       else if x = html_state_skip then ret (Break (t\<lparr>nochange_pre := True\<rparr>))
       else ret (Break t))
      (\<lambda>r. case r of Next d \<Rightarrow> html_done T inp t d | Break d \<Rightarrow> False)"
    using t(2,3) unfolding html_tag_states_def by auto
qed (use assms html_okD in \<open>auto simp: html_tag_states_def\<close>)

lemma wp_html_switch:
  assumes "html_ok T inp c" "0 < count c"
  shows "wp tag_faults (html_switch c) (html_done T inp c)"
proof -
  obtain s ss where s: "stk c = s # ss" using html_okD(5) [OF assms(1)] by (cases "stk c") auto
  have sw: "switch_state c k = k s" for k :: "ngx_minify_state_e \<Rightarrow> ngx_minify_ctx outcome"
    using s html_okD [OF assms(1)] by (simp add: switch_state_ok)
  have abort: "wp tag_faults (ngx_minify_copy_rpos c) (html_done T inp c)" if "s = minify_state_abort"
    using that s html_stack_of(12) [OF assms(1)] html_okD [OF assms(1)] assms(2)
    by (auto simp: html_step_simps)
  have tx: "wp tag_faults (html_case_text (c\<lparr>nochange_pre := False\<rparr>)) (html_done T inp c)"
    if "s = minify_state_text"
    using that s html_text_step [of T inp "c\<lparr>nochange_pre := False\<rparr>"] html_stack_of(11) [OF assms(1)] assms
    by simp
  have skp: "wp tag_faults (html_case_skip c) (html_done T inp c)" if "s = html_state_skip"
    using that s html_skip_step [OF assms(1) html_stack_of(10) [OF assms(1)] assms(2)] by simp
  have "s \<in> html_tag_states \<union> {minify_state_abort, minify_state_text, html_state_skip}"
    using s html_okD(3) [OF assms(1)] by (auto simp: html_stacks_def html_tag_states_def)
  then show ?thesis
    using abort tx skp wp_html_tag [OF assms(1) _ assms(2)] s
    by (auto simp: html_switch_def sw html_tag_states_def)
qed

lemma html_strip_buffer_loaded:
  "length src < 2 ^ 31 \<Longrightarrow>
   ngx_minify_html_strip_buffer src (c\<lparr>dstlen := 0\<rparr>) =
     loop (\<lambda>c. 0 < count c) (\<lambda>c. next_of (seq [html_switch, record_pre_char] c)) (loaded src c)"
  by (simp add: ngx_minify_html_strip_buffer_def Let_def loaded_def to_int32_id)

text \<open>
  Between two buffers: the comment state needs its four opening bytes held back. A call starts
  from what was held back, so it finds them at the front of its buffer.
\<close>

definition html_idle :: "ngx_minify_type_e \<Rightarrow> ngx_minify_ctx \<Rightarrow> bool" where
  "html_idle T c = (ctype c = T \<and> idle_ok c \<and> stk c \<in> html_stacks \<and>
     (hd (stk c) = html_state_comment \<longrightarrow> take 4 (held c) = ''<!--''))"

lemma wp_html_process:
  assumes "html_idle T c" "length (held c @ b) < 2 ^ 31"
  shows "wp tag_faults (ngx_minify_html_process (held c @ b) (c\<lparr>cachelen := 0\<rparr>))
    (\<lambda>(o', d). html_idle T d \<and> count d = 0 \<and> ctype d = ctype c \<and> o' = out d \<and>
      subseq (map id (o' @ held d)) (map id (held c @ b)))"
proof -
  let ?c = "c\<lparr>cachelen := 0\<rparr>" and ?src = "held c @ b"
  let ?P = "\<lambda>t. stk t \<in> html_stacks \<and> opens t"
  have take4: "take 4 (held c @ b) = ''<!--''" if "take 4 (held c) = ''<!--''"
  proof -
    have "4 \<le> length (held c)" using arg_cong [OF that, of length] by simp
    then show ?thesis using that by simp
  qed
  have "wp tag_faults (ngx_minify_html_process ?src ?c)
    (\<lambda>(o', d). idle_ok d \<and> ?P d \<and> count d = 0 \<and> ctype d = ctype ?c \<and> o' = out d \<and>
      subseq (map id (o' @ held d)) (map id ?src))"
    unfolding ngx_minify_html_process_def html_strip_buffer_loaded [OF assms(2)]
  proof (rule wp_buffer_loop [where \<mu> = html_measure])
    show "?P (loaded ?src ?c)"
      using assms(1) take4 by (auto simp: html_idle_def opens_def pend_def)
    have T: "ctype ?c = T" using assms(1) by (simp add: html_idle_def)
    fix t assume "pass_inv (ctype ?c) id ?src t" "?P t" "0 < count t"
    then have "html_ok T ?src t" unfolding T by (simp add: html_ok_def)
    from wp_html_switch [OF this \<open>0 < count t\<close>]
    show "wp tag_faults (html_switch t)
      (\<lambda>d. pass_inv (ctype ?c) id ?src d \<and> ?P d \<and> html_measure d < html_measure t)"
      unfolding T by (rule wp_mono) (simp add: html_ok_def)
  qed (use assms(1) in \<open>auto simp: html_idle_def idle_ok_clear_cache opens_def pend_def\<close>)
  then show ?thesis
    by (rule wp_mono) (use assms(1) in \<open>auto simp: html_idle_def opens_def pend_def\<close>)
qed

section \<open>The contract\<close>

text \<open>The contract holds for a context of any file type.\<close>

lemma html_contract: "minify_processor ngx_minify_html_process (html_idle T) T id tag_faults"
proof
  show "html_idle T c \<Longrightarrow> idle_ok c" for c by (simp add: html_idle_def)
  show "html_idle T c \<Longrightarrow> ctype c = T" for c by (simp add: html_idle_def)
  show "html_idle T (zero_ctx\<lparr>ctype := T\<rparr>)"
    by (simp add: html_idle_def idle_ok_zero_ctx html_stacks_def)
  show "wp tag_faults (ngx_minify_html_process (held c @ b) (c\<lparr>cachelen := 0\<rparr>))
      (\<lambda>(o', d). html_idle T d \<and> subseq (map id (o' @ held d)) (map id (held c @ b)))"
    if "html_idle T c" "length (held c @ b) < 2 ^ 31" for c b
    by (rule wp_mono [OF wp_html_process [OF that]]) auto
qed

abbreviation html_inv :: "ngx_minify_ctx \<Rightarrow> bool" where
  "html_inv \<equiv> html_idle MINIFY_FILE_TYPE_HTML"

interpretation html: minify_processor ngx_minify_html_process html_inv MINIFY_FILE_TYPE_HTML id tag_faults
  by (rule html_contract)

section \<open>Properties\<close>

text \<open>
  C7: the HTML minifier is safe up to its tag-name caches. From any context between two buffers,
  on the bytes held back followed by a new buffer, it does not run forever, commits no fault but
  an overflow of a tag-name cache, keeps the invariant of the context, and its output followed by
  what it now holds back is its input with bytes deleted.
\<close>

theorem html_buffer:
  assumes "html_inv c" "length (held c @ b) < 2 ^ 31"
  shows "(\<exists>o' d. ngx_minify_html_process (held c @ b) (c\<lparr>cachelen := 0\<rparr>) = ret (o', d) \<and>
      html_inv d \<and> subseq (o' @ held d) (held c @ b)) \<or>
    (\<exists>f \<in> {TagCacheBounds, TagEndCacheBounds}.
      ngx_minify_html_process (held c @ b) (c\<lparr>cachelen := 0\<rparr>) = fail f)"
  using html.process_ok [OF assms] by (cases rule: wp_cases) auto

abbreviation html_fresh :: ngx_minify_ctx where
  "html_fresh \<equiv> zero_ctx\<lparr>ctype := MINIFY_FILE_TYPE_HTML\<rparr>"

theorem html_buffer_witness:
  "(\<exists>o' d. ngx_minify_html_process ''<b>x  y</b>'' html_fresh = ret (o', d) \<and>
      html_inv d \<and> subseq (o' @ held d) ''<b>x  y</b>'') \<or>
    (\<exists>f \<in> {TagCacheBounds, TagEndCacheBounds}. ngx_minify_html_process ''<b>x  y</b>'' html_fresh = fail f)"
proof -
  have h: "held html_fresh = []" "html_fresh\<lparr>cachelen := 0\<rparr> = html_fresh"
    by (simp_all add: held_def zero_ctx_def)
  have "length (held html_fresh @ ''<b>x  y</b>'') < 2 ^ 31" unfolding h by simp
  from html_buffer [OF html.inv_init this] show ?thesis unfolding h append_Nil .
qed

text \<open>
  The end of a skipped element. The name is compared over the length of the opening name only,
  and by case: an end tag whose name begins with \<open>pre\<close> closes a \<open>pre\<close> element, and one in other
  case than the opening tag does not, so that the rest of the page is never minified again.
\<close>

lemma html_skip_end:
  "map_option (map_sum id fst) (ngx_minify_html_process ''<pre></preface>a  b'' html_fresh)
     = ret ''<pre></preface>a b'' \<and>
   map_option (map_sum id fst) (ngx_minify_html_process ''<PRE></pre>a  b'' html_fresh)
     = ret ''<PRE></pre>a  b''"
proof
  show "map_option (map_sum id fst) (ngx_minify_html_process ''<pre></preface>a  b'' html_fresh)
     = ret ''<pre></preface>a b''" by code_simp
  show "map_option (map_sum id fst) (ngx_minify_html_process ''<PRE></pre>a  b'' html_fresh)
     = ret ''<PRE></pre>a  b''" by code_simp
qed

text \<open>
  The end of a comment is looked for in steps of three bytes. Behind a dash that does not begin
  the end mark, two more bytes are skipped unseen: a comment that ends in three dashes and a
  bracket does not end there, and the text behind it is lost.
\<close>

lemma html_comment_end_missed:
  "map_option (map_sum id fst) (ngx_minify_html_process ''<!-- x -->after'' html_fresh) = ret ''after'' \<and>
   map_option (map_sum id fst) (ngx_minify_html_process ''<!-- x --->after'' html_fresh) = ret []"
proof
  show "map_option (map_sum id fst) (ngx_minify_html_process ''<!-- x -->after'' html_fresh) = ret ''after''"
    by code_simp
  show "map_option (map_sum id fst) (ngx_minify_html_process ''<!-- x --->after'' html_fresh) = ret []"
    by code_simp
qed

end
