(* ===== verification/Minify_CSS.thy ===== *)
theory Minify_CSS
  imports Minify_Contract
begin

text \<open>
  The CSS minifier, \<open>src/modules/mod_minify/ngx_http_minify_filter_module_css.c\<close>: three
  small state machines (comments, quoted text, blocks in braces) driven by the machine of
  \<open>ngx_minify_css_strip_buffer\<close>. Each \<open>case\<close> of a \<open>switch\<close> is a definition; the
  loops compose them as the code does.
\<close>

section \<open>The code\<close>

text \<open>\<open>case css_state_comment\<close> of \<open>ngx_minify_css_strip_comment\<close>.\<close>

definition css_case_comment :: "ngx_minify_ctx \<Rightarrow> ngx_minify_ctx outcome" where
  "css_case_comment c = deref 0 c (\<lambda>ch.
     if ch = CHR ''*'' then
       (if 2 \<le> count c then
          memcmp_rpos ''*/'' c (\<lambda>eq.
            if eq then seq [ngx_minify_inc_rpos, ngx_minify_inc_rpos, CTX_POP_STATE] c
            else ngx_minify_inc_rpos c)
        else seq [cache_stmt ''*'', ngx_minify_inc_rpos] c)
     else ngx_minify_inc_rpos c)"

definition ngx_minify_css_strip_comment :: "ngx_minify_ctx \<Rightarrow> ngx_minify_ctx outcome" where
  "ngx_minify_css_strip_comment =
     loop (\<lambda>c. count c \<noteq> 0)
       (\<lambda>c. switch_state c (\<lambda>s.
          if s = css_state_comment then next_of (css_case_comment c) else ret (Break c)))"

text \<open>\<open>case css_state_quote\<close> of \<open>ngx_minify_css_strip_quote\<close>.\<close>

definition css_case_quote :: "ngx_minify_ctx \<Rightarrow> ngx_minify_ctx outcome" where
  "css_case_quote c = deref 0 c (\<lambda>ch.
     if ch = BSL then
       (if 1 < count c then seq [ngx_minify_copy_rpos, ngx_minify_copy_rpos] c
        else if count c = 1 then seq [cache_stmt [BSL], ngx_minify_inc_rpos] c
        else ret c)
     else if ch = quote_char c then seq [ngx_minify_copy_rpos, CTX_POP_STATE] c
     else ngx_minify_copy_rpos c)"

definition ngx_minify_css_strip_quote :: "ngx_minify_ctx \<Rightarrow> ngx_minify_ctx outcome" where
  "ngx_minify_css_strip_quote =
     loop (\<lambda>c. count c \<noteq> 0)
       (\<lambda>c. switch_state c (\<lambda>s.
          if s = css_state_quote then next_of (css_case_quote c) else ret (Break c)))"

text \<open>\<open>case css_state_brace\<close> of \<open>ngx_minify_css_strip_brace\<close>.\<close>

definition css_case_brace :: "ngx_minify_ctx \<Rightarrow> ngx_minify_ctx outcome" where
  "css_case_brace c = deref 0 c (\<lambda>ch.
     if ch = CHR ''}'' then seq [ngx_minify_copy_rpos, CTX_SET_STATE minify_state_text] c
     else if ch = SP \<and> pre_char c = SP \<or> ch = NL \<or> ch = CR \<or> ch = TAB then ngx_minify_inc_rpos c
     else if ch = CHR ''/'' then
       (if 2 \<le> count c then
          memcmp_rpos ''/*'' c (\<lambda>eq.
            if eq then
              seq [ngx_minify_inc_rpos, ngx_minify_inc_rpos, CTX_PUSH_STATE css_state_comment] c
            else seq [ngx_minify_copy_rpos, ngx_minify_copy_rpos] c)
        else if count c = 1 then seq [cache_stmt ''/'', ngx_minify_inc_rpos] c
        else ret c)
     else if ch = DQ \<or> ch = SQ then
       seq [ngx_minify_copy_rpos, CTX_PUSH_STATE css_state_quote] (c\<lparr>quote_char := ch\<rparr>)
     else ngx_minify_copy_rpos c)"

definition ngx_minify_css_strip_brace :: "ngx_minify_ctx \<Rightarrow> ngx_minify_ctx outcome" where
  "ngx_minify_css_strip_brace =
     loop (\<lambda>c. count c \<noteq> 0)
       (\<lambda>c. switch_state c (\<lambda>s.
          if s = css_state_brace then next_of (seq [css_case_brace, record_pre_char] c)
          else if s = css_state_quote then
            next_of (seq [ngx_minify_css_strip_quote, record_pre_char] c)
          else if s = css_state_comment then
            next_of (seq [ngx_minify_css_strip_comment, record_pre_char] (c\<lparr>nochange_pre := True\<rparr>))
          else ret (Break c)))"

text \<open>\<open>case minify_state_text\<close> of \<open>ngx_minify_css_strip_buffer\<close>.\<close>

definition css_case_text :: "ngx_minify_ctx \<Rightarrow> ngx_minify_ctx outcome" where
  "css_case_text c = deref 0 c (\<lambda>ch.
     if ch = SP \<or> ch = TAB then
       (if pre_char c = SP \<or> pre_char c = TAB then ngx_minify_inc_rpos c
        else ngx_minify_copy_rpos c)
     else if ch = CHR ''/'' then
       (if 2 \<le> count c then
          memcmp_rpos ''/*'' c (\<lambda>eq.
            if eq then
              seq [ngx_minify_inc_rpos, ngx_minify_inc_rpos, CTX_PUSH_STATE css_state_comment] c
            else seq [ngx_minify_copy_rpos, ngx_minify_copy_rpos] c)
        else seq [cache_stmt ''/'', ngx_minify_inc_rpos] c)
     else if ch = DQ \<or> ch = SQ then
       seq [ngx_minify_copy_rpos, CTX_PUSH_STATE css_state_quote] (c\<lparr>quote_char := ch\<rparr>)
     else if ch = CHR ''{'' then seq [ngx_minify_copy_rpos, CTX_PUSH_STATE css_state_brace] c
     else if ch = NL \<or> ch = CR then ngx_minify_inc_rpos c
     else ngx_minify_copy_rpos c)"

definition css_switch :: "ngx_minify_ctx \<Rightarrow> ngx_minify_ctx outcome" where
  "css_switch c = switch_state c (\<lambda>s.
     if s = minify_state_abort then ngx_minify_copy_rpos c
     else if s = minify_state_text then css_case_text (c\<lparr>nochange_pre := False\<rparr>)
     else if s = css_state_comment then ngx_minify_css_strip_comment (c\<lparr>nochange_pre := True\<rparr>)
     else if s = css_state_quote then ngx_minify_css_strip_quote (c\<lparr>nochange_pre := True\<rparr>)
     else if s = css_state_brace then ngx_minify_css_strip_brace c
     else CTX_PUSH_STATE minify_state_abort c)"

text \<open>The cursors both start at \<open>b->pos\<close>: \<open>dst\<close> is \<open>src\<close>.\<close>

definition ngx_minify_css_strip_buffer ::
  "char list \<Rightarrow> ngx_minify_ctx \<Rightarrow> ngx_minify_ctx outcome" where
  "ngx_minify_css_strip_buffer src c0 =
     (let c = c0\<lparr>mem := src, rpos := 0, wpos := 0, count := to_int32 (int (length src))\<rparr> in
      if count c < 0 then CTX_SET_STATE minify_state_abort c
      else loop (\<lambda>c. 0 < count c) (\<lambda>c. next_of (seq [css_switch, record_pre_char] c)) c)"

definition ngx_minify_css_process ::
  "char list \<Rightarrow> ngx_minify_ctx \<Rightarrow> (char list \<times> ngx_minify_ctx) outcome" where
  "ngx_minify_css_process b c =
     bindO (ngx_minify_css_strip_buffer b (c\<lparr>dstlen := 0\<rparr>))
       (\<lambda>d. ret (take (nat (dstlen d)) (mem d), d))"

section \<open>Every pass is safe, ends, and only deletes\<close>

lemma wp_css_comment:
  assumes "pass_inv T nm inp c" "stk c = css_state_comment # ss" "ss \<noteq> []" "hd ss \<noteq> css_state_comment"
    "0 < count c"
  shows "wp {} (ngx_minify_css_strip_comment c)
    (\<lambda>d. (pass_inv T nm inp d \<and> (stk d = css_state_comment # ss \<or> stk d = ss)) \<and>
      count d < count c \<and> (hd (stk d) \<notin> {css_state_comment} \<or> count d = 0))"
  unfolding ngx_minify_css_strip_comment_def
proof (rule wp_machine [where \<mu> = "\<lambda>d. nat (count d)"])
  fix t x
  assume t: "pass_inv T nm inp t \<and> (stk t = css_state_comment # ss \<or> stk t = ss)"
    "hd (stk t) = x" "x \<in> {css_state_comment}" "0 < count t"
  then have "stk t = css_state_comment # ss" "buf_ok t" using assms by (auto dest: pass_inv_buf_ok)
  with t show "wp {} (if x = css_state_comment then next_of (css_case_comment t) else ret (Break t))
    (\<lambda>r. case r of
        Next d \<Rightarrow> (pass_inv T nm inp d \<and> (stk d = css_state_comment # ss \<or> stk d = ss)) \<and>
          nat (count d) < nat (count t) \<and> count d \<le> count t \<and>
          (count d < count t \<or> hd (stk d) \<in> {css_state_comment})
      | Break d \<Rightarrow> False)"
    by (auto simp: css_case_comment_def op_simps)
qed (use assms in \<open>auto dest: pass_inv_buf_ok\<close>)

lemma wp_css_quote:
  assumes "pass_inv T nm inp c" "stk c = css_state_quote # ss" "ss \<noteq> []" "hd ss \<noteq> css_state_quote"
    "0 < count c"
  shows "wp {} (ngx_minify_css_strip_quote c)
    (\<lambda>d. (pass_inv T nm inp d \<and> (stk d = css_state_quote # ss \<or> stk d = ss)) \<and>
      count d < count c \<and> (hd (stk d) \<notin> {css_state_quote} \<or> count d = 0))"
  unfolding ngx_minify_css_strip_quote_def
proof (rule wp_machine [where \<mu> = "\<lambda>d. nat (count d)"])
  fix t x
  assume t: "pass_inv T nm inp t \<and> (stk t = css_state_quote # ss \<or> stk t = ss)"
    "hd (stk t) = x" "x \<in> {css_state_quote}" "0 < count t"
  then have "stk t = css_state_quote # ss" "buf_ok t" using assms by (auto dest: pass_inv_buf_ok)
  with t show "wp {} (if x = css_state_quote then next_of (css_case_quote t) else ret (Break t))
    (\<lambda>r. case r of
        Next d \<Rightarrow> (pass_inv T nm inp d \<and> (stk d = css_state_quote # ss \<or> stk d = ss)) \<and>
          nat (count d) < nat (count t) \<and> count d \<le> count t \<and>
          (count d < count t \<or> hd (stk d) \<in> {css_state_quote})
      | Break d \<Rightarrow> False)"
    by (auto simp: css_case_quote_def op_simps)
qed (use assms in \<open>auto dest: pass_inv_buf_ok\<close>)

text \<open>The shapes of the state stack inside a block, and of the whole machine.\<close>

definition css_brace_stacks :: "ngx_minify_state_e list set" where
  "css_brace_stacks =
     {[css_state_brace, minify_state_text], [css_state_quote, css_state_brace, minify_state_text],
      [css_state_comment, css_state_brace, minify_state_text]}"

definition css_stacks :: "ngx_minify_state_e list set" where
  "css_stacks =
     css_brace_stacks \<union> {[minify_state_text], [minify_state_abort],
       [css_state_quote, minify_state_text], [css_state_comment, minify_state_text]}"

lemma wp_css_brace:
  assumes "pass_inv T nm inp c" "stk c \<in> css_brace_stacks" "0 < count c"
  shows "wp {} (ngx_minify_css_strip_brace c)
    (\<lambda>d. (pass_inv T nm inp d \<and> stk d \<in> insert [minify_state_text] css_brace_stacks) \<and> count d < count c \<and>
      (hd (stk d) \<notin> {css_state_brace, css_state_quote, css_state_comment} \<or> count d = 0))"
  unfolding ngx_minify_css_strip_brace_def
proof (rule wp_machine [where \<mu> = "\<lambda>d. nat (count d)"])
  let ?S = "{css_state_brace, css_state_quote, css_state_comment}"
  fix t x
  assume t: "pass_inv T nm inp t \<and> stk t \<in> insert [minify_state_text] css_brace_stacks"
    "hd (stk t) = x" "x \<in> ?S" "0 < count t"
  then have ok: "buf_ok t" "pass_inv T nm inp t" by (auto dest: pass_inv_buf_ok)
  let ?Q = "\<lambda>r. case r of
        Next d \<Rightarrow> (pass_inv T nm inp d \<and> stk d \<in> insert [minify_state_text] css_brace_stacks) \<and>
          nat (count d) < nat (count t) \<and> count d \<le> count t \<and> (count d < count t \<or> hd (stk d) \<in> ?S)
      | Break d \<Rightarrow> False"
  have after: "?Q (Next (pre_recorded d))"
    if "pass_inv T nm inp d" "stk d \<in> insert [minify_state_text] css_brace_stacks" "count d < count t" for d
    using that t by auto
  consider "stk t = [css_state_brace, minify_state_text]"
    | "stk t = [css_state_quote, css_state_brace, minify_state_text]"
    | "stk t = [css_state_comment, css_state_brace, minify_state_text]"
    using t by (auto simp: css_brace_stacks_def)
  then show "wp {} (if x = css_state_brace then next_of (seq [css_case_brace, record_pre_char] t)
      else if x = css_state_quote then next_of (seq [ngx_minify_css_strip_quote, record_pre_char] t)
      else if x = css_state_comment then
        next_of (seq [ngx_minify_css_strip_comment, record_pre_char] (t\<lparr>nochange_pre := True\<rparr>))
      else ret (Break t)) ?Q"
  proof cases
    case 1
    with t ok show ?thesis
      by (auto simp: css_case_brace_def op_simps css_brace_stacks_def)
  next
    case 2
    have "wp {} (ngx_minify_css_strip_quote t)
      (\<lambda>d. wp {} (seq [record_pre_char] d) (\<lambda>d. ?Q (Next d)))"
      by (rule wp_mono [OF wp_css_quote [OF ok(2) 2]])
         (use t after 2 in \<open>auto simp: op_simps css_brace_stacks_def dest: pass_inv_buf_ok\<close>)
    with t 2 show ?thesis by simp
  next
    case 3
    have "wp {} (ngx_minify_css_strip_comment (t\<lparr>nochange_pre := True\<rparr>))
      (\<lambda>d. wp {} (seq [record_pre_char] d) (\<lambda>d. ?Q (Next d)))"
      by (rule wp_mono [OF wp_css_comment [of T nm inp _ "[css_state_brace, minify_state_text]"]])
         (use t ok after 3 in \<open>auto simp: op_simps css_brace_stacks_def dest: pass_inv_buf_ok\<close>)
    with t 3 show ?thesis by simp
  qed
qed (use assms in \<open>auto dest: pass_inv_buf_ok simp: css_brace_stacks_def\<close>)

lemma css_text_step:
  assumes "pass_inv T nm inp c" "stk c = [minify_state_text]" "0 < count c"
  shows "wp {} (css_case_text c)
    (\<lambda>d. pass_inv T nm inp d \<and> stk d \<in> css_stacks \<and> count d < count c)"
  using assms pass_inv_buf_ok [OF assms(1)]
  by (auto simp: css_case_text_def op_simps css_stacks_def css_brace_stacks_def)

lemma wp_css_switch:
  assumes "pass_inv T nm inp c" "stk c \<in> css_stacks" "0 < count c"
  shows "wp {} (css_switch c)
    (\<lambda>d. pass_inv T nm inp d \<and> stk d \<in> css_stacks \<and> count d < count c)"
proof -
  have ok: "buf_ok c" using assms(1) by (rule pass_inv_buf_ok)
  consider (ab) "stk c = [minify_state_abort]" | (tx) "stk c = [minify_state_text]"
    | (cm) ss where "stk c = css_state_comment # ss" "ss \<in> {[minify_state_text], [css_state_brace, minify_state_text]}"
    | (qt) ss where "stk c = css_state_quote # ss" "ss \<in> {[minify_state_text], [css_state_brace, minify_state_text]}"
    | (br) "stk c = [css_state_brace, minify_state_text]"
    using assms(2) by (auto simp: css_stacks_def css_brace_stacks_def)
  then show ?thesis
  proof cases
    case ab
    with assms ok show ?thesis by (auto simp: css_switch_def op_simps css_stacks_def)
  next
    case tx
    with css_text_step [of T nm inp "c\<lparr>nochange_pre := False\<rparr>"] assms ok show ?thesis
      by (simp add: css_switch_def op_simps)
  next
    case cm
    have "wp {} (ngx_minify_css_strip_comment (c\<lparr>nochange_pre := True\<rparr>))
      (\<lambda>d. pass_inv T nm inp d \<and> stk d \<in> css_stacks \<and> count d < count c)"
      by (rule wp_mono [OF wp_css_comment [of T nm inp _ ss]])
         (use assms cm in \<open>auto simp: css_stacks_def css_brace_stacks_def\<close>)
    with cm ok show ?thesis by (simp add: css_switch_def op_simps)
  next
    case qt
    have "wp {} (ngx_minify_css_strip_quote (c\<lparr>nochange_pre := True\<rparr>))
      (\<lambda>d. pass_inv T nm inp d \<and> stk d \<in> css_stacks \<and> count d < count c)"
      by (rule wp_mono [OF wp_css_quote [of T nm inp _ ss]])
         (use assms qt in \<open>auto simp: css_stacks_def css_brace_stacks_def\<close>)
    with qt ok show ?thesis by (simp add: css_switch_def op_simps)
  next
    case br
    have "wp {} (ngx_minify_css_strip_brace c)
      (\<lambda>d. pass_inv T nm inp d \<and> stk d \<in> css_stacks \<and> count d < count c)"
      by (rule wp_mono [OF wp_css_brace]) (use assms br in \<open>auto simp: css_stacks_def css_brace_stacks_def\<close>)
    with br ok show ?thesis by (simp add: css_switch_def op_simps)
  qed
qed

lemma css_strip_buffer_loaded:
  "length src < 2 ^ 31 \<Longrightarrow>
   ngx_minify_css_strip_buffer src (c\<lparr>dstlen := 0\<rparr>) =
     loop (\<lambda>c. 0 < count c) (\<lambda>c. next_of (seq [css_switch, record_pre_char] c)) (loaded src c)"
  by (simp add: ngx_minify_css_strip_buffer_def Let_def loaded_def to_int32_id)

lemma wp_css_process:
  fixes nm :: "char \<Rightarrow> char"
  assumes "idle_ok c" "cachelen c = 0" "stk c \<in> css_stacks" "length b < 2 ^ 31"
  shows "wp {} (ngx_minify_css_process b c)
    (\<lambda>(o', d). idle_ok d \<and> stk d \<in> css_stacks \<and> count d = 0 \<and> ctype d = ctype c \<and> o' = out d \<and>
      subseq (map nm (o' @ held d)) (map nm b))"
  unfolding ngx_minify_css_process_def css_strip_buffer_loaded [OF assms(4)]
  by (rule wp_buffer_loop [where \<mu> = "\<lambda>d. nat (count d)"])
     (use assms wp_css_switch [of "ctype c" nm b] in auto)

section \<open>The contract\<close>

text \<open>The contract holds for a context of any file type.\<close>

definition css_idle :: "ngx_minify_type_e \<Rightarrow> ngx_minify_ctx \<Rightarrow> bool" where
  "css_idle T c = (ctype c = T \<and> idle_ok c \<and> stk c \<in> css_stacks)"

lemma css_contract: "minify_processor ngx_minify_css_process (css_idle T) T id {}"
proof
  show "css_idle T c \<Longrightarrow> idle_ok c" for c by (simp add: css_idle_def)
  show "css_idle T c \<Longrightarrow> ctype c = T" for c by (simp add: css_idle_def)
  show "css_idle T (zero_ctx\<lparr>ctype := T\<rparr>)"
    by (simp add: css_idle_def idle_ok_zero_ctx css_stacks_def)
  show "wp {} (ngx_minify_css_process (held c @ b) (c\<lparr>cachelen := 0\<rparr>))
      (\<lambda>(o', d). css_idle T d \<and> subseq (map id (o' @ held d)) (map id (held c @ b)))"
    if "css_idle T c" "length (held c @ b) < 2 ^ 31" for c b
    by (rule wp_mono [OF wp_css_process [of "c\<lparr>cachelen := 0\<rparr>" "held c @ b" id]])
       (use that in \<open>auto simp: css_idle_def idle_ok_clear_cache\<close>)
qed

abbreviation css_inv :: "ngx_minify_ctx \<Rightarrow> bool" where
  "css_inv \<equiv> css_idle MINIFY_FILE_TYPE_CSS"

interpretation css: minify_processor ngx_minify_css_process css_inv MINIFY_FILE_TYPE_CSS id "{}"
  by (rule css_contract)

end
