(* ===== verification/Minify_JS.thy ===== *)
theory Minify_JS
  imports Minify_Contract
begin

text \<open>
  The JavaScript minifier, \<open>src/modules/mod_minify/ngx_http_minify_filter_module_js.c\<close>: two
  small state machines (block and line comments; quoted text, to which bracketed text counts)
  driven by the machine of \<open>ngx_minify_js_strip_buffer\<close>.
\<close>

section \<open>The code\<close>

text \<open>The two cases of \<open>ngx_minify_js_strip_comment\<close>.\<close>

definition js_case_comment :: "ngx_minify_ctx \<Rightarrow> ngx_minify_ctx outcome" where
  "js_case_comment c = deref 0 c (\<lambda>ch.
     if ch = CHR ''*'' then
       (if 2 \<le> count c then
          memcmp_rpos ''*/'' c (\<lambda>eq.
            if eq then seq [ngx_minify_inc_rpos, ngx_minify_inc_rpos, CTX_POP_STATE] c
            else ngx_minify_inc_rpos c)
        else seq [cache_stmt ''*'', ngx_minify_inc_rpos] c)
     else ngx_minify_inc_rpos c)"

definition js_case_comment_line :: "ngx_minify_ctx \<Rightarrow> ngx_minify_ctx outcome" where
  "js_case_comment_line c = deref 0 c (\<lambda>ch.
     if ch = NL then
       seq [ngx_minify_copy_char SP, CTX_POP_STATE,
            \<lambda>c. ret (c\<lparr>pre_char := NL, pre_char2 := NUL\<rparr>)] c
     else ngx_minify_inc_rpos c)"

definition ngx_minify_js_strip_comment :: "ngx_minify_ctx \<Rightarrow> ngx_minify_ctx outcome" where
  "ngx_minify_js_strip_comment =
     loop (\<lambda>c. count c \<noteq> 0)
       (\<lambda>c. switch_state c (\<lambda>s.
          if s = js_state_comment then next_of (js_case_comment c)
          else if s = js_state_comment_line then next_of (js_case_comment_line c)
          else ret (Break c)))"

text \<open>\<open>case js_state_quote\<close> of \<open>ngx_minify_js_strip_quote\<close>.\<close>

definition js_case_quote :: "ngx_minify_ctx \<Rightarrow> ngx_minify_ctx outcome" where
  "js_case_quote c = deref 0 c (\<lambda>ch.
     if ch = BSL then
       (if 1 < count c then seq [ngx_minify_copy_rpos, ngx_minify_copy_rpos] c
        else if count c = 1 then seq [cache_stmt [BSL], ngx_minify_inc_rpos] c
        else ret c)
     else if ch = quote_char c then seq [ngx_minify_copy_rpos, CTX_POP_STATE] c
     else ngx_minify_copy_rpos c)"

definition ngx_minify_js_strip_quote :: "ngx_minify_ctx \<Rightarrow> ngx_minify_ctx outcome" where
  "ngx_minify_js_strip_quote =
     loop (\<lambda>c. count c \<noteq> 0)
       (\<lambda>c. switch_state c (\<lambda>s.
          if s = js_state_quote then next_of (js_case_quote c) else ret (Break c)))"

text \<open>\<open>case minify_state_text\<close> of \<open>ngx_minify_js_strip_buffer\<close>, after \<open>nochange_pre = 0\<close>.\<close>

definition js_case_text :: "ngx_minify_ctx \<Rightarrow> ngx_minify_ctx outcome" where
  "js_case_text c = deref 0 c (\<lambda>ch.
     if ch = SP \<and> pre_char c = NL \<or> ch = TAB \<and> pre_char c = NL \<or>
        dstlen c = 0 \<and> (ch = SP \<or> ch = TAB) then
       ngx_minify_inc_rpos (c\<lparr>nochange_pre := True\<rparr>)
     else if (ch = SP \<or> ch = TAB) \<and> (pre_char c = SP \<or> pre_char c = TAB) then
       ngx_minify_inc_rpos (c\<lparr>nochange_pre := True\<rparr>)
     else if ch = CHR ''/'' then
       (if 2 \<le> count c then
          memcmp_rpos ''/*'' c (\<lambda>eq.
            if eq then
              seq [ngx_minify_inc_rpos, ngx_minify_inc_rpos, CTX_PUSH_STATE js_state_comment] c
            else memcmp_rpos ''//'' c (\<lambda>eq.
              if eq then
                seq [ngx_minify_inc_rpos, ngx_minify_inc_rpos, CTX_PUSH_STATE js_state_comment_line] c
              else seq [ngx_minify_copy_rpos, ngx_minify_copy_rpos] c))
        else seq [cache_stmt ''/'', ngx_minify_inc_rpos] c)
     else if ch = DQ \<or> ch = SQ \<or> ch = CHR ''['' then
       seq [ngx_minify_copy_rpos, CTX_PUSH_STATE js_state_quote]
         (c\<lparr>nochange_pre := True, quote_char := (if ch = CHR ''['' then CHR '']'' else ch)\<rparr>)
     else if ch = NL then
       (if pre_char c \<noteq> NUL \<and> pre_char c \<noteq> NL \<and> pre_char c \<noteq> CHR '';'' \<and>
           pre_char c \<noteq> CHR '':'' \<and> pre_char c \<noteq> CHR ''{'' \<and> pre_char c \<noteq> CHR ''}''
        then ngx_minify_copy_rpos c
        else seq [ngx_minify_inc_rpos,
                  \<lambda>c. ret (c\<lparr>pre_char := NL, pre_char2 := NUL, nochange_pre := True\<rparr>)] c)
     else if ch = CR then
       seq [ngx_minify_inc_rpos, \<lambda>c. ret (c\<lparr>nochange_pre := True\<rparr>)] c
     else ngx_minify_copy_rpos c)"

definition js_switch :: "ngx_minify_ctx \<Rightarrow> ngx_minify_ctx outcome" where
  "js_switch c = switch_state c (\<lambda>s.
     if s = minify_state_abort then ngx_minify_copy_rpos c
     else if s = minify_state_text then js_case_text (c\<lparr>nochange_pre := False\<rparr>)
     else if s = js_state_comment \<or> s = js_state_comment_line then
       ngx_minify_js_strip_comment (c\<lparr>nochange_pre := True\<rparr>)
     else if s = js_state_quote then ngx_minify_js_strip_quote (c\<lparr>nochange_pre := True\<rparr>)
     else CTX_PUSH_STATE minify_state_abort c)"

definition ngx_minify_js_strip_buffer ::
  "char list \<Rightarrow> ngx_minify_ctx \<Rightarrow> ngx_minify_ctx outcome" where
  "ngx_minify_js_strip_buffer src c0 =
     (let c = c0\<lparr>mem := src, rpos := 0, wpos := 0, count := to_int32 (int (length src))\<rparr> in
      if count c < 0 then CTX_SET_STATE minify_state_abort c
      else loop (\<lambda>c. 0 < count c) (\<lambda>c. next_of (seq [js_switch, record_pre_char] c)) c)"

definition ngx_minify_js_process ::
  "char list \<Rightarrow> ngx_minify_ctx \<Rightarrow> (char list \<times> ngx_minify_ctx) outcome" where
  "ngx_minify_js_process b c =
     bindO (ngx_minify_js_strip_buffer b (c\<lparr>dstlen := 0\<rparr>))
       (\<lambda>d. ret (take (nat (dstlen d)) (mem d), d))"

section \<open>Every pass is safe, ends, and deletes or blanks\<close>

text \<open>A line comment leaves a space for its newline: the output is compared up to this renaming.\<close>

definition nl_to_sp :: "char \<Rightarrow> char" where
  "nl_to_sp ch = (if ch = NL then SP else ch)"

lemma wp_js_comment:
  assumes "pass_inv T nl_to_sp inp c" "stk c = s # [minify_state_text]"
    "s \<in> {js_state_comment, js_state_comment_line}" "0 < count c"
  shows "wp {} (ngx_minify_js_strip_comment c)
    (\<lambda>d. (pass_inv T nl_to_sp inp d \<and> (stk d = s # [minify_state_text] \<or> stk d = [minify_state_text])) \<and>
      count d < count c \<and> (hd (stk d) \<notin> {js_state_comment, js_state_comment_line} \<or> count d = 0))"
  unfolding ngx_minify_js_strip_comment_def
proof (rule wp_machine [where \<mu> = "\<lambda>d. nat (count d)"])
  let ?S = "{js_state_comment, js_state_comment_line}"
  fix t x
  assume t: "pass_inv T nl_to_sp inp t \<and> (stk t = s # [minify_state_text] \<or> stk t = [minify_state_text])"
    "hd (stk t) = x" "x \<in> ?S" "0 < count t"
  then have "stk t = x # [minify_state_text]" "s = x" "buf_ok t" by (auto dest: pass_inv_buf_ok)
  with t show "wp {} (if x = js_state_comment then next_of (js_case_comment t)
      else if x = js_state_comment_line then next_of (js_case_comment_line t) else ret (Break t))
    (\<lambda>r. case r of
        Next d \<Rightarrow> (pass_inv T nl_to_sp inp d \<and> (stk d = s # [minify_state_text] \<or> stk d = [minify_state_text])) \<and>
          nat (count d) < nat (count t) \<and> count d \<le> count t \<and> (count d < count t \<or> hd (stk d) \<in> ?S)
      | Break d \<Rightarrow> False)"
    by (auto simp: js_case_comment_def js_case_comment_line_def op_simps nl_to_sp_def)
qed (use assms in \<open>auto dest: pass_inv_buf_ok\<close>)

lemma wp_js_quote:
  assumes "pass_inv T nm inp c" "stk c = js_state_quote # ss" "ss \<noteq> []" "hd ss \<noteq> js_state_quote"
    "0 < count c"
  shows "wp {} (ngx_minify_js_strip_quote c)
    (\<lambda>d. (pass_inv T nm inp d \<and> (stk d = js_state_quote # ss \<or> stk d = ss)) \<and>
      count d < count c \<and> (hd (stk d) \<notin> {js_state_quote} \<or> count d = 0))"
  unfolding ngx_minify_js_strip_quote_def
proof (rule wp_machine [where \<mu> = "\<lambda>d. nat (count d)"])
  fix t x
  assume t: "pass_inv T nm inp t \<and> (stk t = js_state_quote # ss \<or> stk t = ss)"
    "hd (stk t) = x" "x \<in> {js_state_quote}" "0 < count t"
  then have "stk t = js_state_quote # ss" "buf_ok t" using assms by (auto dest: pass_inv_buf_ok)
  with t show "wp {} (if x = js_state_quote then next_of (js_case_quote t) else ret (Break t))
    (\<lambda>r. case r of
        Next d \<Rightarrow> (pass_inv T nm inp d \<and> (stk d = js_state_quote # ss \<or> stk d = ss)) \<and>
          nat (count d) < nat (count t) \<and> count d \<le> count t \<and>
          (count d < count t \<or> hd (stk d) \<in> {js_state_quote})
      | Break d \<Rightarrow> False)"
    by (auto simp: js_case_quote_def op_simps)
qed (use assms in \<open>auto dest: pass_inv_buf_ok\<close>)

definition js_stacks :: "ngx_minify_state_e list set" where
  "js_stacks =
     {[minify_state_text], [minify_state_abort], [js_state_quote, minify_state_text],
      [js_state_comment, minify_state_text], [js_state_comment_line, minify_state_text]}"

lemma js_text_step:
  assumes "pass_inv T nm inp c" "stk c = [minify_state_text]" "0 < count c"
  shows "wp {} (js_case_text c)
    (\<lambda>d. pass_inv T nm inp d \<and> stk d \<in> js_stacks \<and> count d < count c)"
  using assms pass_inv_buf_ok [OF assms(1)]
  by (auto simp: js_case_text_def op_simps js_stacks_def)

lemma wp_js_switch:
  assumes "pass_inv T nl_to_sp inp c" "stk c \<in> js_stacks" "0 < count c"
  shows "wp {} (js_switch c)
    (\<lambda>d. pass_inv T nl_to_sp inp d \<and> stk d \<in> js_stacks \<and> count d < count c)"
proof -
  have ok: "buf_ok c" using assms(1) by (rule pass_inv_buf_ok)
  consider (ab) "stk c = [minify_state_abort]" | (tx) "stk c = [minify_state_text]"
    | (cm) s where "stk c = [s, minify_state_text]" "s \<in> {js_state_comment, js_state_comment_line}"
    | (qt) "stk c = [js_state_quote, minify_state_text]"
    using assms(2) by (auto simp: js_stacks_def)
  then show ?thesis
  proof cases
    case ab
    with assms ok show ?thesis by (auto simp: js_switch_def op_simps js_stacks_def)
  next
    case tx
    with js_text_step [of T nl_to_sp inp "c\<lparr>nochange_pre := False\<rparr>"] assms ok show ?thesis
      by (simp add: js_switch_def op_simps)
  next
    case cm
    have "wp {} (ngx_minify_js_strip_comment (c\<lparr>nochange_pre := True\<rparr>))
      (\<lambda>d. pass_inv T nl_to_sp inp d \<and> stk d \<in> js_stacks \<and> count d < count c)"
      by (rule wp_mono [OF wp_js_comment [of T inp _ s]])
         (use assms cm in \<open>auto simp: js_stacks_def\<close>)
    with cm ok show ?thesis by (auto simp: js_switch_def op_simps)
  next
    case qt
    have "wp {} (ngx_minify_js_strip_quote (c\<lparr>nochange_pre := True\<rparr>))
      (\<lambda>d. pass_inv T nl_to_sp inp d \<and> stk d \<in> js_stacks \<and> count d < count c)"
      by (rule wp_mono [OF wp_js_quote [of T nl_to_sp inp _ "[minify_state_text]"]])
         (use assms qt in \<open>auto simp: js_stacks_def\<close>)
    with qt ok show ?thesis by (simp add: js_switch_def op_simps)
  qed
qed

lemma js_strip_buffer_loaded:
  "length src < 2 ^ 31 \<Longrightarrow>
   ngx_minify_js_strip_buffer src (c\<lparr>dstlen := 0\<rparr>) =
     loop (\<lambda>c. 0 < count c) (\<lambda>c. next_of (seq [js_switch, record_pre_char] c)) (loaded src c)"
  by (simp add: ngx_minify_js_strip_buffer_def Let_def loaded_def to_int32_id)

lemma wp_js_process:
  assumes "idle_ok c" "cachelen c = 0" "stk c \<in> js_stacks" "length b < 2 ^ 31"
  shows "wp {} (ngx_minify_js_process b c)
    (\<lambda>(o', d). idle_ok d \<and> stk d \<in> js_stacks \<and> count d = 0 \<and> ctype d = ctype c \<and> o' = out d \<and>
      subseq (map nl_to_sp (o' @ held d)) (map nl_to_sp b))"
  unfolding ngx_minify_js_process_def js_strip_buffer_loaded [OF assms(4)]
  by (rule wp_buffer_loop [where \<mu> = "\<lambda>d. nat (count d)"])
     (use assms wp_js_switch [of "ctype c" b] in auto)

section \<open>The contract\<close>

text \<open>The contract holds for a context of any file type.\<close>

definition js_idle :: "ngx_minify_type_e \<Rightarrow> ngx_minify_ctx \<Rightarrow> bool" where
  "js_idle T c = (ctype c = T \<and> idle_ok c \<and> stk c \<in> js_stacks)"

lemma js_contract: "minify_processor ngx_minify_js_process (js_idle T) T nl_to_sp {}"
proof
  show "js_idle T c \<Longrightarrow> idle_ok c" for c by (simp add: js_idle_def)
  show "js_idle T c \<Longrightarrow> ctype c = T" for c by (simp add: js_idle_def)
  show "js_idle T (zero_ctx\<lparr>ctype := T\<rparr>)" by (simp add: js_idle_def idle_ok_zero_ctx js_stacks_def)
  show "wp {} (ngx_minify_js_process (held c @ b) (c\<lparr>cachelen := 0\<rparr>))
      (\<lambda>(o', d). js_idle T d \<and> subseq (map nl_to_sp (o' @ held d)) (map nl_to_sp (held c @ b)))"
    if "js_idle T c" "length (held c @ b) < 2 ^ 31" for c b
    by (rule wp_mono [OF wp_js_process [of "c\<lparr>cachelen := 0\<rparr>" "held c @ b"]])
       (use that in \<open>auto simp: js_idle_def idle_ok_clear_cache\<close>)
qed

abbreviation js_inv :: "ngx_minify_ctx \<Rightarrow> bool" where
  "js_inv \<equiv> js_idle MINIFY_FILE_TYPE_JS"

interpretation js: minify_processor ngx_minify_js_process js_inv MINIFY_FILE_TYPE_JS nl_to_sp "{}"
  by (rule js_contract)

end
