(* ===== verification/Minify_Filter.thy ===== *)
theory Minify_Filter
  imports Minify_HTML Minify_CSS Minify_JS
begin

text \<open>
  The filter module itself, \<open>src/modules/mod_minify/ngx_http_minify_filter_module.c\<close>: its
  configuration, the header filter that selects a minifier and sets up the context, the table
  of process functions, the body filter. The functions of nginx it calls
  (\<open>ngx_http_test_content_type\<close>, \<open>ngx_http_merge_types\<close>, the allocators, the macros that
  clear response headers, the next filters) are parameters.
\<close>

section \<open>The code\<close>

record ('h, 'k) ngx_minify_conf =
  html_enable :: int
  css_enable :: int
  js_enable :: int
  html_types :: 'h
  html_types_keys :: 'k
  css_types :: 'h
  css_types_keys :: 'k
  js_types :: 'h
  js_types_keys :: 'k

definition ngx_http_css_default_types :: "string list" where
  "ngx_http_css_default_types = [''text/css'']"

definition ngx_http_js_default_types :: "string list" where
  "ngx_http_js_default_types = [''application/javascript'', ''application/x-javascript'']"

text \<open>The context of the module hangs on the request.\<close>

record ngx_minify_request = ngx_http_request +
  minify_ctx :: "ngx_minify_ctx option"

definition ngx_http_minify_process :: "ngx_minify_type_e \<Rightarrow> minify_process_f option outcome" where
  "ngx_http_minify_process t =
     (case t of
        MINIFY_FILE_TYPE_NONE \<Rightarrow> ret None
      | MINIFY_FILE_TYPE_HTML \<Rightarrow> ret (Some ngx_minify_html_process)
      | MINIFY_FILE_TYPE_CSS \<Rightarrow> ret (Some ngx_minify_css_process)
      | MINIFY_FILE_TYPE_JS \<Rightarrow> ret (Some ngx_minify_js_process)
      | MINIFY_FILE_TYPE_MAX \<Rightarrow> fail OutOfBounds)"

text \<open>
  The header filter: the condition under which it leaves a response alone, the choice of the
  minifier (HTML before JavaScript before CSS), and the filter itself.
\<close>

definition minify_passes_by :: "('h, 'k) ngx_minify_conf \<Rightarrow> ngx_minify_request \<Rightarrow> bool" where
  "minify_passes_by conf r =
     (html_enable conf = 0 \<and> css_enable conf = 0 \<and> js_enable conf = 0 \<or>
      status r \<noteq> NGX_HTTP_OK \<and> status r \<noteq> NGX_HTTP_FORBIDDEN \<and> status r \<noteq> NGX_HTTP_NOT_FOUND \<or>
      header_only r \<or> length (content_type r) = 0 \<or>
      (case content_encoding r of Some v \<Rightarrow> length v \<noteq> 0 | None \<Rightarrow> False))"

definition minify_select_type ::
  "(ngx_minify_request \<Rightarrow> 'h \<Rightarrow> bool) \<Rightarrow> ('h, 'k) ngx_minify_conf \<Rightarrow> ngx_minify_request \<Rightarrow>
   ngx_minify_type_e option" where
  "minify_select_type test_content_type conf r =
     (if html_enable conf \<noteq> 0 \<and> test_content_type r (html_types conf) then Some MINIFY_FILE_TYPE_HTML
      else if js_enable conf \<noteq> 0 \<and> test_content_type r (js_types conf) then Some MINIFY_FILE_TYPE_JS
      else if css_enable conf \<noteq> 0 \<and> test_content_type r (css_types conf) then Some MINIFY_FILE_TYPE_CSS
      else None)"

definition ngx_http_minify_header_filter ::
  "(ngx_minify_request \<Rightarrow> 'h \<Rightarrow> bool) \<Rightarrow> bool \<Rightarrow> (ngx_minify_request \<Rightarrow> ngx_minify_request) \<Rightarrow>
   (ngx_minify_request \<Rightarrow> ngx_minify_request) \<Rightarrow> (ngx_minify_request \<Rightarrow> int) \<Rightarrow>
   ('h, 'k) ngx_minify_conf \<Rightarrow> ngx_minify_request \<Rightarrow> int \<times> ngx_minify_request" where
  "ngx_http_minify_header_filter test_content_type pcalloc clear_content_length clear_accept_ranges
     next_header_filter conf r =
     (if minify_passes_by conf r then (next_header_filter r, r)
      else
        (case minify_select_type test_content_type conf r of
           None \<Rightarrow> (next_header_filter r, r)
         | Some t \<Rightarrow>
             if \<not> pcalloc then (NGX_ERROR, r)
             else
               (let r1 = r\<lparr>minify_ctx := Some (zero_ctx\<lparr>ctype := t\<rparr>)\<rparr>;
                    r2 = clear_accept_ranges (clear_content_length r1);
                    r3 = r2\<lparr>filter_need_in_memory := True, main_filter_need_in_memory := True\<rparr>
                in (next_header_filter r3, r3))))"

text \<open>
  The body filter hands the chain to the next filter; the result pairs what the next filter
  returned with the request it was given.
\<close>

definition ngx_http_minify_body_filter ::
  "(nat \<Rightarrow> bool) \<Rightarrow> (ngx_minify_request \<Rightarrow> ngx_buf list \<Rightarrow> 'r) \<Rightarrow> ngx_minify_request \<Rightarrow> ngx_buf list \<Rightarrow>
   ('r \<times> ngx_minify_request) outcome" where
  "ngx_http_minify_body_filter palloc next_body_filter r chain =
     (if chain = [] \<or> header_only r then ret (next_body_filter r chain, r)
      else
        (case minify_ctx r of
           None \<Rightarrow> ret (next_body_filter r chain, r)
         | Some c \<Rightarrow>
             bindO (ngx_http_minify_process (ctype c)) (\<lambda>pf.
               case pf of
                 None \<Rightarrow> ret (next_body_filter r chain, r)
               | Some f \<Rightarrow>
                   bindO (minify_chain f palloc 0 chain c) (\<lambda>(chain', c').
                     (let r' = r\<lparr>minify_ctx := Some c'\<rparr>
                      in ret (next_body_filter r' chain', r'))))))"

text \<open>\<open>zeroed\<close> is what \<open>ngx_pcalloc\<close> gives; without memory the pointer is \<open>NGX_CONF_ERROR\<close>.\<close>

definition ngx_minify_create_conf ::
  "bool \<Rightarrow> ('h, 'k) ngx_minify_conf \<Rightarrow> ('h, 'k) ngx_minify_conf conf_ptr" where
  "ngx_minify_create_conf pcalloc zeroed =
     (if \<not> pcalloc then conf_invalid
      else conf_at (zeroed\<lparr>html_enable := NGX_CONF_UNSET, css_enable := NGX_CONF_UNSET,
                        js_enable := NGX_CONF_UNSET\<rparr>))"

text \<open>
  \<open>merge_types\<close> is \<open>ngx_http_merge_types\<close>: it gets the keys and the hash of the block and of
  the surrounding one and the defaults, may change all four, and may fail.
\<close>

definition ngx_minify_merge_conf ::
  "(int \<Rightarrow> int \<Rightarrow> int \<Rightarrow> int) \<Rightarrow>
   ('k \<times> 'h \<Rightarrow> 'k \<times> 'h \<Rightarrow> string list \<Rightarrow> bool \<times> ('k \<times> 'h) \<times> ('k \<times> 'h)) \<Rightarrow> string list \<Rightarrow>
   ('h, 'k) ngx_minify_conf \<Rightarrow> ('h, 'k) ngx_minify_conf \<Rightarrow>
   conf_rc \<times> ('h, 'k) ngx_minify_conf \<times> ('h, 'k) ngx_minify_conf" where
  "ngx_minify_merge_conf merge_value merge_types html_default_types prev conf0 =
     (let conf = conf0\<lparr>html_enable := merge_value (html_enable conf0) (html_enable prev) 0,
                       css_enable := merge_value (css_enable conf0) (css_enable prev) 0,
                       js_enable := merge_value (js_enable conf0) (js_enable prev) 0\<rparr>;
          (ok, (k, h), (pk, ph)) =
            merge_types (html_types_keys conf, html_types conf)
              (html_types_keys prev, html_types prev) html_default_types;
          conf = conf\<lparr>html_types_keys := k, html_types := h\<rparr>;
          prev = prev\<lparr>html_types_keys := pk, html_types := ph\<rparr>
      in if \<not> ok then (NGX_CONF_ERROR, prev, conf)
         else
           (let (ok, (k, h), (pk, ph)) =
                  merge_types (css_types_keys conf, css_types conf)
                    (css_types_keys prev, css_types prev) ngx_http_css_default_types;
                conf = conf\<lparr>css_types_keys := k, css_types := h\<rparr>;
                prev = prev\<lparr>css_types_keys := pk, css_types := ph\<rparr>
            in if \<not> ok then (NGX_CONF_ERROR, prev, conf)
               else
                 (let (ok, (k, h), (pk, ph)) =
                        merge_types (js_types_keys conf, js_types conf)
                          (js_types_keys prev, js_types prev) ngx_http_js_default_types;
                      conf = conf\<lparr>js_types_keys := k, js_types := h\<rparr>;
                      prev = prev\<lparr>js_types_keys := pk, js_types := ph\<rparr>
                  in if \<not> ok then (NGX_CONF_ERROR, prev, conf)
                     else (NGX_CONF_OK, prev, conf))))"

definition ngx_minify_filter_init ::
  "'hf \<Rightarrow> 'bf \<Rightarrow> ('hf, 'bf) ngx_filter_chains \<Rightarrow> int \<times> ('hf, 'bf) ngx_filter_chains" where
  "ngx_minify_filter_init header_filter body_filter g =
     (NGX_OK,
      (let g = g\<lparr>ngx_http_next_header_filter := ngx_http_top_header_filter g\<rparr>;
           g = g\<lparr>ngx_http_top_header_filter := header_filter\<rparr>;
           g = g\<lparr>ngx_http_next_body_filter := ngx_http_top_body_filter g\<rparr>
       in g\<lparr>ngx_http_top_body_filter := body_filter\<rparr>))"

section \<open>The contract of the table\<close>

text \<open>
  Every entry of the table meets the contract of a minifier: its own invariant, its own
  renaming of bytes (JavaScript blanks a newline), its own possible faults (HTML tag names).
\<close>

fun type_inv :: "ngx_minify_type_e \<Rightarrow> ngx_minify_ctx \<Rightarrow> bool" where
  "type_inv MINIFY_FILE_TYPE_HTML = html_inv"
| "type_inv MINIFY_FILE_TYPE_CSS = css_inv"
| "type_inv MINIFY_FILE_TYPE_JS = js_inv"
| "type_inv _ = (\<lambda>_. False)"

fun type_nm :: "ngx_minify_type_e \<Rightarrow> char \<Rightarrow> char" where
  "type_nm MINIFY_FILE_TYPE_JS = nl_to_sp"
| "type_nm _ = id"

fun type_faults :: "ngx_minify_type_e \<Rightarrow> fault set" where
  "type_faults MINIFY_FILE_TYPE_HTML = tag_faults"
| "type_faults _ = {}"

lemma type_inv_cases:
  assumes "type_inv t c"
  obtains (html) "t = MINIFY_FILE_TYPE_HTML" "html_inv c"
    | (css) "t = MINIFY_FILE_TYPE_CSS" "css_inv c"
    | (js) "t = MINIFY_FILE_TYPE_JS" "js_inv c"
  using assms by (cases t) auto

lemma type_inv_ctype: "type_inv t c \<Longrightarrow> ctype c = t"
  by (erule type_inv_cases) (auto dest: html.inv_type css.inv_type js.inv_type)

lemma type_inv_init:
  "t \<in> {MINIFY_FILE_TYPE_HTML, MINIFY_FILE_TYPE_CSS, MINIFY_FILE_TYPE_JS} \<Longrightarrow>
   type_inv t (zero_ctx\<lparr>ctype := t\<rparr>)"
  using html.inv_init css.inv_init js.inv_init by auto

lemma type_chain_ok:
  assumes "type_inv t c" "small_chain bs"
  obtains pf where "ngx_http_minify_process t = ret (Some pf)"
    and "wp (type_faults t) (minify_chain pf (\<lambda>_. True) 0 bs c)
      (\<lambda>(bs', d). type_inv t d \<and> map last_buf bs' = map last_buf bs \<and>
        subseq (map (type_nm t) (chain_bytes bs' @ held d)) (map (type_nm t) (held c @ chain_bytes bs)))"
    and "wp (type_faults t) (minify_chain pf palloc 0 bs c)
      (\<lambda>(bs', d). type_inv t d \<and> map last_buf bs' = map last_buf bs \<and>
        subseq (map (type_nm t) (chain_bytes bs')) (map (type_nm t) (held c @ chain_bytes bs)))"
  using assms(1)
proof (cases rule: type_inv_cases)
  case html
  show thesis
    by (rule that [of ngx_minify_html_process])
       (use html html.chain_ok [OF _ assms(2)] html.chain_safe [OF _ assms(2)]
        in \<open>simp_all add: ngx_http_minify_process_def\<close>)
next
  case css
  show thesis
    by (rule that [of ngx_minify_css_process])
       (use css css.chain_ok [OF _ assms(2)] css.chain_safe [OF _ assms(2)]
        in \<open>simp_all add: ngx_http_minify_process_def\<close>)
next
  case js
  show thesis
    by (rule that [of ngx_minify_js_process])
       (use js js.chain_ok [OF _ assms(2)] js.chain_safe [OF _ assms(2)]
        in \<open>simp_all add: ngx_http_minify_process_def\<close>)
qed

section \<open>A whole response\<close>

text \<open>
  The body filter runs once for each chain of a response. The next filter of this run keeps
  the chain it is given.
\<close>

fun minify_calls ::
  "ngx_minify_request \<Rightarrow> ngx_buf list list \<Rightarrow> (ngx_buf list list \<times> ngx_minify_request) outcome" where
  "minify_calls r [] = ret ([], r)"
| "minify_calls r (ch # chs) =
     bindO (ngx_http_minify_body_filter (\<lambda>_. True) (\<lambda>_ ch'. ch') r ch)
       (\<lambda>(ch', r'). bindO (minify_calls r' chs) (\<lambda>(chs', r''). ret (ch' # chs', r'')))"

lemma minify_body_call:
  assumes "minify_ctx r = Some c" "type_inv t c" "\<not> header_only r" "small_chain ch"
  shows "wp (type_faults t) (ngx_http_minify_body_filter (\<lambda>_. True) (\<lambda>_ ch'. ch') r ch)
    (\<lambda>(ch', r'). \<exists>d. r' = r\<lparr>minify_ctx := Some d\<rparr> \<and> type_inv t d \<and>
      map last_buf ch' = map last_buf ch \<and>
      subseq (map (type_nm t) (chain_bytes ch' @ held d)) (map (type_nm t) (held c @ chain_bytes ch)))"
proof (cases "ch = []")
  case True
  then have "r = r\<lparr>minify_ctx := Some c\<rparr>" using assms(1) by simp
  with True assms(2) show ?thesis by (auto simp: ngx_http_minify_body_filter_def)
next
  case False
  from type_chain_ok [OF assms(2,4)] obtain pf
    where pf: "ngx_http_minify_process t = ret (Some pf)"
    and run: "wp (type_faults t) (minify_chain pf (\<lambda>_. True) 0 ch c)
      (\<lambda>(bs', d). type_inv t d \<and> map last_buf bs' = map last_buf ch \<and>
        subseq (map (type_nm t) (chain_bytes bs' @ held d)) (map (type_nm t) (held c @ chain_bytes ch)))"
    by blast
  have "wp (type_faults t) (minify_chain pf (\<lambda>_. True) 0 ch c)
    (\<lambda>(bs', d). \<exists>e. r\<lparr>minify_ctx := Some d\<rparr> = r\<lparr>minify_ctx := Some e\<rparr> \<and> type_inv t e \<and>
      map last_buf bs' = map last_buf ch \<and>
      subseq (map (type_nm t) (chain_bytes bs' @ held e)) (map (type_nm t) (held c @ chain_bytes ch)))"
    by (rule wp_mono [OF run]) blast
  then show ?thesis
    using False assms pf type_inv_ctype [OF assms(2)]
    by (simp add: ngx_http_minify_body_filter_def Let_def case_prod_unfold)
qed

lemma minify_calls_ok:
  assumes "minify_ctx r = Some c" "type_inv t c" "\<not> header_only r" "list_all small_chain chs"
  shows "wp (type_faults t) (minify_calls r chs)
    (\<lambda>(chs', r'). \<exists>d. minify_ctx r' = Some d \<and> type_inv t d \<and>
      map (map last_buf) chs' = map (map last_buf) chs \<and>
      subseq (map (type_nm t) (chain_bytes (concat chs') @ held d))
        (map (type_nm t) (held c @ chain_bytes (concat chs))))"
  using assms
proof (induction chs arbitrary: r c)
  case Nil
  then show ?case by simp
next
  case (Cons ch chs)
  have "wp (type_faults t) (ngx_http_minify_body_filter (\<lambda>_. True) (\<lambda>_ ch'. ch') r ch)
    (\<lambda>(ch', r'). wp (type_faults t) (minify_calls r' chs)
      (\<lambda>(chs', r''). \<exists>d. minify_ctx r'' = Some d \<and> type_inv t d \<and>
        map (map last_buf) (ch' # chs') = map (map last_buf) (ch # chs) \<and>
        subseq (map (type_nm t) (chain_bytes (concat (ch' # chs')) @ held d))
          (map (type_nm t) (held c @ chain_bytes (concat (ch # chs))))))"
  proof (rule wp_mono [OF minify_body_call [OF Cons.prems(1-3)]], goal_cases)
    case (2 x)
    then obtain ch' d where x: "x = (ch', r\<lparr>minify_ctx := Some d\<rparr>)" and d: "type_inv t d"
      and lb: "map last_buf ch' = map last_buf ch"
      and sub: "subseq (map (type_nm t) (chain_bytes ch' @ held d))
        (map (type_nm t) (held c @ chain_bytes ch))" by auto
    have "wp (type_faults t) (minify_calls (r\<lparr>minify_ctx := Some d\<rparr>) chs)
      (\<lambda>(chs', r''). \<exists>e. minify_ctx r'' = Some e \<and> type_inv t e \<and>
        map (map last_buf) chs' = map (map last_buf) chs \<and>
        subseq (map (type_nm t) (chain_bytes (concat chs') @ held e))
          (map (type_nm t) (held d @ chain_bytes (concat chs))))"
      using Cons.prems d by (intro Cons.IH) simp_all
    then show ?case
      unfolding x prod.case
      by (rule wp_mono) (use subseq_glue [OF sub] lb in \<open>force simp: chain_bytes_def\<close>)
  qed (use Cons.prems in simp)
  then show ?case by (simp add: case_prod_unfold)
qed

text \<open>What the header filter leaves: no context, or the one of the type it selected.\<close>

definition keeps_minify :: "(ngx_minify_request \<Rightarrow> ngx_minify_request) \<Rightarrow> bool" where
  "keeps_minify f = (\<forall>r. minify_ctx (f r) = minify_ctx r \<and> header_only (f r) = header_only r)"

lemma header_filter_ctx:
  assumes "keeps_minify clear_cl" "keeps_minify clear_ar" "minify_ctx r = None"
    "ngx_http_minify_header_filter test_ct pcalloc clear_cl clear_ar next_hf conf r = (rc, r1)"
    "minify_ctx r1 = Some c"
  shows "c = zero_ctx\<lparr>ctype := ctype c\<rparr> \<and> type_inv (ctype c) c \<and> \<not> header_only r1 \<and>
    rc = next_hf r1 \<and> filter_need_in_memory r1 \<and> main_filter_need_in_memory r1"
proof -
  have c: "minify_ctx (clear_ar (clear_cl (r\<lparr>minify_ctx := Some x\<rparr>))) = Some x"
    "header_only (clear_ar (clear_cl (r\<lparr>minify_ctx := Some x\<rparr>))) = header_only r" for x
    using assms(1,2) by (simp_all add: keeps_minify_def)
  obtain t where t: "t \<in> {MINIFY_FILE_TYPE_HTML, MINIFY_FILE_TYPE_JS, MINIFY_FILE_TYPE_CSS}"
    and r1: "\<not> header_only r" "rc = next_hf r1"
      "r1 = (clear_ar (clear_cl (r\<lparr>minify_ctx := Some (zero_ctx\<lparr>ctype := t\<rparr>)\<rparr>)))
        \<lparr>filter_need_in_memory := True, main_filter_need_in_memory := True\<rparr>"
  proof -
    have "\<not> minify_passes_by conf r"
      using assms(3-5) by (auto simp: ngx_http_minify_header_filter_def)
    moreover obtain t where t: "minify_select_type test_ct conf r = Some t"
      using assms(3-5) calculation
      by (cases "minify_select_type test_ct conf r") (auto simp: ngx_http_minify_header_filter_def)
    moreover have "pcalloc" using assms(3-5) calculation
      by (cases pcalloc) (simp_all add: ngx_http_minify_header_filter_def)
    moreover have "t \<in> {MINIFY_FILE_TYPE_HTML, MINIFY_FILE_TYPE_JS, MINIFY_FILE_TYPE_CSS}"
      using t by (simp add: minify_select_type_def split: if_splits)
    moreover have "\<not> header_only r"
      using \<open>\<not> minify_passes_by conf r\<close> by (simp add: minify_passes_by_def)
    moreover define x where "x = (clear_ar (clear_cl (r\<lparr>minify_ctx := Some (zero_ctx\<lparr>ctype := t\<rparr>)\<rparr>)))
        \<lparr>filter_need_in_memory := True, main_filter_need_in_memory := True\<rparr>"
    ultimately have "ngx_http_minify_header_filter test_ct pcalloc clear_cl clear_ar next_hf conf r
        = (next_hf x, x)"
      by (simp add: ngx_http_minify_header_filter_def Let_def)
    then have "rc = next_hf x" "r1 = x" using assms(4) by simp_all
    then show thesis
      by (intro that [of t]) (use \<open>t \<in> _\<close> \<open>\<not> header_only r\<close> in \<open>simp_all add: x_def\<close>)
  qed
  have "c = zero_ctx\<lparr>ctype := t\<rparr>" using r1(3) c(1) assms(5) by simp
  moreover have "\<not> header_only r1" using r1 c(2) by simp
  ultimately show ?thesis using t r1 type_inv_init [of t] by auto
qed

text \<open>
  C1: a response that the header filter takes on is minified safely. Whatever minifier is
  selected, the body filter returns for every chain of buffers below 1 GB; CSS and JavaScript
  commit no fault, HTML at most an overflow of a tag-name cache; the flag that ends the response
  stays where it was; and what is sent, followed by what is still held back, is what was
  received with bytes deleted (for JavaScript, up to a newline that became a space).
\<close>

theorem minify_response:
  assumes "keeps_minify clear_cl" "keeps_minify clear_ar" "minify_ctx r = None"
    and "ngx_http_minify_header_filter test_ct pcalloc clear_cl clear_ar next_hf conf r = (rc, r1)"
    and "minify_ctx r1 = Some c" "list_all small_chain chs"
  shows "wp (type_faults (ctype c)) (minify_calls r1 chs)
    (\<lambda>(chs', r2). \<exists>d. minify_ctx r2 = Some d \<and>
      map (map last_buf) chs' = map (map last_buf) chs \<and>
      subseq (map (type_nm (ctype c)) (chain_bytes (concat chs') @ held d))
        (map (type_nm (ctype c)) (chain_bytes (concat chs))))"
proof -
  have c: "c = zero_ctx\<lparr>ctype := ctype c\<rparr>" "type_inv (ctype c) c" "\<not> header_only r1"
    using header_filter_ctx [OF assms(1-5)] by auto
  have "held (zero_ctx\<lparr>ctype := ctype c\<rparr>) = []" by (simp add: held_def zero_ctx_def)
  then have "held c = []" using c(1) by simp
  with minify_calls_ok [OF assms(5) c(2,3) assms(6)] show ?thesis
    by (auto intro: wp_mono)
qed

text \<open>A request for a style sheet and a configuration that minifies it.\<close>

definition minify_demo :: ngx_minify_request where
  "minify_demo =
     \<lparr>status = NGX_HTTP_OK, header_only = False, content_type = ''text/css'',
      content_encoding = None, filter_need_in_memory = False, main_filter_need_in_memory = False,
      minify_ctx = None\<rparr>"

definition minify_demo_conf :: "(string list, unit) ngx_minify_conf" where
  "minify_demo_conf =
     \<lparr>html_enable = 0, css_enable = 1, js_enable = 0, html_types = [], html_types_keys = (),
      css_types = ngx_http_css_default_types, css_types_keys = (),
      js_types = ngx_http_js_default_types, js_types_keys = ()\<rparr>"

definition listed_type :: "ngx_minify_request \<Rightarrow> string list \<Rightarrow> bool" where
  "listed_type r ts = (content_type r \<in> set ts)"

lemma minify_demo_header:
  "ngx_http_minify_header_filter listed_type True id id (\<lambda>_. NGX_OK) minify_demo_conf minify_demo =
   (NGX_OK, minify_demo\<lparr>minify_ctx := Some (zero_ctx\<lparr>ctype := MINIFY_FILE_TYPE_CSS\<rparr>),
     filter_need_in_memory := True, main_filter_need_in_memory := True\<rparr>)"
  by (simp add: ngx_http_minify_header_filter_def minify_passes_by_def minify_select_type_def
      minify_demo_def minify_demo_conf_def listed_type_def ngx_http_css_default_types_def
      ngx_http_js_default_types_def Let_def)

theorem minify_response_witness:
  "wp {} (minify_calls (minify_demo\<lparr>minify_ctx := Some (zero_ctx\<lparr>ctype := MINIFY_FILE_TYPE_CSS\<rparr>),
       filter_need_in_memory := True, main_filter_need_in_memory := True\<rparr>)
      [[\<lparr>bytes = ''a {  b }'', in_file = False, last_buf = True\<rparr>]])
    (\<lambda>(chs', r2). \<exists>d. minify_ctx r2 = Some d \<and> map (map last_buf) chs' = [[True]] \<and>
      subseq (chain_bytes (concat chs') @ held d) ''a {  b }'')"
  using minify_response [OF _ _ _ minify_demo_header,
      of "zero_ctx\<lparr>ctype := MINIFY_FILE_TYPE_CSS\<rparr>"
         "[[\<lparr>bytes = ''a {  b }'', in_file = False, last_buf = True\<rparr>]]"]
  by (simp add: keeps_minify_def minify_demo_def)

end
