(* ===== verification/Minify_Scan.thy ===== *)
theory Minify_Scan
  imports Minify_Contract
begin

text \<open>
  Scanners: what a minifier computes of a list of bytes, without cursors, state stack or nested
  loops. A scanner looks at the next byte and at the one behind it; it writes some bytes, changes
  its state and moves on by one or two bytes, or it holds the last byte of a buffer back. The
  locale \<open>scanner\<close> states when a cut of the input does not matter.
\<close>

section \<open>Running a scanner\<close>

datatype 's move = Hold 's | Move "char list" 's bool

type_synonym 's stepper = "'s \<Rightarrow> char option \<Rightarrow> char \<Rightarrow> char option \<Rightarrow> 's move"

definition look :: "char list \<Rightarrow> char option" where
  "look xs = (case xs of [] \<Rightarrow> None | y # _ \<Rightarrow> Some y)"

lemma look_simps [simp]: "look [] = None"  "look (y # ys) = Some y"  "(look xs = None) = (xs = [])"
  by (simp_all add: look_def split: list.splits)

lemma look_hd: "xs \<noteq> [] \<Longrightarrow> look xs = Some (hd xs)"
  by (cases xs) simp_all

definition emit :: "char list \<Rightarrow> char list \<times> 's \<times> char list \<Rightarrow> char list \<times> 's \<times> char list" where
  "emit xs r = (xs @ fst r, snd r)"

lemma emit_simps [simp]:
  "emit [] r = r"  "emit xs (emit ys r) = emit (xs @ ys) r"  "emit xs (o', s, h) = (xs @ o', s, h)"
  "snd (emit xs r) = snd r"  "fst (emit xs r) = xs @ fst r"
  by (simp_all add: emit_def)

text \<open>For evaluation: the result is computed before it is taken apart.\<close>

lemma emit_pair [code]: "emit xs (o1, s) = (xs @ o1, s)"
  by (simp add: emit_def)

definition hold :: "char list \<Rightarrow> char list \<times> 's \<times> char list \<Rightarrow> char list \<times> 's \<times> char list" where
  "hold h r = (case r of (o', s, h') \<Rightarrow> (o', s, h @ h'))"

lemma hold_simps [simp]: "hold [] r = r"  "hold h (o', s, h') = (o', s, h @ h')"
  by (simp_all add: hold_def split: prod.splits)

text \<open>The last byte written, after some more bytes were.\<close>

definition last_of :: "char option \<Rightarrow> char list \<Rightarrow> char option" where
  "last_of l o1 = (if o1 = [] then l else Some (last o1))"

lemma last_of_simps [simp]:
  "last_of l [] = l"  "last_of l (x # xs) = last_of (Some x) xs"
  "last_of (last_of l xs) ys = last_of l (xs @ ys)"
  by (simp_all add: last_of_def)

text \<open>
  The result: the bytes written, the state at the end, the byte held back. \<open>l\<close> is the last byte
  this call has written, if any; \<open>leave\<close> is what the end of the buffer does to the state.
\<close>

function scan :: "'s stepper \<Rightarrow> ('s \<Rightarrow> char option \<Rightarrow> 's) \<Rightarrow> 's \<Rightarrow> char option \<Rightarrow> char list \<Rightarrow>
    char list \<times> 's \<times> char list" where
  "scan step leave st l [] = ([], leave st l, [])"
| "scan step leave st l (x # xs) =
     (case step st l x (look xs) of
        Hold st' \<Rightarrow> ([], st', [x])
      | Move ys st' two \<Rightarrow>
          emit ys (scan step leave st' (last_of l ys) (if two then tl xs else xs)))"
  by pat_completeness auto
termination
  by (relation "measure (\<lambda>(step, leave, st, l, xs). length xs)") auto

declare scan.simps(2) [simp del]

section \<open>Cuts\<close>

text \<open>
  \<open>settled st l\<close>: the last byte written is the one the state knows of, so that a scan goes on
  from \<open>st\<close> as if nothing had been written. \<open>open_cut st\<close>: the buffer may end in \<open>st\<close> without
  changing what follows.
\<close>

locale scanner =
  fixes step :: "'s stepper"
    and leave :: "'s \<Rightarrow> char option \<Rightarrow> 's"
    and settled :: "'s \<Rightarrow> char option \<Rightarrow> bool"
    and open_cut :: "'s \<Rightarrow> bool"
  assumes settled_step: "settled st l \<Longrightarrow> step st l x y = step st None x y"
    and settled_next: "settled st l \<Longrightarrow> step st l x y = Move [] st' two \<Longrightarrow> settled st' l"
    and settled_leave: "settled st l \<Longrightarrow> leave st l = leave st None"
    and open_settled: "open_cut st \<Longrightarrow> settled st None"
    and open_leave: "open_cut (leave st l) \<Longrightarrow> leave st l = st"
    and open_hold: "step st l x None = Hold st' \<Longrightarrow> open_cut st' \<Longrightarrow> step st' l x y = step st l x y"
    and hold_last: "step st l x (Some z) \<noteq> Hold st'"
    and last_move: "step st l x None = Move ys st' two \<Longrightarrow> step st l x y = Move ys st' two \<and> \<not> two"
begin

lemma scan_settled:
  "settled st l \<Longrightarrow> settled st None \<Longrightarrow> scan step leave st l xs = scan step leave st None xs"
proof (induction "length xs" arbitrary: st l xs rule: less_induct)
  case less
  show ?case
  proof (cases xs)
    case Nil
    then show ?thesis using settled_leave [OF less.prems(1)] by simp
  next
    case (Cons x r)
    show ?thesis
    proof (cases "step st None x (look r)")
      case (Hold st')
      then show ?thesis using Cons settled_step [OF less.prems(1)] by (simp add: scan.simps(2))
    next
      case (Move ys st' two)
      let ?r = "if two then tl r else r"
      have len: "length ?r < length xs" using Cons by (simp add: less_Suc_eq_le)
      have sl: "step st l x (look r) = Move ys st' two" using Move settled_step [OF less.prems(1)] by simp
      have "scan step leave st' (last_of l ys) ?r = scan step leave st' (last_of None ys) ?r"
      proof (cases ys)
        case Nil
        then have "settled st' l" "settled st' None"
          using settled_next [OF less.prems(1)] settled_next [OF less.prems(2)] sl Move by simp_all
        from less.hyps [OF len this] show ?thesis using Nil by simp
      qed simp
      then show ?thesis using Cons Move sl by (simp only: scan.simps move.case)
    qed
  qed
qed

lemma scan_append:
  assumes "scan step leave st l b1 = (o1, st1, h1)" "open_cut st1"
  shows "scan step leave st l (b1 @ b2) = emit o1 (scan step leave st1 (last_of l o1) (h1 @ b2))"
  using assms
proof (induction "length b1" arbitrary: st l b1 o1 rule: less_induct)
  case less
  show ?case
  proof (cases b1)
    case Nil
    then show ?thesis using less.prems open_leave [of st l] by auto
  next
    case (Cons x r)
    show ?thesis
    proof (cases "step st l x (look r)")
      case (Hold st')
      then have "r = []" using hold_last by (cases r) auto
      then have o1: "o1 = []" "st1 = st'" "h1 = [x]" and st: "step st l x None = Hold st'"
        using less.prems(1) Cons Hold by (simp_all add: scan.simps(2))
      have "step st' l x (look b2) = step st l x (look b2)"
        using open_hold [OF st] less.prems(2) o1(2) by simp
      then show ?thesis using Cons \<open>r = []\<close> o1 by (simp add: scan.simps(2))
    next
      case (Move ys st' two)
      let ?r = "if two then tl r else r"
      have end_of: "step st l x y = Move ys st' two \<and> \<not> two" if "r = []" for y
        using last_move [of st l x ys st' two y] Move that by simp
      have sw: "step st l x (look (r @ b2)) = Move ys st' two"
        using end_of Move by (cases r) simp_all
      obtain o2 s2 h2 where run: "scan step leave st' (last_of l ys) ?r = (o2, s2, h2)"
        by (rule prod_cases3)
      have "scan step leave st l b1 = emit ys (scan step leave st' (last_of l ys) ?r)"
        using Cons Move by (simp add: scan.simps(2))
      then have "s2 = st1" "h2 = h1" "o1 = ys @ o2"
        using less.prems(1) unfolding run by simp_all
      then have o2: "scan step leave st' (last_of l ys) ?r = (o2, st1, h1)" "o1 = ys @ o2"
        using run by simp_all
      have "length ?r < length b1" using Cons by (simp add: less_Suc_eq_le)
      from less.hyps [OF this o2(1) less.prems(2)]
      have "scan step leave st' (last_of l ys) (?r @ b2) =
        emit o2 (scan step leave st1 (last_of (last_of l ys) o2) (h1 @ b2))" .
      moreover have "(if two then tl (r @ b2) else r @ b2) = ?r @ b2" using end_of by (cases r) auto
      ultimately show ?thesis
        using Cons sw o2(2) by (simp add: scan.simps(2))
    qed
  qed
qed

text \<open>
  A cut does not matter when the first part ends in a state where a buffer may end and the last
  byte it wrote is the one the state knows of.
\<close>

lemma scan_cut:
  assumes "scan step leave st None b1 = (o1, st1, h1)" "open_cut st1" "settled st1 (last_of None o1)"
  shows "scan step leave st None (b1 @ b2) = emit o1 (scan step leave st1 None (h1 @ b2))"
  using scan_append [OF assms(1,2)] scan_settled [OF assms(3) open_settled [OF assms(2)]] by simp

end

section \<open>Buffers one after the other\<close>

text \<open>A scanner over a list of buffers, each behind the bytes held back before it.\<close>

fun scan_run :: "'s stepper \<Rightarrow> ('s \<Rightarrow> char option \<Rightarrow> 's) \<Rightarrow> 's \<Rightarrow> char list \<Rightarrow> char list list \<Rightarrow>
    char list \<times> 's \<times> char list" where
  "scan_run step leave st h [] = ([], st, h)"
| "scan_run step leave st h (b # bs) =
     (case scan step leave st None (h @ b) of
        (o1, st1, h1) \<Rightarrow> emit o1 (scan_run step leave st1 h1 bs))"

text \<open>
  A process function that computes a scanner: from a context between two buffers it returns what
  the scanner makes of the bytes held back and the buffer.
\<close>

locale scanned =
  fixes process :: minify_process_f
    and idle :: "ngx_minify_ctx \<Rightarrow> bool"
    and abs :: "ngx_minify_ctx \<Rightarrow> 's"
    and step :: "'s stepper"
    and leave :: "'s \<Rightarrow> char option \<Rightarrow> 's"
  assumes idle_idle: "idle c \<Longrightarrow> idle_ok c"
    and process_scan: "idle c \<Longrightarrow> length (held c @ b) < 2 ^ 31 \<Longrightarrow>
      \<exists>o' d. process (held c @ b) (c\<lparr>cachelen := 0\<rparr>) = ret (o', d) \<and> idle d \<and>
        (o', abs d, held d) = scan step leave (abs c) None (held c @ b)"
begin

lemma process_result:
  assumes "idle c" "length (held c @ b) < 2 ^ 31"
    and "process (held c @ b) (c\<lparr>cachelen := 0\<rparr>) = ret (o', d)"
  shows "idle d \<and> scan step leave (abs c) None (held c @ b) = (o', abs d, held d)"
  using process_scan [OF assms(1,2)] assms(3) by auto

lemma process_returns:
  assumes "idle c" "length (held c @ b) < 2 ^ 31" "scan step leave (abs c) None (held c @ b) = (o', st, h)"
  shows "\<exists>d. process (held c @ b) (c\<lparr>cachelen := 0\<rparr>) = ret (o', d) \<and> idle d \<and> abs d = st \<and> held d = h"
  using process_scan [OF assms(1,2)] assms(3) by auto

lemma held_short: "idle c \<Longrightarrow> length (held c) \<le> CTX_CACHE_BUFLEN"
  by (auto dest!: idle_idle simp: idle_ok_def buf_ok_def held_def)

end

section \<open>The next bytes of a context\<close>

text \<open>The machines look at the next byte and the one behind it, as the scanners do.\<close>

lemma rest_cases:
  assumes "buf_ok c" "0 < count c"
  obtains (one) x where "rest c = [x]" "count c = 1" "held c = []"
    | (more) x xs where "rest c = x # xs" "xs \<noteq> []" "2 \<le> count c" "held c = []"
      "take (Suc (Suc 0)) (rest c) = [x, hd xs]" "xs ! 0 = hd xs"
proof -
  have n: "count c = int (length (rest c))" by (rule buf_ok_rest [OF assms(1)])
  have h: "held c = []" by (rule held_Nil [OF assms])
  from n assms(2) obtain x xs where r: "rest c = x # xs" by (cases "rest c") auto
  show thesis
  proof (cases xs)
    case Nil
    then show thesis using n h r one by simp
  next
    case (Cons y ys)
    then show thesis using n h r by (intro more [of x xs]) auto
  qed
qed

lemma inc_cached_one:
  "buf_ok c \<Longrightarrow> rest c = [x] \<Longrightarrow> ngx_minify_inc_rpos (cached_upto (Suc 0) c) = ret (held_back c)"
  using inc_cached_ok [of c] buf_ok_rest [of c] by simp

lemma deref_head: "buf_ok c \<Longrightarrow> rest c = x # xs \<Longrightarrow> deref 0 c f = f x"
  by (simp add: deref_rest)

lemma memcmp_two:
  assumes "buf_ok c" "rest c = x # xs" "xs \<noteq> []"
  shows "memcmp_rpos [a, b] c f = f (x = a \<and> hd xs = b)"
proof -
  have "2 \<le> count c" using assms buf_ok_rest [OF assms(1)] by (cases xs) auto
  then show ?thesis using assms by (cases xs) (auto simp: memcmp_ok)
qed

lemma pre_recorded_twice [simp]: "pre_recorded (pre_recorded c) = pre_recorded c"
  by (simp add: pre_recorded_def)

section \<open>Comments and quoted text\<close>

text \<open>A text that closes no comment: \<open>*/\<close> does not occur in it, nor with a \<open>*\<close> behind it.\<close>

fun no_close :: "char list \<Rightarrow> bool" where
  "no_close [] = True"
| "no_close (x # xs) = ((x = CHR ''*'' \<longrightarrow> look xs \<noteq> Some CHR ''/'') \<and> no_close xs)"

lemma look_append: "look (xs @ ys) = (if xs = [] then look ys else look xs)"
  by (cases xs) simp_all

text \<open>A text between quotes \<open>q\<close>: no backslash ends it, every other \<open>q\<close> is behind a backslash.\<close>

fun quoted :: "char \<Rightarrow> char list \<Rightarrow> bool" where
  "quoted q [] = True"
| "quoted q (x # xs) =
     (if x = BSL then (case xs of [] \<Rightarrow> False | y # ys \<Rightarrow> quoted q ys) else x \<noteq> q \<and> quoted q xs)"

end
