(* ===== verification/Minify_HTML_Scan.thy ===== *)
theory Minify_HTML_Scan
  imports Minify_HTML Minify_Scan
begin

text \<open>
  What the HTML minifier computes: a scanner over a list of bytes that looks ahead as far as the
  marks it searches for are long, and that the four machines of \<open>Minify_HTML\<close> are a refinement of
  it, overflows of the tag-name caches included.
\<close>

section \<open>The scanner\<close>

text \<open>
  Most states carry the cached name \<open>t\<close> of an element whose content is skipped. The states of text,
  declarations and comments carry the byte \<open>p\<close> that decides about a space; a comment does not
  change it. \<open>HEnd\<close> also carries the part of the name of the end tag read so far.
\<close>

datatype html_st =
    HText char string
  | HSkip string
  | HTag string
  | HBang char string
  | HCdata string
  | HName string
  | HAtt string
  | HEnd string string
  | HComment char string
  | HIe char string
  | HDrop char string
  | HAbort

text \<open>Hold everything back; read \<open>n + 1\<close> bytes, write some, go on; or write behind a cache.\<close>

datatype html_move = HHold html_st | HMove nat string html_st | HFault fault

definition skip_name :: "string \<Rightarrow> bool" where
  "skip_name t = (map tolower_c t \<in> set html_skip_tag)"

definition ie_step :: "char \<Rightarrow> string \<Rightarrow> char list \<Rightarrow> html_move" where
  "ie_step p t xs =
     (if hd xs = CHR '']'' then
        (if 4 \<le> length xs then HMove 3 (take 4 xs) (if take 4 xs = '']-->'' then HText p t else HIe p t)
         else if ci_prefix xs '']-->'' then HHold (HIe p t)
         else HMove 0 [] (HIe p t))
      else HMove 0 [hd xs] (HIe p t))"

definition comment_step :: "char \<Rightarrow> string \<Rightarrow> char list \<Rightarrow> html_move" where
  "comment_step p t xs =
     (if length xs = 4 then HHold (HComment p t)
      else if xs ! 4 = CHR ''['' then
        (if 7 \<le> length xs then
           (if take 7 xs = ''<!--[if'' then ie_step p t xs else HMove 3 [] (HDrop p t))
         else if ci_prefix xs ''<!--[if'' then HHold (HComment p t)
         else HMove 3 [] (HDrop p t))
      else HMove 3 [] (HDrop p t))"

definition bang_step :: "char \<Rightarrow> string \<Rightarrow> char list \<Rightarrow> html_move" where
  "bang_step p t xs =
     (if xs ! 2 \<noteq> CHR ''-'' \<and> xs ! 2 \<noteq> CHR ''['' then HMove 1 (take 2 xs) (HTag t)
      else if xs ! 2 = CHR ''-'' then
        (if 4 \<le> length xs then
           (if take 4 xs = ''<!--'' then comment_step p t xs else HMove 2 (take 3 xs) (HTag t))
         else HHold (HBang p t))
      else
        (if 9 \<le> length xs then
           HMove 8 (take 9 xs) (if take 9 xs = ''<![CDATA['' then HCdata t else HText (xs ! 8) t)
         else if ci_prefix xs ''<![CDATA['' then HHold (HBang p t)
         else HMove 0 ''<'' HAbort))"

definition name_step :: "string \<Rightarrow> char \<Rightarrow> html_move" where
  "name_step t x =
     (if 64 \<le> length t then HFault TagCacheBounds
      else if x = CHR ''>'' then HMove 0 [x] (if skip_name t then HSkip t else HText x [])
      else if x = SP \<or> x = CHR ''/'' then HMove 0 [x] (HAtt (if skip_name t then t else []))
      else HMove 0 [x] (HName (t @ [x])))"

fun html_step :: "html_st \<Rightarrow> char option \<Rightarrow> char \<Rightarrow> char list \<Rightarrow> html_move" where
  "html_step (HText p t) l x xs =
     (if x = NL \<or> x = CR \<or> x = TAB then HMove 0 [] (HText (recorded l p) t)
      else if x = CHR ''<'' then
        (case xs of
           [] \<Rightarrow> HHold (HText (recorded l p) t)
         | y # ys \<Rightarrow>
             if y \<noteq> CHR ''!'' then HMove 0 [x] (HTag t)
             else if ys = [] then HHold (HText (recorded l p) t)
             else bang_step (recorded l p) t (x # xs))
      else if x = SP \<and> p = SP then HMove 0 [] (HText (recorded l p) t)
      else HMove 0 [x] (HText x t))"
| "html_step (HSkip t) l x xs =
     (if x = CHR ''<'' then
        (case xs of
           [] \<Rightarrow> HHold (HSkip t)
         | y # ys \<Rightarrow> if y = CHR ''/'' then HMove 0 [x] (HTag t) else HMove 1 [x, y] (HSkip t))
      else HMove 0 [x] (HSkip t))"
| "html_step (HTag t) l x xs =
     (if x = SP then HMove 0 [] (HTag t)
      else if x = CHR ''/'' then HMove 0 [x] (HEnd t [])
      else name_step [] x)"
| "html_step (HBang p t) l x xs = bang_step p t (x # xs)"
| "html_step (HCdata t) l x xs =
     (if x = CHR '']'' then
        (if 2 \<le> length xs then
           HMove 2 (x # take 2 xs) (if take 2 xs = '']>'' then HText CHR ''>'' t else HCdata t)
         else if ci_prefix (x # xs) '']]>'' then HHold (HCdata t)
         else HMove 0 [x] (HCdata t))
      else HMove 0 [x] (HCdata t))"
| "html_step (HName t) l x xs = name_step t x"
| "html_step (HAtt t) l x xs =
     (if x = SP \<and> l = Some SP then HMove 0 [] (HAtt t)
      else if x = CHR ''>'' then HMove 0 [x] (if t \<noteq> [] then HSkip t else HText x t)
      else if x = CHR ''/'' then
        (case xs of
           [] \<Rightarrow> HHold (HAtt t)
         | y # ys \<Rightarrow> if y = CHR ''>'' then HMove 0 [x] (HAtt []) else HMove 1 [x, y] (HAtt t))
      else HMove 0 [x] (HAtt t))"
| "html_step (HEnd t e) l x xs =
     (if x = SP then HMove 0 [] (HEnd t e)
      else if x = CHR ''>'' then
        (if e = [] then HMove 0 [x] (HText x t)
         else if 64 \<le> length e then HFault TagEndCacheBounds
         else HMove 0 [x] (if prefix t e then HText x [] else HSkip t))
      else if t \<noteq> [] \<and> 64 \<le> length e then HFault TagEndCacheBounds
      else HMove 0 [x] (HEnd t (if t \<noteq> [] then e @ [x] else e)))"
| "html_step (HComment p t) l x xs = comment_step p t (x # xs)"
| "html_step (HIe p t) l x xs = ie_step p t (x # xs)"
| "html_step (HDrop p t) l x xs =
     (if x = CHR ''-'' then
        (if 2 \<le> length xs then HMove 2 [] (if take 2 xs = ''->'' then HText p t else HDrop p t)
         else if ci_prefix (x # xs) ''-->'' then HHold (HDrop p t)
         else HMove 0 [] (HDrop p t))
      else HMove 0 [] (HDrop p t))"
| "html_step HAbort l x xs = HMove 0 [x] HAbort"

type_synonym html_out = "(string \<times> html_st \<times> string) outcome"

definition emitO :: "string \<Rightarrow> html_out \<Rightarrow> html_out" where
  "emitO ys r = bindO r (\<lambda>r. ret (emit ys r))"

lemma emitO_simps [simp]:
  "emitO [] r = r"  "emitO xs (emitO ys r) = emitO (xs @ ys) r"  "emitO xs (fail f) = fail f"
  "emitO xs (ret (o', s, h)) = ret (xs @ o', s, h)"
  by (cases r; auto simp: emitO_def bindO_def split: sum.splits)+

lemma emitO_code [code]: "emitO ys (ret r) = ret (emit ys r)"  "emitO ys (fail f) = fail f"  "emitO ys None = None"
  by (simp_all add: emitO_def)

function html_scan :: "html_st \<Rightarrow> char option \<Rightarrow> char list \<Rightarrow> html_out" where
  "html_scan st l [] = ret ([], st, [])"
| "html_scan st l (x # xs) =
     (case html_step st l x xs of
        HFault f \<Rightarrow> fail f
      | HHold st' \<Rightarrow> ret ([], st', x # xs)
      | HMove n ys st' \<Rightarrow> emitO ys (html_scan st' (last_of l ys) (drop n xs)))"
  by pat_completeness auto
termination
  by (relation "measure (\<lambda>(st, l, xs). length xs)") auto

declare html_scan.simps(2) [simp del]

section \<open>The names in the caches\<close>

definition tname :: "ngx_minify_ctx \<Rightarrow> string" where
  "tname c = take (nat (tagcachelen c)) (tagcache c)"

definition ename :: "ngx_minify_ctx \<Rightarrow> string" where
  "ename c = take (nat (tagendcachelen c)) (tagendcache c)"

lemma name_lengths:
  assumes "buf_ok c"
  shows "tagcachelen c = int (length (tname c))"  "tagendcachelen c = int (length (ename c))"
  using assms by (auto simp: buf_ok_def tname_def ename_def)

lemma copied_caches [simp]:
  "tagcache (copied n c) = tagcache c"  "tagcache (skipped n c) = tagcache c"
  "tagendcache (copied n c) = tagendcache c"  "tagendcache (skipped n c) = tagendcache c"
  "pre_char (copied n c) = pre_char c"  "pre_char (skipped n c) = pre_char c"
  by (induction n) (simp_all add: copied_def skipped_def)

lemma name_views [simp]:
  "tname (stepped c) = tname c"  "ename (stepped c) = ename c"
  "tname (written ch c) = tname c"  "ename (written ch c) = ename c"
  "tname (pushed s c) = tname c"  "ename (pushed s c) = ename c"
  "tname (popped c) = tname c"  "ename (popped c) = ename c"
  "tname (set_to s c) = tname c"  "ename (set_to s c) = ename c"
  "tname (held_back c) = tname c"  "ename (held_back c) = ename c"
  "tname (copied n c) = tname c"  "ename (copied n c) = ename c"
  "tname (skipped n c) = tname c"  "ename (skipped n c) = ename c"
  "tname (cache_missed lit c) = tname c"  "ename (cache_missed lit c) = ename c"
  "tname (pre_recorded c) = tname c"  "ename (pre_recorded c) = ename c"
  "tname (c\<lparr>nochange_pre := b\<rparr>) = tname c"  "ename (c\<lparr>nochange_pre := b\<rparr>) = ename c"
  "tname (c\<lparr>pre_char := q\<rparr>) = tname c"  "ename (c\<lparr>pre_char := q\<rparr>) = ename c"
  "tname (c\<lparr>pre_char2 := q\<rparr>) = tname c"  "ename (c\<lparr>pre_char2 := q\<rparr>) = ename c"
  "tname (c\<lparr>tagendcachelen := n'\<rparr>) = tname c"  "ename (c\<lparr>tagcachelen := n'\<rparr>) = ename c"
  "tname (c\<lparr>tagcachelen := 0\<rparr>) = []"  "ename (c\<lparr>tagendcachelen := 0\<rparr>) = []"
  "tname (tag_closed c) = tname c"  "ename (tag_closed c) = ename c"
  "tname (tagend_closed c) = tname c"  "ename (tagend_closed c) = ename c"
  "ename (tag_added a c) = ename c"  "tname (tagend_added a c) = tname c"
  by (simp_all add: tname_def ename_def pushed_def popped_def set_to_def held_back_def cached_upto_def
      cache_missed_def pre_recorded_def tag_closed_def tagend_closed_def tag_added_def tagend_added_def)

lemma more_views [simp]:
  "tagendcachelen (tag_closed c) = tagendcachelen c"  "tagcachelen (tagend_closed c) = tagcachelen c"
  "tagendcachelen (tag_added a c) = tagendcachelen c"  "tagcachelen (tagend_added a c) = tagcachelen c"
  "nochange_pre (tag_closed c) = nochange_pre c"  "nochange_pre (tagend_closed c) = nochange_pre c"
  "pre_char (tag_closed c) = pre_char c"  "pre_char (tagend_closed c) = pre_char c"
  "pre_char (tag_added a c) = pre_char c"  "pre_char (tagend_added a c) = pre_char c"
  "pre_char (cache_missed lit c) = pre_char c"
  "last_out (tag_closed c) = last_out c"  "last_out (tagend_closed c) = last_out c"
  "last_out (tag_added a c) = last_out c"  "last_out (tagend_added a c) = last_out c"
  "last_out (c\<lparr>tagcachelen := n\<rparr>) = last_out c"  "last_out (c\<lparr>tagendcachelen := n\<rparr>) = last_out c"
  "last_out (cache_missed lit c) = last_out c"
  by (simp_all add: tag_closed_def tagend_closed_def tag_added_def tagend_added_def cache_missed_def
      last_out_def out_def)

lemma names_added:
  "buf_ok c \<Longrightarrow> tagcachelen c < 64 \<Longrightarrow> tname (tag_added a c) = tname c @ [a]"
  "buf_ok c \<Longrightarrow> tagendcachelen c < 64 \<Longrightarrow> ename (tagend_added a c) = ename c @ [a]"
  by (auto simp: tname_def ename_def tag_added_def tagend_added_def buf_ok_def take_update_snoc
      nat_add_distrib)

lemma skip_tagname_ok:
  assumes "buf_ok c"
  shows "0 \<le> ngx_minify_get_skip_tagname c \<longleftrightarrow> skip_name (tname c)"
    "ngx_minify_get_skip_tagname c < 0 \<longleftrightarrow> \<not> skip_name (tname c)"
proof -
  have eq: "(tagcachelen c = int (length t) \<and> map tolower_c (take (length t) (tagcache c)) = map tolower_c t)
      = (map tolower_c (tname c) = map tolower_c t)" for t
  proof (cases "tagcachelen c = int (length t)")
    case True
    then show ?thesis by (simp add: tname_def)
  next
    case False
    then have "length (tname c) \<noteq> length t" using name_lengths(1) [OF assms] by simp
    then show ?thesis using False by (auto dest: map_eq_imp_length_eq)
  qed
  have from_ok: "0 \<le> skip_tagname_from ts i c \<longleftrightarrow> map tolower_c (tname c) \<in> map tolower_c ` set ts"
    if "0 \<le> i" for ts i
    using that
  proof (induction ts arbitrary: i)
    case (Cons t ts)
    then show ?case unfolding skip_tagname_from.simps eq by auto
  qed simp
  have "map (map tolower_c) html_skip_tag = html_skip_tag" by code_simp
  then have "map tolower_c ` set html_skip_tag = set html_skip_tag" by (metis set_map)
  then show ok: "0 \<le> ngx_minify_get_skip_tagname c \<longleftrightarrow> skip_name (tname c)"
    using from_ok [of 0 html_skip_tag] by (simp add: ngx_minify_get_skip_tagname_def skip_name_def)
  show "ngx_minify_get_skip_tagname c < 0 \<longleftrightarrow> \<not> skip_name (tname c)"
    using ok by linarith
qed

lemma skip_name_no_NUL:
  assumes "skip_name t" shows "NUL \<notin> set t"
proof
  assume "NUL \<in> set t"
  then have "tolower_c NUL \<in> set (map tolower_c t)" by simp
  moreover have "tolower_c NUL = NUL" by code_simp
  ultimately show False using assms by (auto simp: skip_name_def html_skip_tag_def)
qed

text \<open>The comparison over the length of the cached name, behind the closing zero byte.\<close>

lemma compare_names:
  assumes "buf_ok c" "NUL \<notin> set (tname c)" "tagendcachelen c < 64"
  shows "(take (nat (tagcachelen c)) (tagcache c) = take (nat (tagcachelen c)) (tagendcache (tagend_closed c)))
    = prefix (tname c) (ename c)"
proof -
  let ?t = "tname c" and ?n = "length (ename c)" and ?b = "tagendcache c"
  have n: "nat (tagendcachelen c) = ?n" using name_lengths(2) [OF assms(1)] by linarith
  then have b: "length ?b = 64" "?n < 64" "take ?n ?b = ename c"
    using assms by (simp_all add: buf_ok_def ename_def)
  have t: "take (nat (tagcachelen c)) (tagcache c) = ?t" by (simp add: tname_def)
  have t2: "nat (tagcachelen c) = length ?t" using name_lengths(1) [OF assms(1)] by linarith
  have "?b[?n := NUL] = take ?n ?b @ NUL # drop (Suc ?n) ?b"
    by (rule upd_conv_take_nth_drop) (use b(1,2) in linarith)
  moreover have "tagendcache (tagend_closed c) = ?b[nat (tagendcachelen c) := NUL]"
    by (simp add: tagend_closed_def)
  ultimately have cl: "tagendcache (tagend_closed c) = ename c @ NUL # drop (Suc ?n) ?b"
    unfolding n b(3) by simp
  have "(?t = take (length ?t) (ename c @ NUL # r)) = prefix ?t (ename c)" for r
  proof (cases "length ?t \<le> ?n")
    case True
    then have "take (length ?t) (ename c @ NUL # r) = take (length ?t) (ename c)" by simp
    moreover have "?t = take (length ?t) (ename c) \<longleftrightarrow> prefix ?t (ename c)"
      by (metis append_eq_conv_conj prefix_def take_is_prefix)
    ultimately show ?thesis by simp
  next
    case False
    then obtain k where "length ?t - ?n = Suc k" by (metis Suc_diff_Suc not_le)
    then have "NUL \<in> set (take (length ?t) (ename c @ NUL # r))" by simp
    with assms(2) have "?t \<noteq> take (length ?t) (ename c @ NUL # r)" by metis
    with False show ?thesis by (auto dest: prefix_length_le)
  qed
  then show ?thesis unfolding t cl unfolding t2 .
qed

section \<open>The machine implements the scanner\<close>

definition html_abs :: "ngx_minify_ctx \<Rightarrow> html_st" where
  "html_abs c =
     (case hd (stk c) of
        minify_state_text \<Rightarrow> HText (pre_char c) (tname c)
      | html_state_skip \<Rightarrow> HSkip (tname c)
      | html_state_tag \<Rightarrow> HTag (tname c)
      | html_state_tag_bang \<Rightarrow> HBang (pre_char c) (tname c)
      | html_state_cdata \<Rightarrow> HCdata (tname c)
      | html_state_tagname \<Rightarrow> HName (tname c)
      | html_state_tagatt \<Rightarrow> HAtt (tname c)
      | html_state_tagname_end \<Rightarrow> HEnd (tname c) (ename c)
      | html_state_comment \<Rightarrow> HComment (pre_char c) (tname c)
      | html_state_comment_ie \<Rightarrow> HIe (pre_char c) (tname c)
      | html_state_comment_skip \<Rightarrow> HDrop (pre_char c) (tname c)
      | _ \<Rightarrow> HAbort)"

definition holdO :: "string \<Rightarrow> html_out \<Rightarrow> html_out" where
  "holdO h r = bindO r (\<lambda>r. ret (hold h r))"

lemma holdO_simps [simp]: "holdO [] r = r"  "holdO h (ret (o', s, h')) = ret (o', s, h @ h')"
  by (cases r; auto simp: holdO_def bindO_def split: sum.splits)+

definition html_result :: "ngx_minify_ctx \<Rightarrow> html_out" where
  "html_result c = emitO (out c) (holdO (held c) (html_scan (html_abs c) (last_out c) (rest c)))"

abbreviation html_comment_states :: "ngx_minify_state_e set" where
  "html_comment_states \<equiv> {html_state_comment, html_state_comment_ie, html_state_comment_skip}"

abbreviation html_name_states :: "ngx_minify_state_e set" where
  "html_name_states \<equiv> {html_state_tagname, html_state_tagatt, html_state_tagname_end}"

definition html_fit :: "ngx_minify_ctx \<Rightarrow> bool" where
  "html_fit c =
     ((hd (stk c) \<noteq> html_state_tagname \<longrightarrow> NUL \<notin> set (tname c)) \<and>
      (hd (stk c) \<noteq> html_state_tagname_end \<longrightarrow> tagendcachelen c = 0) \<and>
      (hd (stk c) \<in> html_comment_states \<longrightarrow> nochange_pre c) \<and>
      (hd (stk c) \<in> html_name_states \<union> {html_state_tag, html_state_tag_bang, html_state_cdata} \<longrightarrow>
        \<not> nochange_pre c) \<and>
      (hd (stk c) = html_state_tag_bang \<longrightarrow> take 2 (pend c) = ''<!'' \<and> 3 \<le> length (pend c)) \<and>
      (hd (stk c) = html_state_comment \<longrightarrow> take 4 (pend c) = ''<!--''))"

definition html_to :: "html_out \<Rightarrow> ngx_minify_ctx \<Rightarrow> ngx_minify_ctx \<Rightarrow> bool" where
  "html_to K c d =
     (buf_ok d \<and> stk d \<in> html_stacks \<and> html_fit d \<and> html_result (pre_recorded d) = K \<and>
      html_measure d < html_measure c \<and>
      (count d \<noteq> 0 \<longrightarrow>
        (hd (stk d) = html_state_tagatt \<longrightarrow> hd (stk c) \<in> html_name_states) \<and>
        (hd (stk d) = html_state_tag_bang \<longrightarrow> hd (stk c) = minify_state_text)))"

lemmas html_to_simps =
  html_to_def html_fit_def html_result_def html_abs_def html_stacks_def html_measure_def

text \<open>What a state that reads its next byte \<open>x\<close> makes of the rest.\<close>

definition html_go :: "html_move \<Rightarrow> ngx_minify_ctx \<Rightarrow> char \<Rightarrow> char list \<Rightarrow> html_out" where
  "html_go mv c x xs =
     emitO (out c) (case mv of
        HFault f \<Rightarrow> fail f
      | HHold st' \<Rightarrow> ret ([], st', x # xs)
      | HMove n ys st' \<Rightarrow> emitO ys (html_scan st' (last_of (last_out c) ys) (drop n xs)))"

lemma html_go_simps [simp]:
  "html_go (HFault f) c x xs = fail f"
  "html_go (HHold st) c x xs = ret (out c, st, x # xs)"
  "html_go (HMove n ys st) c x xs = emitO (out c @ ys) (html_scan st (last_of (last_out c) ys) (drop n xs))"
  by (simp_all add: html_go_def)

lemma html_result_step:
  assumes "buf_ok c" "0 < count c" "rest c = x # xs"
  shows "html_result c = html_go (html_step (html_abs c) (last_out c) x xs) c x xs"
  using assms held_Nil [OF assms(1,2)] by (simp add: html_result_def html_go_def html_scan.simps(2))

text \<open>One step of the machine of tag names: it neither writes \<open>pre_char\<close> nor takes back what it wrote.\<close>

definition html_name_to :: "html_out \<Rightarrow> ngx_minify_ctx \<Rightarrow> ngx_minify_ctx \<Rightarrow> bool" where
  "html_name_to K c d =
     (html_to K c d \<and> pre_char d = pre_char c \<and> (last_out d = None \<longrightarrow> last_out c = None) \<and>
      count d < count c)"

lemma html_name_result:
  assumes "buf_ok c" "0 < count c" "stk c = [html_state_tagname, html_state_tag, minify_state_text]"
    "html_fit c"
  shows "wp {f. html_result c = fail f} (html_case_tagname c) (html_name_to (html_result c) c)"
proof -
  have h: "held c = []" by (rule held_Nil [OF assms(1,2)])
  obtain x xs where r: "rest c = x # xs" using rest_cases [OF assms(1,2)] by metis
  have "html_abs c = HName (tname c)" using assms(3) by (simp add: html_abs_def)
  with html_result_step [OF assms(1,2) r] have K: "html_result c = html_go (name_step (tname c) x) c x xs" by simp
  note unf = html_case_tagname_def deref_head [OF assms(1) r] K
  note ok = assms h r name_lengths(1) [OF assms(1)]
  consider "64 \<le> length (tname c)" | "length (tname c) < 64" "x = CHR ''>''"
    | "length (tname c) < 64" "x = SP \<or> x = CHR ''/''"
    | "length (tname c) < 64" "x \<notin> {SP, CHR ''/'', CHR ''>''}" by fastforce
  then show ?thesis
  proof cases
    case 1
    with ok show ?thesis unfolding unf by (simp add: name_step_def op_simps)
  next
    case 2
    with ok show ?thesis unfolding unf
      by (auto simp: name_step_def op_simps view_simps html_to_simps html_name_to_def skip_tagname_ok skip_name_no_NUL)
  next
    case 3
    with ok show ?thesis unfolding unf
      by (auto simp: name_step_def op_simps view_simps html_to_simps html_name_to_def skip_tagname_ok skip_name_no_NUL)
  next
    case 4
    with ok show ?thesis unfolding unf
      by (auto simp: name_step_def op_simps view_simps html_to_simps html_name_to_def names_added)
  qed
qed

lemma html_att_result:
  assumes "buf_ok c" "0 < count c" "stk c = [html_state_tagatt, html_state_tag, minify_state_text]"
    "html_fit c" "pre_char c = recorded (last_out c) NUL"
  shows "wp {f. html_result c = fail f} (html_case_tagatt c) (html_name_to (html_result c) c)"
proof -
  have h: "held c = []" by (rule held_Nil [OF assms(1,2)])
  have sp: "(pre_char c = SP) = (last_out c = Some SP)" using assms(5) by (cases "last_out c") auto
  have t0: "(tagcachelen c = 0) = (tname c = [])" using name_lengths(1) [OF assms(1)] by simp
  have abs: "html_abs c = HAtt (tname c)" using assms(3) by (simp add: html_abs_def)
  from assms(1,2) show ?thesis
  proof (cases rule: rest_cases)
    case (one x)
    note K = html_result_step [OF assms(1,2) one(1), unfolded abs]
    show ?thesis
      unfolding html_case_tagatt_def deref_head [OF assms(1) one(1)] sp K
      using assms(1-4) one t0
      by (auto simp: op_simps view_simps html_to_simps html_name_to_def inc_cached_one)
  next
    case (more x xs)
    note K = html_result_step [OF assms(1,2) more(1), unfolded abs]
    have d1: "deref 1 c f = f (hd xs)" for f :: "char \<Rightarrow> ngx_minify_ctx outcome"
      using more by (cases xs) (simp_all add: deref_rest)
    obtain y ys where xs: "xs = y # ys" using more(2) by (cases xs) auto
    show ?thesis
      unfolding html_case_tagatt_def deref_head [OF assms(1) more(1)] sp K d1
      using assms(1-4) more t0 xs
      by (auto simp: op_simps view_simps html_to_simps html_name_to_def)
  qed
qed

lemma memcmp_names:
  assumes "buf_ok c" "NUL \<notin> set (tname c)" "length (ename c) < 64"
  shows "memcmp_tagcaches (tagend_closed c) f = f (prefix (tname c) (ename c))"
proof -
  have "tagendcachelen c < 64" using name_lengths(2) [OF assms(1)] assms(3) by simp
  from compare_names [OF assms(1,2) this] show ?thesis
    using assms(1) by (simp add: memcmp_tagcaches_ok) (simp add: tagend_closed_def)
qed

lemma html_end_result:
  assumes "buf_ok c" "0 < count c" "stk c = [html_state_tagname_end, html_state_tag, minify_state_text]"
    "html_fit c"
  shows "wp {f. html_result c = fail f} (html_case_tagname_end c) (html_name_to (html_result c) c)"
proof -
  have h: "held c = []" by (rule held_Nil [OF assms(1,2)])
  obtain x xs where r: "rest c = x # xs" using rest_cases [OF assms(1,2)] by metis
  have abs: "html_abs c = HEnd (tname c) (ename c)" using assms(3) by (simp add: html_abs_def)
  note K = html_result_step [OF assms(1,2) r, unfolded abs]
  note unf = html_case_tagname_end_def deref_head [OF assms(1) r] K
  have len: "(tagcachelen c = 0) = (tname c = [])" "(tagendcachelen c = 0) = (ename c = [])"
    "(tagendcachelen c < 64) = (length (ename c) < 64)"
    using name_lengths [OF assms(1)] by simp_all
  have "NUL \<notin> set (tname c)" using assms(3,4) by (simp add: html_fit_def)
  then have cmp: "memcmp_tagcaches (tagend_closed (written ch c)) f = f (prefix (tname c) (ename c))"
    if "length (ename c) < 64" for ch and f :: "bool \<Rightarrow> ngx_minify_ctx outcome"
    using memcmp_names [of "written ch c"] assms(1,2) that by simp
  note ok = assms h r len
  consider "x = SP" | "x = CHR ''>''" "ename c = []" | "x = CHR ''>''" "ename c \<noteq> []" "length (ename c) < 64"
    | "x = CHR ''>''" "ename c \<noteq> []" "64 \<le> length (ename c)"
    | "x \<notin> {SP, CHR ''>''}" "tname c = []" | "x \<notin> {SP, CHR ''>''}" "tname c \<noteq> []" "length (ename c) < 64"
    | "x \<notin> {SP, CHR ''>''}" "tname c \<noteq> []" "64 \<le> length (ename c)" by fastforce
  then show ?thesis
  proof cases
    case 1
    with ok show ?thesis unfolding unf
      by (auto simp: op_simps view_simps html_to_simps html_name_to_def)
  next
    case 2
    with ok show ?thesis unfolding unf
      by (auto simp: op_simps view_simps html_to_simps html_name_to_def)
  next
    case 3
    with ok cmp show ?thesis unfolding unf
      by (auto simp: op_simps view_simps html_to_simps html_name_to_def simp del: memcmp_tagcaches_ok)
  next
    case 4
    with ok show ?thesis unfolding unf by (simp add: op_simps)
  next
    case 5
    with ok show ?thesis unfolding unf
      by (auto simp: op_simps view_simps html_to_simps html_name_to_def)
  next
    case 6
    with ok show ?thesis unfolding unf
      by (auto simp: op_simps view_simps html_to_simps html_name_to_def names_added)
  next
    case 7
    with ok show ?thesis unfolding unf by (simp add: op_simps)
  qed
qed

text \<open>The states of the machine of tags.\<close>

lemma html_tag_result:
  assumes "buf_ok c" "0 < count c" "stk c = [html_state_tag, minify_state_text]" "html_fit c"
  shows "wp {f. html_result c = fail f} (html_case_tag c) (html_to (html_result c) c)"
proof -
  have h: "held c = []" by (rule held_Nil [OF assms(1,2)])
  obtain x xs where r: "rest c = x # xs" using rest_cases [OF assms(1,2)] by metis
  have abs: "html_abs c = HTag (tname c)" using assms(3) by (simp add: html_abs_def)
  note K = html_result_step [OF assms(1,2) r, unfolded abs]
  note unf = html_case_tag_def deref_head [OF assms(1) r] K
  have e0: "ename c = []" using name_lengths(2) [OF assms(1)] assms(3,4) by (simp add: html_fit_def)
  consider "x = SP" | "x = CHR ''/''" | "x \<notin> {SP, CHR ''/''}" by fastforce
  then show ?thesis
  proof cases
    case 1
    with assms h r show ?thesis unfolding unf by (auto simp: op_simps view_simps html_to_simps)
  next
    case 2
    with assms h r e0 show ?thesis unfolding unf by (auto simp: op_simps view_simps html_to_simps)
  next
    case 3
    let ?d = "(pushed html_state_tagname c)\<lparr>tagcachelen := 0, tagendcachelen := 0\<rparr>"
    have d: "buf_ok ?d" "0 < count ?d" "rest ?d = x # xs" "html_abs ?d = HName []" "held ?d = []"
      using assms h r by (simp_all add: html_abs_def)
    have "html_result (pre_recorded ?d) = html_result ?d"
      using d assms(1,3) by (simp add: html_result_def html_abs_def)
    also have "\<dots> = html_go (name_step [] x) ?d x xs"
      using html_result_step [OF d(1-3)] d(4) by simp
    also have "\<dots> = html_go (name_step [] x) c x xs"
    proof -
      have "last_out ?d = last_out c" "out ?d = out c" by simp_all
      then show ?thesis unfolding html_go_def by (simp only:)
    qed
    finally show ?thesis
      using 3 assms h r unfolding unf by (auto simp: op_simps view_simps html_to_def html_fit_def html_stacks_def html_measure_def)
  qed
qed

lemma html_skip_result:
  assumes "buf_ok c" "0 < count c" "stk c = [html_state_skip]" "html_fit c"
  shows "wp {f. html_result c = fail f} (html_case_skip c) (html_to (html_result c) c)"
proof -
  have abs: "html_abs c = HSkip (tname c)" using assms(3) by (simp add: html_abs_def)
  from assms(1,2) show ?thesis
  proof (cases rule: rest_cases)
    case (one x)
    note K = html_result_step [OF assms(1,2) one(1), unfolded abs]
    show ?thesis
      unfolding html_case_skip_def deref_head [OF assms(1) one(1)] K
      using assms one by (auto simp: op_simps view_simps html_to_simps inc_cached_one)
  next
    case (more x xs)
    note K = html_result_step [OF assms(1,2) more(1), unfolded abs]
    have d1: "deref 1 c f = f (hd xs)" for f :: "char \<Rightarrow> ngx_minify_ctx outcome"
      using more by (cases xs) (simp_all add: deref_rest)
    obtain y ys where xs: "xs = y # ys" using more(2) by (cases xs) auto
    show ?thesis
      unfolding html_case_skip_def deref_head [OF assms(1) more(1)] K d1
      using assms more xs by (auto simp: op_simps view_simps html_to_simps html_scan.simps(2))
  qed
qed

text \<open>Runs of copies and of skips.\<close>

lemma copied_views:
  assumes "buf_ok c" "int n \<le> count c"
  shows "rest (copied n c) = drop n (rest c) \<and> out (copied n c) = out c @ take n (rest c) \<and>
    held (copied n c) = held c"
  using assms
proof (induction n)
  case (Suc n)
  let ?d = "copied n c"
  have d: "buf_ok ?d" "0 < count ?d" "rest ?d = drop n (rest c)" "out ?d = out c @ take n (rest c)"
    "held ?d = held c" using Suc by simp_all
  have n: "n < length (rest c)" using Suc.prems buf_ok_rest [OF assms(1)] by linarith
  have "copied (Suc n) c = written (rest ?d ! 0) ?d" by (simp add: copied_def)
  then show ?case
    using written_views [OF d(1,2), of "rest ?d ! 0"] d(3-5) n
    by (simp add: take_Suc_conv_app_nth drop_Suc tl_drop)
qed (simp add: copied_def)

lemma skipped_views:
  assumes "buf_ok c" "int n \<le> count c"
  shows "rest (skipped n c) = drop n (rest c)"  "out (skipped n c) = out c"  "held (skipped n c) = held c"
  by (induction n) (simp_all add: skipped_def drop_Suc tl_drop)

lemma run_views [view_simps]:
  assumes "buf_ok c" "int n \<le> count c"
  shows "rest (copied n c) = drop n (rest c)"  "out (copied n c) = out c @ take n (rest c)"
    "held (copied n c) = held c"
    "last_out (copied n c) = last_of (last_out c) (take n (rest c))"
    "rest (skipped n c) = drop n (rest c)"  "out (skipped n c) = out c"  "held (skipped n c) = held c"
    "last_out (skipped n c) = last_out c"
  using copied_views [OF assms] skipped_views [OF assms]
  by (auto simp: last_out_def last_of_def)

lemma cache_or:
  assumes "buf_ok c" "0 < count c" "count c \<le> int (length lit)" "length lit < 64"
  shows "ngx_minify_cache lit c (\<lambda>n. if n = -1 then f else repeat_op (nat n) ngx_minify_inc_rpos) =
    (if ci_prefix (rest c) lit then ret (held_back c) else f (cache_missed lit c))"
  using step_over_held [OF assms(1)] assms(2) by (simp add: cache_ok(1) [OF assms])

lemma held_missed [view_simps]: "buf_ok c \<Longrightarrow> 0 < count c \<Longrightarrow> held (cache_missed lit c) = []"
  by (simp add: held_def cache_missed_def cachelen_0)

lemma html_cdata_result:
  assumes "buf_ok c" "0 < count c" "stk c = [html_state_cdata, minify_state_text]" "html_fit c"
  shows "wp {f. html_result c = fail f} (html_case_cdata c) (html_to (html_result c) c)"
proof -
  have h: "held c = []" by (rule held_Nil [OF assms(1,2)])
  obtain x xs where r: "rest c = x # xs" using rest_cases [OF assms(1,2)] by metis
  have n: "count c = 1 + int (length xs)" using buf_ok_rest [OF assms(1)] r by simp
  have abs: "html_abs c = HCdata (tname c)" using assms(3) by (simp add: html_abs_def)
  note K = html_result_step [OF assms(1,2) r, unfolded abs]
  note unf = html_case_cdata_def deref_head [OF assms(1) r] K
  note ok = assms h r n
  have m: "memcmp_rpos '']]>'' c f = f (take 3 (rest c) = '']]>'')" if "3 \<le> count c" for f :: "bool \<Rightarrow> ngx_minify_ctx outcome"
    using assms(1) that by (simp add: memcmp_ok numeral_3_eq_3)
  consider "x \<noteq> CHR '']''" | (mark) y z zs where "x = CHR '']''" "xs = y # z # zs" "3 \<le> count c"
    | "x = CHR '']''" "length xs < 2" "count c < 3" "ci_prefix (x # xs) '']]>''"
    | "x = CHR '']''" "length xs < 2" "count c < 3" "\<not> ci_prefix (x # xs) '']]>''"
    using n by (cases xs rule: remdups_adj.cases) fastforce+
  then show ?thesis
  proof cases
    case 1
    with ok show ?thesis unfolding unf by (auto simp: op_simps view_simps html_to_simps)
  next
    case mark
    with assms h r m show ?thesis unfolding unf
      by (auto simp: op_simps view_simps html_to_simps numeral_3_eq_3 numeral_2_eq_2)
  next
    case 3
    with assms h r show ?thesis unfolding unf
      by (auto simp: op_simps view_simps html_to_simps cache_or)
  next
    case 4
    with assms h r show ?thesis unfolding unf
      by (auto simp: op_simps view_simps html_to_simps cache_or)
  qed
qed

lemma html_drop_result:
  assumes "buf_ok c" "0 < count c" "stk c = [html_state_comment_skip, html_state_tag_bang, minify_state_text]"
    "html_fit c"
  shows "wp {f. html_result c = fail f} (html_case_comment_skip c) (html_to (html_result c) c)"
proof -
  have h: "held c = []" by (rule held_Nil [OF assms(1,2)])
  obtain x xs where r: "rest c = x # xs" using rest_cases [OF assms(1,2)] by metis
  have n: "count c = 1 + int (length xs)" using buf_ok_rest [OF assms(1)] r by simp
  have abs: "html_abs c = HDrop (pre_char c) (tname c)" using assms(3) by (simp add: html_abs_def)
  note K = html_result_step [OF assms(1,2) r, unfolded abs]
  note unf = html_case_comment_skip_def deref_head [OF assms(1) r] K
  have m: "memcmp_rpos ''-->'' c f = f (take 3 (rest c) = ''-->'')" if "3 \<le> count c" for f :: "bool \<Rightarrow> ngx_minify_ctx outcome"
    using assms(1) that by (simp add: memcmp_ok numeral_3_eq_3)
  consider "x \<noteq> CHR ''-''" | (mark) y z zs where "x = CHR ''-''" "xs = y # z # zs" "3 \<le> count c"
    | "x = CHR ''-''" "length xs < 2" "count c < 3" "ci_prefix (x # xs) ''-->''"
    | "x = CHR ''-''" "length xs < 2" "count c < 3" "\<not> ci_prefix (x # xs) ''-->''"
    using n by (cases xs rule: remdups_adj.cases) fastforce+
  then show ?thesis
  proof cases
    case 1
    with assms h r show ?thesis unfolding unf by (auto simp: op_simps view_simps html_to_simps)
  next
    case mark
    with assms h r m show ?thesis unfolding unf
      by (auto simp: op_simps view_simps html_to_simps numeral_3_eq_3 numeral_2_eq_2)
  next
    case 3
    with assms h r show ?thesis unfolding unf
      by (auto simp: op_simps view_simps html_to_simps cache_or)
  next
    case 4
    with assms h r show ?thesis unfolding unf
      by (auto simp: op_simps view_simps html_to_simps cache_or)
  qed
qed

lemma four_bytes:
  assumes "4 \<le> length xs"
  obtains a b c d ys where "xs = a # b # c # d # ys"
proof -
  obtain a xs1 where 1: "xs = a # xs1" using assms by (cases xs) auto
  then obtain b xs2 where 2: "xs1 = b # xs2" using assms by (cases xs1) auto
  then obtain c xs3 where 3: "xs2 = c # xs3" using assms 1 by (cases xs2) auto
  then obtain d ys where "xs3 = d # ys" using assms 1 2 by (cases xs3) auto
  with 1 2 3 that show thesis by simp
qed

lemma html_ie_result:
  assumes "buf_ok c" "0 < count c" "stk c = [html_state_comment_ie, html_state_tag_bang, minify_state_text]"
    "html_fit c"
  shows "wp {f. html_result c = fail f} (html_case_comment_ie c) (html_to (html_result c) c)"
proof -
  have h: "held c = []" by (rule held_Nil [OF assms(1,2)])
  obtain x xs where r: "rest c = x # xs" using rest_cases [OF assms(1,2)] by metis
  have n: "count c = 1 + int (length xs)" using buf_ok_rest [OF assms(1)] r by simp
  have abs: "html_abs c = HIe (pre_char c) (tname c)" using assms(3) by (simp add: html_abs_def)
  note K = html_result_step [OF assms(1,2) r, unfolded abs]
  note unf = html_case_comment_ie_def deref_head [OF assms(1) r] K
  have m: "memcmp_rpos '']-->'' c f = f (take 4 (rest c) = '']-->'')" if "4 \<le> count c" for f :: "bool \<Rightarrow> ngx_minify_ctx outcome"
    using assms(1) that by (simp add: memcmp_ok eval_nat_numeral)
  consider "x \<noteq> CHR '']''" | (mark) "x = CHR '']''" "4 \<le> length (x # xs)" "4 \<le> count c"
    | "x = CHR '']''" "length xs < 3" "count c < 4" "ci_prefix (x # xs) '']-->''"
    | "x = CHR '']''" "length xs < 3" "count c < 4" "\<not> ci_prefix (x # xs) '']-->''"
    using n by fastforce
  then show ?thesis
  proof cases
    case 1
    with assms h r show ?thesis unfolding unf by (auto simp: op_simps view_simps html_to_simps ie_step_def)
  next
    case mark
    from four_bytes [OF mark(2)] obtain a b d ys where "xs = a # b # d # ys" by (metis list.inject)
    with mark assms h r m show ?thesis unfolding unf
      by (auto simp: op_simps view_simps html_to_simps ie_step_def)
  next
    case 3
    with assms h r show ?thesis unfolding unf
      by (auto simp: op_simps view_simps html_to_simps cache_or ie_step_def)
  next
    case 4
    with assms h r show ?thesis unfolding unf
      by (auto simp: op_simps view_simps html_to_simps cache_or ie_step_def)
  qed
qed

text \<open>A change of the state that consumes nothing: the scanner of the new state reads the same bytes.\<close>

lemma html_result_moved:
  assumes "buf_ok d" "0 < count d" "rest d = x # xs" "out d = out c" "last_out d = last_out c"
    and "html_step (html_abs d) (last_out c) x xs = mv"
  shows "html_result d = html_go mv c x xs"
  using html_result_step [OF assms(1-3)] unfolding assms(4-6) html_go_def by (simp only: assms(4,5,6))

lemma html_comment_result:
  assumes "buf_ok c" "0 < count c" "stk c = [html_state_comment, html_state_tag_bang, minify_state_text]"
    "html_fit c"
  shows "wp {f. html_result c = fail f} (html_case_comment c) (html_to (html_result c) c)"
proof -
  have h: "held c = []" by (rule held_Nil [OF assms(1,2)])
  have "take 4 (rest c) = ''<!--''" using assms by (simp add: html_fit_def pend_def)
  then obtain ys where r: "rest c = CHR ''<'' # ''!--'' @ ys"
    by (metis append_take_drop_id append_Cons)
  have n: "count c = 4 + int (length ys)" using buf_ok_rest [OF assms(1)] r by simp
  let ?xs = "CHR ''<'' # ''!--'' @ ys"
  have abs: "html_abs c = HComment (pre_char c) (tname c)" using assms(3) by (simp add: html_abs_def)
  note K = html_result_step [OF assms(1,2) r, unfolded abs]
  have d4: "deref 4 c f = f (ys ! 0)" if "ys \<noteq> []" for f :: "char \<Rightarrow> ngx_minify_ctx outcome"
    using that n r assms(1) by (simp add: deref_rest)
  have skip: "wp {f. html_result c = fail f} (html_open_skipped d) (html_to (html_go (HMove 3 [] (HDrop (pre_char c) (tname c))) c CHR ''<'' (''!--'' @ ys)) c)"
    if "d = c \<or> d = cache_missed lit c \<and> buf_ok d" for d lit
    using that assms h r n held_missed [OF assms(1,2)]
    by (auto simp: html_open_skipped_def op_simps view_simps html_to_simps)
  show ?thesis
  proof (cases ys)
    case Nil
    have "ci_prefix (rest c) ''<!--''" using r Nil by (simp add: ci_prefix_def)
    moreover have "repeat_op (nat (count c)) ngx_minify_inc_rpos (cached_upto (length (rest c)) c) = ret (held_back c)"
      by (rule step_over_held [OF assms(1)])
    ultimately have "html_case_comment c = ret (held_back c)"
      using assms(1,2) n Nil by (simp add: html_case_comment_def cache_ok)
    then show ?thesis
      using K assms r n Nil by (auto simp: view_simps html_to_simps comment_step_def pend_def)
  next
    case (Cons z zs)
    then have ne: "ys \<noteq> []" "count c \<noteq> 4" using n by simp_all
    have len: "(7 \<le> length (CHR ''<'' # ''!--'' @ ys)) = (7 \<le> count c)" using n by simp
    have m: "memcmp_rpos ''<!--[if'' c f = f (take 7 (rest c) = ''<!--[if'')" if "7 \<le> count c"
      for f :: "bool \<Rightarrow> ngx_minify_ctx outcome"
      using assms(1) that by (simp add: memcmp_ok eval_nat_numeral)
    note unf = html_case_comment_def d4 [OF ne(1)] K html_step.simps comment_step_def len
    consider "z \<noteq> CHR ''[''" | (ie) "z = CHR ''[''" "7 \<le> count c" "take 7 (rest c) = ''<!--[if''"
      | "z = CHR ''[''" "7 \<le> count c" "take 7 (rest c) \<noteq> ''<!--[if''"
      | "z = CHR ''[''" "count c < 7" by linarith
    then show ?thesis
    proof cases
      case 1
      then show ?thesis using skip [of c] ne Cons unfolding unf by simp
    next
      case ie
      let ?d = "pushed html_state_comment_ie (popped c)"
      have "html_result ?d = html_go (ie_step (pre_char c) (tname c) (rest c)) c CHR ''<'' (''!--'' @ ys)"
        by (rule html_result_moved) (use assms r in \<open>simp_all add: html_abs_def\<close>)
      moreover have "html_result (pre_recorded ?d) = html_result ?d"
        using assms by (simp add: html_result_def html_abs_def html_fit_def)
      moreover have "comment_step (pre_char c) (tname c) (CHR ''<'' # ''!--'' @ ys) = ie_step (pre_char c) (tname c) (rest c)"
        using ie(1,3) Cons len ie(2) unfolding r by (simp add: comment_step_def)
      ultimately have K2: "html_result (pre_recorded ?d) = html_result c" unfolding K by simp
      have "html_case_comment c = ret ?d"
        unfolding html_case_comment_def d4 [OF ne(1)] m [OF ie(2)]
        using ie ne Cons assms(1-3) by (simp add: op_simps)
      then show ?thesis
        using K2 assms by (simp add: html_to_def html_stacks_def html_fit_def html_measure_def)
    next
      case 3
      then show ?thesis using skip [of c] ne Cons m r unfolding unf by simp
    next
      case 4
      show ?thesis
      proof (cases "ci_prefix (rest c) ''<!--[if''")
        case True
        then show ?thesis
          using 4 ne Cons assms r unfolding unf
          by (simp add: cache_or view_simps html_to_simps pend_def)
      next
        case False
        then show ?thesis
          using 4 ne Cons assms(1,2) r skip [of "cache_missed ''<!--[if'' c" "''<!--[if''"] unfolding unf
          by (simp add: cache_or)
      qed
    qed
  qed
qed

lemma nine_bytes:
  assumes "9 \<le> length xs"
  obtains a b c d e f g h i ys where "xs = a # b # c # d # e # f # g # h # i # ys"
proof -
  from assms have "4 \<le> length xs" by simp
  then obtain a b c d ys where 1: "xs = a # b # c # d # ys" by (rule four_bytes)
  with assms have "4 \<le> length ys" by simp
  then obtain e f g h zs where 2: "ys = e # f # g # h # zs" by (rule four_bytes)
  with assms 1 obtain i r where "zs = i # r" by (cases zs) auto
  with 1 2 that show thesis by simp
qed

text \<open>
  At the top of the machine of tags the byte recorded last is the last one written, since the state
  of text records it before it hands over.
\<close>

lemma html_bang_result:
  assumes "buf_ok c" "0 < count c" "stk c = [html_state_tag_bang, minify_state_text]" "html_fit c"
    and pre: "recorded (last_out c) (pre_char c) = pre_char c"
  shows "wp {f. html_result c = fail f} (html_case_tag_bang c) (html_to (html_result c) c)"
proof -
  have h: "held c = []" by (rule held_Nil [OF assms(1,2)])
  have "take 2 (rest c) = ''<!''" "3 \<le> length (rest c)" using assms by (simp_all add: html_fit_def pend_def)
  then obtain z zs where r: "rest c = CHR ''<'' # CHR ''!'' # z # zs"
    by (cases "rest c" rule: remdups_adj.cases; cases "tl (tl (rest c))") auto
  have n: "count c = 3 + int (length zs)" using buf_ok_rest [OF assms(1)] r by simp
  let ?x = "CHR ''<''" and ?xs = "CHR ''!'' # z # zs"
  have abs: "html_abs c = HBang (pre_char c) (tname c)" using assms(3) by (simp add: html_abs_def)
  note K = html_result_step [OF assms(1,2) r, unfolded abs]
  have d2: "(if count c \<le> 2 then g else deref 2 c f) = f z" for f :: "char \<Rightarrow> ngx_minify_ctx outcome" and g
    using n r by (simp add: deref_rest)
  note unf = html_case_tag_bang_def d2 K html_step.simps bang_step_def
  have moved: "html_result d = html_go mv c ?x ?xs"
    if "buf_ok d" "count d = count c" "rest d = rest c" "out d = out c"
      "html_step (html_abs d) (last_out c) ?x ?xs = mv" for d mv
    by (rule html_result_moved) (use that assms(2) r in \<open>simp_all add: last_out_def\<close>)
  consider "z \<noteq> CHR ''-''" "z \<noteq> CHR ''[''"
    | (dash) "z = CHR ''-''" "zs \<noteq> []" | (dash_end) "z = CHR ''-''" "zs = []"
    | (cdata) "z = CHR ''[''" "9 \<le> count c"
    | (short) "z = CHR ''[''" "count c < 9" "ci_prefix (rest c) ''<![CDATA[''"
    | (abort) "z = CHR ''[''" "count c < 9" "\<not> ci_prefix (rest c) ''<![CDATA[''" by fastforce
  then show ?thesis
  proof cases
    case 1
    then show ?thesis using assms h r n unfolding unf by (auto simp: op_simps view_simps html_to_simps)
  next
    case dash
    then obtain w ws where zs: "zs = w # ws" by (cases zs) auto
    let ?d = "(pushed html_state_comment c)\<lparr>nochange_pre := True\<rparr>"
    show ?thesis
    proof (cases "w = CHR ''-''")
      case True
      have "html_result ?d = html_go (comment_step (pre_char c) (tname c) (rest c)) c ?x ?xs"
        by (rule moved) (use assms r in \<open>simp_all add: html_abs_def\<close>)
      moreover have "html_result (pre_recorded ?d) = html_result ?d"
        using assms by (simp add: html_result_def html_abs_def)
      moreover have "html_result c = html_go (comment_step (pre_char c) (tname c) (rest c)) c ?x ?xs"
        using dash(1) zs True r unfolding unf by simp
      moreover have "html_case_tag_bang c = ret ?d"
        unfolding html_case_tag_bang_def d2 using dash(1) zs True r n assms(1,3) by (simp add: op_simps)
      ultimately show ?thesis
        using assms zs True r dash(1) n
        by (simp add: html_to_def html_stacks_def html_fit_def html_measure_def pend_def)
    next
      case False
      then show ?thesis
        using assms h r n zs dash unfolding unf by (auto simp: op_simps view_simps html_to_simps)
    qed
  next
    case dash_end
    then have "ci_prefix (rest c) ''<!--''" using r by (simp add: ci_prefix_def)
    then show ?thesis
      using assms h r n dash_end unfolding unf
      by (auto simp: op_simps view_simps html_to_simps cache_or pend_def)
  next
    case cdata
    then have "9 \<le> length (rest c)" using buf_ok_rest [OF assms(1)] by simp
    then obtain a b d e f g h' i j ys where l: "rest c = a # b # d # e # f # g # h' # i # j # ys"
      by (rule nine_bytes)
    then show ?thesis
      using assms h r n cdata unfolding unf by (auto simp: op_simps view_simps html_to_simps)
  next
    case short
    then show ?thesis
      using assms h r n unfolding unf
      by (auto simp: op_simps view_simps html_to_simps cache_or pend_def)
  next
    case abort
    let ?d = "set_to minify_state_abort (cache_missed ''<![CDATA['' c)"
    have "html_case_tag_bang c = ret ?d"
      unfolding html_case_tag_bang_def d2 using abort assms n by (simp add: op_simps cache_ok)
    moreover have "html_result (pre_recorded ?d) = html_go (HMove 0 [?x] HAbort) c ?x ?xs"
      by (rule moved) (use abort assms r n in \<open>simp_all add: html_abs_def\<close>)
    moreover have "html_result c = html_go (HMove 0 [?x] HAbort) c ?x ?xs"
      using abort r n unfolding unf by simp
    ultimately show ?thesis
      using assms abort n by (simp add: html_to_def html_stacks_def html_fit_def html_measure_def)
  qed
qed

lemma html_text_result:
  assumes "buf_ok c" "0 < count c" "stk c = [minify_state_text]" "html_fit c" "\<not> nochange_pre c"
  shows "wp {f. html_result c = fail f} (html_case_text c) (html_to (html_result c) c)"
proof -
  have h: "held c = []" by (rule held_Nil [OF assms(1,2)])
  obtain x xs where r: "rest c = x # xs" using rest_cases [OF assms(1,2)] by metis
  have n: "count c = 1 + int (length xs)" using buf_ok_rest [OF assms(1)] r by simp
  have abs: "html_abs c = HText (pre_char c) (tname c)" using assms(3) by (simp add: html_abs_def)
  note K = html_result_step [OF assms(1,2) r, unfolded abs]
  note unf = html_case_text_def deref_head [OF assms(1) r] K html_step.simps
  consider (no) "x \<noteq> CHR ''<''" | (one) "x = CHR ''<''" "xs = []"
    | (tag) y ys where "x = CHR ''<''" "xs = y # ys" "y \<noteq> CHR ''!''"
    | (two) "x = CHR ''<''" "xs = [CHR ''!'']"
    | (bang) z zs where "x = CHR ''<''" "xs = CHR ''!'' # z # zs"
    by (cases xs rule: remdups_adj.cases) auto
  then show ?thesis
  proof cases
    case no
    then show ?thesis using assms h r n unfolding unf by (auto simp: op_simps view_simps html_to_simps)
  next
    case one
    then show ?thesis
      using assms h r n unfolding unf by (auto simp: op_simps view_simps html_to_simps inc_cached_one)
  next
    case tag
    then show ?thesis using assms h r n unfolding unf by (auto simp: op_simps view_simps html_to_simps)
  next
    case two
    then have "html_case_text c = ret (held_back c)"
      unfolding html_case_text_def deref_head [OF assms(1) r]
      using assms(1,2) r n html_cache_bang [OF assms(1)] by (simp add: op_simps del: seq.simps)
    then show ?thesis
      using K two assms h r n by (auto simp: view_simps html_to_simps)
  next
    case bang
    let ?d = "pushed html_state_tag_bang c" and ?p = "recorded (last_out c) (pre_char c)"
    have "html_result (pre_recorded ?d) = html_go (bang_step ?p (tname c) (x # xs)) c x xs"
      by (rule html_result_moved) (use assms r in \<open>simp_all add: html_abs_def\<close>)
    moreover have "html_case_text c = ret ?d"
      unfolding html_case_text_def deref_head [OF assms(1) r]
      using bang assms r n by (simp add: op_simps)
    ultimately show ?thesis
      using K bang assms n r by (simp add: html_to_def html_stacks_def html_fit_def html_measure_def pend_def)
  qed
qed

end
