(* ===== verification/Minify_HTML_Refine.thy ===== *)
theory Minify_HTML_Refine
  imports Minify_HTML_Scan
begin

text \<open>
  The loops of the HTML minifier and the refinement: a call computes what the scanner of
  \<open>Minify_HTML_Scan\<close> computes, faults included; then the properties of the minifier.
\<close>

section \<open>The loops\<close>

text \<open>
  What holds in the machine of tags and in the main loop: the context computes \<open>K\<close>; the machine of
  names, which forgets the byte recorded, is entered within an attribute only where nothing has
  been written; a declaration is entered with the last byte recorded.
\<close>

definition html_run :: "html_out \<Rightarrow> ngx_minify_ctx \<Rightarrow> bool" where
  "html_run K t =
     (buf_ok t \<and> stk t \<in> html_stacks \<and> html_fit t \<and> html_result (pre_recorded t) = K \<and>
      (count t \<noteq> 0 \<longrightarrow>
        (hd (stk t) = html_state_tagatt \<longrightarrow> last_out t = None) \<and>
        (hd (stk t) = html_state_tag_bang \<longrightarrow> recorded (last_out t) (pre_char t) = pre_char t)))"

lemma html_to_run:
  "html_to K c d \<Longrightarrow> hd (stk c) \<notin> insert minify_state_text html_name_states \<Longrightarrow> html_run K d"
  by (auto simp: html_to_def html_run_def)

lemma html_fit_flags:
  "html_fit c \<Longrightarrow> hd (stk c) \<in> html_name_states \<union> {html_state_tag, html_state_tag_bang, html_state_cdata} \<Longrightarrow>
    \<not> nochange_pre c"
  "html_fit c \<Longrightarrow> hd (stk c) \<in> html_comment_states \<Longrightarrow> nochange_pre c"
  unfolding html_fit_def by blast+

lemma html_fit_recorded [simp]: "html_fit (pre_recorded c) = html_fit c"
  by (simp add: html_fit_def pend_def)

lemma html_fit_flag_views [simp]:
  "html_fit (c\<lparr>pre_char := q\<rparr>) = html_fit c"  "html_fit (c\<lparr>pre_char2 := q\<rparr>) = html_fit c"
  by (simp_all add: html_fit_def pend_def)

lemma html_to_run_recorded:
  "html_to K c d \<Longrightarrow> hd (stk c) \<notin> html_name_states \<Longrightarrow> html_run K (pre_recorded d)"
  using html_fit_flags(1) [of d]
  unfolding html_to_def html_run_def by (cases "hd (stk d) = html_state_tag_bang") simp_all

lemma html_to_measure: "html_to K c d \<Longrightarrow> html_measure d < html_measure c"
  by (simp add: html_to_def)

lemma html_shapes:
  assumes "stk c \<in> html_stacks"
  shows "hd (stk c) \<in> {minify_state_text, minify_state_abort, html_state_skip} \<Longrightarrow> stk c = [hd (stk c)]"
    "hd (stk c) \<in> {html_state_tag, html_state_tag_bang, html_state_cdata} \<Longrightarrow> stk c = [hd (stk c), minify_state_text]"
    "hd (stk c) \<in> html_name_states \<Longrightarrow> stk c = [hd (stk c), html_state_tag, minify_state_text]"
    "hd (stk c) \<in> html_comment_states \<Longrightarrow> stk c = [hd (stk c), html_state_tag_bang, minify_state_text]"
  using assms by (auto simp: html_stacks_def)

lemma html_names_blind:
  assumes "hd (stk c) \<in> html_name_states \<union> {html_state_tag, html_state_cdata, html_state_skip, minify_state_abort}"
  shows "html_result (pre_recorded c) = html_result c"
    "html_result (c\<lparr>pre_char := q, pre_char2 := q2\<rparr>) = html_result c"
  using assms by (auto simp: html_result_def html_abs_def last_out_def)

lemma html_blind:
  assumes "html_run K t" "hd (stk t) \<noteq> minify_state_text" "0 < count t"
  shows "html_result t = K"
proof (cases "hd (stk t) \<in> html_name_states \<union> {html_state_tag, html_state_cdata, html_state_skip, minify_state_abort}")
  case True
  then show ?thesis using html_names_blind(1) [OF True] assms(1) by (simp add: html_run_def)
next
  case False
  have "stk t \<in> html_stacks" using assms(1) by (simp add: html_run_def)
  then have "hd (stk t) = html_state_tag_bang \<or> hd (stk t) \<in> html_comment_states"
    using False assms(2) by (auto simp: html_stacks_def)
  then have "pre_char (pre_recorded t) = pre_char t"
    using assms(1,3) html_fit_flags(2) [of t] by (auto simp: html_run_def)
  then have "html_abs (pre_recorded t) = html_abs t"
    unfolding html_abs_def name_views pre_recorded_fields by (rule arg_cong)
  then show ?thesis using assms(1) by (simp add: html_run_def html_result_def)
qed

lemma html_rank_le: "html_rank s \<le> 5"
  by (cases s) simp_all

text \<open>The machine of names.\<close>

definition html_named :: "html_out \<Rightarrow> ngx_minify_ctx \<Rightarrow> bool" where
  "html_named K t =
     (buf_ok t \<and> stk t \<in> html_stacks \<and> html_fit t \<and> html_result (pre_recorded t) = K \<and>
      (last_out t = None \<longrightarrow> pre_char t = NUL) \<and>
      (hd (stk t) = html_state_tagatt \<longrightarrow> pre_char t = recorded (last_out t) NUL) \<and>
      (count t \<noteq> 0 \<longrightarrow> hd (stk t) \<noteq> html_state_tag_bang))"

lemma html_named_next:
  assumes "wp F m (html_name_to K t)" "html_named K t" "hd (stk t) \<in> html_name_states"
  shows "wp F (bindO m (seq [record_pre_char]))
    (\<lambda>d. html_named K d \<and> count d < count t \<and> count d \<le> count t)"
  unfolding wp_bindO
proof (rule wp_mono [OF assms(1)])
  fix d assume d: "html_name_to K t d"
  then have to: "buf_ok d" "stk d \<in> html_stacks" "html_fit d" "html_result (pre_recorded d) = K"
    "count d \<noteq> 0 \<longrightarrow> hd (stk d) \<noteq> html_state_tag_bang" "count d < count t"
    "pre_char d = pre_char t" "last_out d = None \<longrightarrow> last_out t = None"
    using assms(3) by (auto simp: html_name_to_def html_to_def)
  have "last_out d = None \<longrightarrow> pre_char d = NUL"
    using assms(2) to(7,8) by (simp add: html_named_def)
  moreover have "hd (stk d) = html_state_tagatt \<longrightarrow> \<not> nochange_pre d"
    using to(3) by (simp add: html_fit_def)
  ultimately have "html_named K (pre_recorded d)"
    using to(1-5) by (cases "last_out d") (simp_all add: html_named_def)
  then show "wp F (seq [record_pre_char] d) (\<lambda>d. html_named K d \<and> count d < count t \<and> count d \<le> count t)"
    using to(1,6) by (simp add: op_simps)
qed

lemma wp_html_names_result:
  assumes "html_run K c" "hd (stk c) \<in> html_name_states" "0 < count c"
  shows "wp {f. K = fail f} (ngx_minify_html_strip_tagname c) (\<lambda>d. html_run K d \<and> html_measure d < html_measure c)"
proof -
  let ?c = "c\<lparr>pre_char := NUL, pre_char2 := NUL\<rparr>"
  have cK: "html_result ?c = K" using html_blind [OF assms(1) _ assms(3)] assms(2) html_names_blind(2) by auto
  then have "html_named K ?c"
    using assms html_names_blind(1) [of ?c] unfolding html_named_def html_run_def
    by auto
  then have "wp {f. K = fail f} (ngx_minify_html_strip_tagname c)
    (\<lambda>d. html_named K d \<and> count d < count ?c \<and> (hd (stk d) \<notin> html_name_states \<or> count d = 0))"
    unfolding ngx_minify_html_strip_tagname_def
  proof (rule wp_machine_break [where \<mu> = "\<lambda>d. nat (count d)"])
    fix t x
    assume t: "html_named K t" "hd (stk t) = x" "x \<in> html_name_states" "0 < count t"
    have ok: "buf_ok t" "html_fit t" "stk t \<in> html_stacks" using t(1) by (simp_all add: html_named_def)
    have st: "stk t = [x, html_state_tag, minify_state_text]"
      using html_shapes(3) [OF ok(3)] t(2,3) by blast
    have K: "html_result t = K" using t html_names_blind(1) [of t] by (auto simp: html_named_def)
    have nx: "wp {f. K = fail f} (next_of (seq [m, record_pre_char] t))
        (\<lambda>r. case r of Next d \<Rightarrow> html_named K d \<and> nat (count d) < nat (count t) \<and> count d \<le> count t \<and>
            (count d < count t \<or> hd (stk d) \<in> html_name_states) | Break d \<Rightarrow> False)"
      if "wp {f. html_result t = fail f} (m t) (html_name_to (html_result t) t)" for m
      using html_named_next [of _ "m t" K t] that t unfolding K
      by (auto intro: wp_mono)
    show "wp {f. K = fail f}
        (if x = html_state_tagname then next_of (seq [html_case_tagname, record_pre_char] t)
         else if x = html_state_tagatt then next_of (seq [html_case_tagatt, record_pre_char] t)
         else if x = html_state_tagname_end then next_of (seq [html_case_tagname_end, record_pre_char] t)
         else if x = html_state_skip then ret (Break (t\<lparr>nochange_pre := True\<rparr>))
         else ret (Break t))
        (\<lambda>r. case r of Next d \<Rightarrow> html_named K d \<and> nat (count d) < nat (count t) \<and> count d \<le> count t \<and>
            (count d < count t \<or> hd (stk d) \<in> html_name_states) | Break d \<Rightarrow> False)"
    proof (cases "x = html_state_tagname")
      case True
      then show ?thesis using nx [of html_case_tagname] html_name_result [OF ok(1) t(4) _ ok(2)] st by simp
    next
      case no: False
      show ?thesis
      proof (cases "x = html_state_tagatt")
        case True
        then show ?thesis
          using nx [of html_case_tagatt] html_att_result [OF ok(1) t(4) _ ok(2)] st t(1,2) by (simp add: html_named_def)
      next
        case False
        then show ?thesis
          using no t(3) nx [of html_case_tagname_end] html_end_result [OF ok(1) t(4) _ ok(2)] st by simp
      qed
    qed
  next
    show "html_named K t \<Longrightarrow> buf_ok t \<and> stk t \<noteq> []" for t
      by (auto simp: html_named_def html_stacks_def)
  next
    fix t x assume t: "html_named K t" "hd (stk t) = x" "x \<notin> html_name_states"
    have "html_named K (t\<lparr>nochange_pre := True\<rparr>)" if "x = html_state_skip"
      using t(1) html_names_blind [of t] html_names_blind [of "t\<lparr>nochange_pre := True\<rparr>"] that t(2)
      by (simp add: html_named_def html_fit_def pend_def) (simp add: html_result_def html_abs_def)
    then show "\<exists>d. (if x = html_state_tagname then next_of (seq [html_case_tagname, record_pre_char] t)
         else if x = html_state_tagatt then next_of (seq [html_case_tagatt, record_pre_char] t)
         else if x = html_state_tagname_end then next_of (seq [html_case_tagname_end, record_pre_char] t)
         else if x = html_state_skip then ret (Break (t\<lparr>nochange_pre := True\<rparr>))
         else ret (Break t)) = ret (Break d) \<and> html_named K d \<and> stk d = stk t \<and> count d = count t"
      using t by simp
  qed (use assms in simp_all)
  then show ?thesis
  proof (rule wp_mono)
    fix d assume d: "html_named K d \<and> count d < count ?c \<and> (hd (stk d) \<notin> html_name_states \<or> count d = 0)"
    then have "html_run K d" by (auto simp: html_named_def html_run_def)
    moreover have "html_measure d < html_measure c"
    proof -
      have "0 \<le> count d" "count d < count c"
        using d buf_ok_count [of d] by (simp_all add: html_named_def)
      then have "nat (count d) < nat (count c)" by simp
      then show ?thesis using html_rank_le [of "hd (stk d)"] unfolding html_measure_def by linarith
    qed
    ultimately show "html_run K d \<and> html_measure d < html_measure c" by simp
  qed
qed

text \<open>The machine of comments, and that of tags.\<close>

lemma html_run_parts:
  assumes "html_run K t"
  shows "buf_ok t" "stk t \<in> html_stacks" "html_fit t" "stk t \<noteq> []"
  using assms by (auto simp: html_run_def html_stacks_def)

abbreviation html_goes :: "html_out \<Rightarrow> ngx_minify_ctx \<Rightarrow> ngx_minify_ctx \<Rightarrow> bool" where
  "html_goes K c d \<equiv> html_run K d \<and> html_measure d < html_measure c"

lemma html_to_goes:
  "wp F m (html_to K c) \<Longrightarrow> hd (stk c) \<notin> insert minify_state_text html_name_states \<Longrightarrow> wp F m (html_goes K c)"
  by (erule wp_mono) (blast intro: html_to_run html_to_measure)

lemma html_run_frozen:
  assumes "html_run K t" "hd (stk t) = html_state_skip"
  shows "html_run K (t\<lparr>nochange_pre := True\<rparr>)"
proof -
  have "html_result (t\<lparr>nochange_pre := True\<rparr>) = html_result t"
    using assms(2) by (simp add: html_result_def html_abs_def)
  then show ?thesis
    using assms html_names_blind(1) [of t] html_names_blind(1) [of "t\<lparr>nochange_pre := True\<rparr>"]
    by (simp add: html_run_def html_fit_def pend_def)
qed

lemma wp_html_comment_run:
  assumes "html_run K c" "hd (stk c) \<in> html_comment_states" "0 < count c"
  shows "wp {f. K = fail f} (ngx_minify_html_strip_comment c) (html_goes K c)"
  unfolding ngx_minify_html_strip_comment_def
proof (rule wp_machine_measure [where S = html_comment_states])
  fix t x
  assume t: "html_run K t" "hd (stk t) = x" "x \<in> html_comment_states" "0 < count t"
  note ok = html_run_parts [OF t(1)]
  have st: "stk t = [x, html_state_tag_bang, minify_state_text]"
    using html_shapes(4) [OF ok(2)] t(2,3) by blast
  have K: "html_result t = K" by (rule html_blind [OF t(1) _ t(4)]) (use t(2,3) in auto)
  have top: "hd (stk t) \<notin> insert minify_state_text html_name_states" using t(2,3) by auto
  consider "x = html_state_comment" | "x = html_state_comment_ie" | "x = html_state_comment_skip"
    using t(3) by blast
  then show "wp {f. K = fail f}
      (if x = html_state_comment then next_of (html_case_comment t)
       else if x = html_state_comment_ie then next_of (html_case_comment_ie t)
       else if x = html_state_comment_skip then next_of (html_case_comment_skip t)
       else ret (Break t))
      (\<lambda>r. case r of Next d \<Rightarrow> html_goes K t d | Break d \<Rightarrow> False)"
  proof cases
    case 1
    then show ?thesis
      using html_to_goes [OF html_comment_result [OF ok(1) t(4) _ ok(3), unfolded K] top] st by simp
  next
    case 2
    then show ?thesis
      using html_to_goes [OF html_ie_result [OF ok(1) t(4) _ ok(3), unfolded K] top] st by simp
  next
    case 3
    then show ?thesis
      using html_to_goes [OF html_drop_result [OF ok(1) t(4) _ ok(3), unfolded K] top] st by simp
  qed
qed (use assms html_run_parts in auto)

lemma wp_html_tag_run:
  assumes "html_run K c" "hd (stk c) \<in> html_tag_states" "0 < count c"
  shows "wp {f. K = fail f} (ngx_minify_html_strip_tag c) (html_goes K c)"
  unfolding ngx_minify_html_strip_tag_def
proof (rule wp_machine_measure [where S = html_tag_states])
  fix t x
  assume t: "html_run K t" "hd (stk t) = x" "x \<in> html_tag_states" "0 < count t"
  note ok = html_run_parts [OF t(1)]
  have K: "html_result t = K" by (rule html_blind [OF t(1) _ t(4)]) (use t(2,3) in \<open>auto simp: html_tag_states_def\<close>)
  have st: "stk t = [x, minify_state_text]" if "x \<in> {html_state_tag, html_state_tag_bang, html_state_cdata}"
    using html_shapes(2) [OF ok(2)] t(2) that by blast
  have top: "hd (stk t) \<notin> insert minify_state_text html_name_states"
    if "x \<in> {html_state_tag, html_state_tag_bang, html_state_cdata}"
    using t(2) that by auto
  have pre: "recorded (last_out t) (pre_char t) = pre_char t" if "x = html_state_tag_bang"
    using t(1,2,4) that by (simp add: html_run_def)
  have "wp {f. K = fail f} (html_case_tag t) (html_goes K t)" if "x = html_state_tag"
    using html_to_goes [OF html_tag_result [OF ok(1) t(4) _ ok(3), unfolded K] top] st that by simp
  moreover have "wp {f. K = fail f} (html_case_tag_bang t) (html_goes K t)" if "x = html_state_tag_bang"
    using html_to_goes [OF html_bang_result [OF ok(1) t(4) _ ok(3) pre, unfolded K] top] st that by simp
  moreover have "wp {f. K = fail f} (html_case_cdata t) (html_goes K t)" if "x = html_state_cdata"
    using html_to_goes [OF html_cdata_result [OF ok(1) t(4) _ ok(3), unfolded K] top] st that by simp
  moreover note wp_html_names_result [OF t(1) _ t(4)] wp_html_comment_run [OF t(1) _ t(4)]
  ultimately show "wp {f. K = fail f}
      (if x = html_state_tag then next_of (html_case_tag t)
       else if x = html_state_tag_bang then next_of (html_case_tag_bang t)
       else if x = html_state_cdata then next_of (html_case_cdata t)
       else if x \<in> {html_state_tagname, html_state_tagname_end, html_state_tagatt} then
         next_of (ngx_minify_html_strip_tagname t)
       else if x \<in> {html_state_comment, html_state_comment_ie, html_state_comment_skip} then
         next_of (ngx_minify_html_strip_comment t)
       else if x = html_state_skip then ret (Break (t\<lparr>nochange_pre := True\<rparr>))
       else ret (Break t))
      (\<lambda>r. case r of Next d \<Rightarrow> html_goes K t d | Break d \<Rightarrow> False)"
    using t(2,3) unfolding html_tag_states_def by auto
next
  fix t x
  assume t: "html_run K t" "hd (stk t) = x" "x \<notin> html_tag_states"
  then show "wp {f. K = fail f}
      (if x = html_state_tag then next_of (html_case_tag t)
       else if x = html_state_tag_bang then next_of (html_case_tag_bang t)
       else if x = html_state_cdata then next_of (html_case_cdata t)
       else if x \<in> {html_state_tagname, html_state_tagname_end, html_state_tagatt} then
         next_of (ngx_minify_html_strip_tagname t)
       else if x \<in> {html_state_comment, html_state_comment_ie, html_state_comment_skip} then
         next_of (ngx_minify_html_strip_comment t)
       else if x = html_state_skip then ret (Break (t\<lparr>nochange_pre := True\<rparr>))
       else ret (Break t))
      (\<lambda>r. case r of Next d \<Rightarrow> False | Break d \<Rightarrow> html_run K d \<and> html_measure d = html_measure t)"
    using html_run_frozen [OF t(1)] by (simp add: html_tag_states_def)
qed (use assms html_run_parts in auto)

text \<open>The main loop.\<close>

lemma html_run_record:
  assumes "html_run K d"
  shows "html_run K (pre_recorded d)"
  using assms html_fit_flags(1) [of d] unfolding html_run_def
  by (cases "hd (stk d) = html_state_tag_bang") simp_all

lemma wp_html_switch_run:
  assumes "html_run K c" "pre_recorded c = c \<or> last_out c = None" "0 < count c"
  shows "wp {f. K = fail f} (html_switch c) (\<lambda>d. html_run K (pre_recorded d) \<and> html_measure d < html_measure c)"
proof -
  note ok = html_run_parts [OF assms(1)]
  obtain s ss where s: "stk c = s # ss" using ok(4) by (cases "stk c") auto
  have sw: "switch_state c k = k s" for k :: "ngx_minify_state_e \<Rightarrow> ngx_minify_ctx outcome"
    using s ok(1) by (simp add: switch_state_ok)
  have rec: "pre_recorded c = c" using assms(2) by (auto simp: pre_recorded_def last_out_def split: if_splits)
  then have K: "html_result c = K" using assms(1) by (simp add: html_run_def)
  have to: "wp F m (html_to K e) \<Longrightarrow> hd (stk e) \<notin> html_name_states \<Longrightarrow>
      wp F m (\<lambda>d. html_run K (pre_recorded d) \<and> html_measure d < html_measure e)" for F m e
    by (erule wp_mono) (blast intro: html_to_run_recorded html_to_measure)
  have abort: "wp {f. K = fail f} (ngx_minify_copy_rpos c) (html_to K c)" if "s = minify_state_abort"
  proof -
    obtain x xs where r: "rest c = x # xs" using rest_cases [OF ok(1) assms(3)] by metis
    have "stk c = [minify_state_abort]" using html_shapes(1) [OF ok(2)] s that by simp
    then show ?thesis
      using html_result_step [OF ok(1) assms(3) r] ok r assms(3) held_Nil [OF ok(1) assms(3)] unfolding K [symmetric]
      by (auto simp: op_simps view_simps html_to_simps)
  qed
  have tx: "wp {f. K = fail f} (html_case_text (c\<lparr>nochange_pre := False\<rparr>)) (html_to K (c\<lparr>nochange_pre := False\<rparr>))"
    if "s = minify_state_text"
  proof -
    let ?d = "c\<lparr>nochange_pre := False\<rparr>"
    have st: "stk c = [minify_state_text]" using html_shapes(1) [OF ok(2)] s that by simp
    then have d: "html_fit ?d" "html_result ?d = K"
      using ok(3) by (simp_all add: html_fit_def K [symmetric] html_result_def html_abs_def)
    show ?thesis using html_text_result [of ?d, unfolded d(2)] d(1) ok(1) assms(3) st by simp
  qed
  have skp: "wp {f. K = fail f} (html_case_skip c) (html_to K c)" if "s = html_state_skip"
    using html_skip_result [OF ok(1) assms(3) _ ok(3), unfolded K] html_shapes(1) [OF ok(2)] s that by simp
  have tg: "wp {f. K = fail f} (ngx_minify_html_strip_tag c) (\<lambda>d. html_run K (pre_recorded d) \<and> html_measure d < html_measure c)"
    if "s \<in> html_tag_states"
    by (rule wp_mono [OF wp_html_tag_run [OF assms(1) _ assms(3)]]) (use that s in \<open>auto intro: html_run_record\<close>)
  have "s \<in> html_tag_states \<union> {minify_state_abort, minify_state_text, html_state_skip}"
    using s ok(2) by (auto simp: html_stacks_def html_tag_states_def)
  then consider "s = minify_state_abort" | "s = minify_state_text" | "s = html_state_skip" | "s \<in> html_tag_states"
    by blast
  then show ?thesis
  proof cases
    case 1
    then show ?thesis using to [OF abort] s by (simp add: html_switch_def sw)
  next
    case 2
    then show ?thesis using to [OF tx] s by (simp add: html_switch_def sw)
  next
    case 3
    then show ?thesis using to [OF skp] s by (simp add: html_switch_def sw)
  next
    case 4
    then show ?thesis using tg by (auto simp: html_switch_def sw html_tag_states_def)
  qed
qed

text \<open>
  Between two buffers: as in \<open>html_idle\<close>, and a declaration that is held back has its first three
  bytes, a name that is skipped has no zero byte.
\<close>

definition html_paused :: "ngx_minify_type_e \<Rightarrow> ngx_minify_ctx \<Rightarrow> bool" where
  "html_paused T c = (html_idle T c \<and> count c = 0 \<and> html_fit c)"

lemma html_process_scan:
  assumes "html_paused T c" "length (held c @ b) < 2 ^ 31"
  shows "(\<exists>f. html_scan (html_abs c) None (held c @ b) = fail f \<and>
      ngx_minify_html_process (held c @ b) (c\<lparr>cachelen := 0\<rparr>) = fail f) \<or>
    (\<exists>o' d. html_scan (html_abs c) None (held c @ b) = ret (o', html_abs d, held d) \<and>
      ngx_minify_html_process (held c @ b) (c\<lparr>cachelen := 0\<rparr>) = ret (o', d) \<and> html_paused T d)"
proof -
  let ?c = "c\<lparr>cachelen := 0\<rparr>" and ?src = "held c @ b"
  let ?l = "loaded ?src ?c"
  let ?K = "html_result ?l"
  let ?P = "\<lambda>t. html_run ?K t \<and> (pre_recorded t = t \<or> last_out t = None)"
  let ?F = "tag_faults \<inter> {f. ?K = fail f}"
  have T: "ctype ?c = T" and idle: "idle_ok c" "stk c \<in> html_stacks" and fit: "html_fit c" "count c = 0"
    using assms(1) by (simp_all add: html_paused_def html_idle_def)
  have ok: "buf_ok ?l"
    using pass_inv_loaded [of ?c id ?src] idle(1) by (auto intro: pass_inv_buf_ok idle_ok_clear_cache)
  have names: "tname ?l = tname c" "ename ?l = ename c" "tagcachelen ?l = tagcachelen c"
    "tagendcachelen ?l = tagendcachelen c" "nochange_pre ?l = nochange_pre c"
    by (simp_all add: loaded_def tname_def ename_def)
  have pend: "take n (pend ?l) = take n (held c)" "n \<le> length (pend ?l)" if "n \<le> length (held c)" "0 < n" for n
    using that by (simp_all add: pend_def)
  have four: "4 \<le> length (held c)" if "take 4 (held c) = ''<!--''"
    using arg_cong [OF that, of length] by simp
  have len: "3 \<le> length (held c) \<Longrightarrow> take 2 (pend ?l) = take 2 (held c) \<and> 3 \<le> length (pend ?l)"
    "take 4 (held c) = ''<!--'' \<Longrightarrow> take 4 (pend ?l) = ''<!--''"
    using pend [of 2] pend [of 3] pend [of 4] four by simp_all
  have lfit: "html_fit ?l"
    using fit len names by (auto simp: html_fit_def pend_def [of c])
  have lrec: "pre_recorded ?l = ?l" by (simp add: pre_recorded_def)
  have lrun: "?P ?l" using ok idle(2) lfit lrec by (simp add: html_run_def)
  have opens: "opens t" if "html_fit t" for t using that by (simp add: html_fit_def opens_def)
  have W: "wp ?F (ngx_minify_html_process ?src ?c)
    (\<lambda>(o', d). idle_ok d \<and> ?P d \<and> count d = 0 \<and> rest d = [] \<and> ctype d = ctype ?c \<and> o' = out d \<and>
      subseq (map id (o' @ held d)) (map id ?src))"
    unfolding ngx_minify_html_process_def html_strip_buffer_loaded [OF assms(2)]
  proof (rule wp_buffer_loop_rec [where \<mu> = html_measure and R = "\<lambda>d. html_run ?K (pre_recorded d)"])
    fix t assume t: "pass_inv (ctype ?c) id ?src t" "?P t" "0 < count t"
    then have "html_ok T ?src t"
      using html_run_parts [of ?K t] opens [of t] unfolding T by (simp add: html_ok_def)
    from wp_both [OF wp_html_switch [OF this t(3)] wp_html_switch_run [of ?K t]]
    show "wp ?F (html_switch t) (\<lambda>d. pass_inv (ctype ?c) id ?src d \<and> html_run ?K (pre_recorded d) \<and>
        html_measure d < html_measure t)"
      unfolding T by (rule wp_mono) (use t in \<open>auto simp: html_ok_def\<close>)
  qed (use lrun idle in \<open>auto simp: idle_ok_clear_cache\<close>)
  have K: "?K = html_scan (html_abs c) None ?src"
  proof -
    have fields: "stk ?l = stk c" "pre_char ?l = pre_char c" by simp_all
    have "html_abs ?l = html_abs c" unfolding html_abs_def names fields by (rule refl)
    moreover have "held ?l = []" by (simp add: loaded_def held_def)
    ultimately show ?thesis by (simp add: html_result_def)
  qed
  from W show ?thesis
  proof (cases rule: wp_cases)
    case (returns r)
    then obtain o' d where r: "ngx_minify_html_process ?src ?c = ret (o', d)" "idle_ok d" "?P d" "count d = 0"
      "rest d = []" "ctype d = T" "o' = out d" unfolding T by (cases r) auto
    then have run: "html_run ?K d" "pre_recorded d = d" by (auto simp: pre_recorded_def last_out_def split: if_splits)
    note parts = html_run_parts [OF run(1)]
    have "?K = html_result d" using run by (simp add: html_run_def)
    then have "html_scan (html_abs c) None ?src = ret (o', html_abs d, held d)"
      unfolding K using r(5,7) by (simp add: html_result_def)
    moreover have "html_paused T d"
      using r(2,4,6) parts by (auto simp: html_paused_def html_idle_def html_fit_def pend_def)
    ultimately show ?thesis using r(1) by blast
  next
    case (faults f)
    then show ?thesis using K by auto
  qed
qed

section \<open>Cuts\<close>

text \<open>
  A buffer may end anywhere but in a comment, a CDATA section or the state of errors: there the
  scanner steps over several bytes at once, and how many it sees matters. \<open>html_short\<close>: too few
  bytes are left for such a state to be left.
\<close>

fun html_open :: "html_st \<Rightarrow> bool" where
  "html_open (HIe p t) = False"
| "html_open (HDrop p t) = False"
| "html_open (HCdata t) = False"
| "html_open HAbort = False"
| "html_open _ = True"

fun html_short :: "html_st \<Rightarrow> char list \<Rightarrow> bool" where
  "html_short (HIe p t) xs = (length xs < 4)"
| "html_short (HDrop p t) xs = (length xs < 3)"
| "html_short (HCdata t) xs = (length xs < 3)"
| "html_short HAbort xs = True"
| "html_short _ xs = False"

text \<open>The bytes that a declaration and a comment know to be there.\<close>

fun html_fed :: "html_st \<Rightarrow> char list \<Rightarrow> bool" where
  "html_fed (HBang p t) xs = (3 \<le> length xs)"
| "html_fed (HComment p t) xs = (4 \<le> length xs)"
| "html_fed _ xs = True"

lemma emitO_ret: "emitO ys r = ret (o1, st, h) \<longleftrightarrow> (\<exists>o2. r = ret (o2, st, h) \<and> o1 = ys @ o2)"
  by (auto simp: emitO_def bindO_def split: option.splits sum.splits prod.splits)

lemma html_scan_short:
  "html_short st xs \<Longrightarrow> html_scan st l xs = ret (o1, st1, h1) \<Longrightarrow> \<not> html_open st1"
proof (induction "length xs" arbitrary: st l xs o1 rule: less_induct)
  case less
  show ?case
  proof (cases xs)
    case Nil
    then show ?thesis using less.prems by (cases st) auto
  next
    case (Cons x ys)
    have step: "\<exists>st'. html_step st l x ys = HHold st' \<and> \<not> html_open st' \<or>
        (\<exists>n w. html_step st l x ys = HMove n w st' \<and> html_short st' (drop n ys))"
      using less.prems(1) Cons by (cases st) (auto simp: ie_step_def)
    then consider st' where "html_step st l x ys = HHold st'" "\<not> html_open st'"
      | n w st' where "html_step st l x ys = HMove n w st'" "html_short st' (drop n ys)" by blast
    then show ?thesis
    proof cases
      case 1
      then show ?thesis using less.prems(2) Cons by (simp add: html_scan.simps(2))
    next
      case 2
      then obtain o2 where o2: "html_scan st' (last_of l w) (drop n ys) = ret (o2, st1, h1)"
        using less.prems(2) Cons by (auto simp: html_scan.simps(2) emitO_ret)
      have "length (drop n ys) < length xs" using Cons by simp
      from less.hyps [OF this 2(2) o2] show ?thesis .
    qed
  qed
qed

lemma ie_append:
  assumes "ie_step p t xs = HMove n ys st'" "xs \<noteq> []" "\<not> html_short st' (drop (Suc n) xs)"
  shows "ie_step p t (xs @ b) = HMove n ys st' \<and> n < length xs"
  using assms by (auto simp: ie_step_def split: if_splits)

lemma comment_append:
  assumes "comment_step p t xs = HMove n ys st'" "4 \<le> length xs" "\<not> html_short st' (drop (Suc n) xs)"
  shows "comment_step p t (xs @ b) = HMove n ys st' \<and> n < length xs"
proof -
  have "4 < length xs" using assms(1,2) by (auto simp: comment_step_def split: if_splits)
  then have "(xs @ b) ! 4 = xs ! 4" "length (xs @ b) \<noteq> 4" by (simp_all add: nth_append)
  moreover have "xs \<noteq> []" using assms(2) by auto
  ultimately show ?thesis
    using assms ie_append [of p t xs n ys st' b] \<open>4 < length xs\<close>
    unfolding comment_step_def by (auto split: if_splits)
qed

lemma bang_append:
  assumes "bang_step p t xs = HMove n ys st'" "3 \<le> length xs" "\<not> html_short st' (drop (Suc n) xs)"
  shows "bang_step p t (xs @ b) = HMove n ys st' \<and> n < length xs"
proof -
  have "(xs @ b) ! 2 = xs ! 2" using assms(2) by (simp add: nth_append)
  then show ?thesis
    using assms comment_append [of p t xs n ys st' b]
    unfolding bang_step_def by (auto simp: nth_append split: if_splits)
qed

lemma html_step_append:
  assumes "html_step st l x xs = HMove n ys st'" "html_fed st (x # xs)" "\<not> html_short st' (drop n xs)"
  shows "html_step st l x (xs @ b) = HMove n ys st' \<and> n \<le> length xs"
proof (cases st)
  case (HText p t)
  then show ?thesis
    using assms bang_append [of "recorded l p" t "x # xs" n ys st' b]
    by (auto split: if_splits list.splits simp: Cons_eq_append_conv Suc_le_eq)
next
  case (HBang p t)
  then show ?thesis using assms bang_append [of p t "x # xs" n ys st' b] by auto
next
  case (HComment p t)
  then show ?thesis using assms comment_append [of p t "x # xs" n ys st' b] by auto
next
  case (HIe p t)
  then show ?thesis using assms ie_append [of p t "x # xs" n ys st' b] by auto
qed (use assms in \<open>auto simp: name_step_def Cons_eq_append_conv split: if_splits list.splits\<close>)

lemma bang_holds:
  assumes "bang_step p t xs = HHold st1" "3 \<le> length xs" "html_open st1"
  shows "(\<forall>l x ys. xs @ b = x # ys \<longrightarrow> html_step st1 l x ys = bang_step p t (xs @ b)) \<and> html_fed st1 xs"
proof -
  have nth: "(xs @ b) ! 2 = xs ! 2" using assms(2) by (simp add: nth_append)
  consider "st1 = HBang p t" | "st1 = HComment p t" "4 \<le> length xs" "take 4 xs = ''<!--''" "xs ! 2 = CHR ''-''"
    using assms(1,3) by (auto simp: bang_step_def comment_step_def ie_step_def split: if_splits)
  then show ?thesis
  proof cases
    case 1
    then show ?thesis using assms(2) by (auto simp del: append_eq_Cons_conv)
  next
    case 2
    then have "bang_step p t (xs @ b) = comment_step p t (xs @ b)"
      using nth by (simp add: bang_step_def)
    then show ?thesis using 2 by auto
  qed
qed

lemma html_step_hold:
  assumes "html_step st l x xs = HHold st1" "html_fed st (x # xs)" "html_open st1"
  shows "html_step st1 l x (xs @ b) = html_step st l x (xs @ b) \<and> html_fed st1 (x # xs)"
proof (cases st)
  case (HText p t)
  then consider "x = CHR ''<''" "xs = []" "st1 = HText (recorded l p) t"
    | "x = CHR ''<''" "xs = [CHR ''!'']" "st1 = HText (recorded l p) t"
    | (bang) z zs where "x = CHR ''<''" "xs = CHR ''!'' # z # zs" "bang_step (recorded l p) t (x # xs) = HHold st1"
    using assms(1) by (auto split: if_splits list.splits simp: neq_Nil_conv)
  then show ?thesis
  proof cases
    case bang
    then show ?thesis
      using bang_holds [OF bang(3) _ assms(3), of b] HText by (simp add: numeral_2_eq_2)
  qed (use HText in \<open>simp_all split: list.splits\<close>)
next
  case (HBang p t)
  then show ?thesis using assms bang_holds [of p t "x # xs" st1 b] by auto
next
  case (HComment p t)
  then have "st1 = HComment p t"
    using assms(1,3) by (auto simp: comment_step_def ie_step_def split: if_splits)
  then show ?thesis using HComment assms(2) by simp
qed (use assms in \<open>auto simp: name_step_def ie_step_def split: if_splits list.splits\<close>)

lemma html_move_fed:
  "html_step st l x xs = HMove n ys st' \<Longrightarrow> html_fed st' zs"
  by (cases st) (auto simp: name_step_def ie_step_def comment_step_def bang_step_def split: if_splits list.splits)

lemma html_scan_append:
  assumes "html_fed st b1" "html_scan st l b1 = ret (o1, st1, h1)" "html_open st1"
  shows "html_scan st l (b1 @ b2) = emitO o1 (html_scan st1 (last_of l o1) (h1 @ b2))"
  using assms(1,2)
proof (induction "length b1" arbitrary: st l b1 o1 rule: less_induct)
  case less
  show ?case
  proof (cases b1)
    case Nil
    then show ?thesis using less.prems by simp
  next
    case (Cons x xs)
    consider st' where "html_step st l x xs = HHold st'"
      | n ys st' where "html_step st l x xs = HMove n ys st'" | f where "html_step st l x xs = HFault f"
      by (cases "html_step st l x xs") auto
    then show ?thesis
    proof cases
      case 1
      then have e: "o1 = []" "st' = st1" "h1 = x # xs"
        using less.prems(2) Cons by (simp_all add: html_scan.simps(2))
      have "html_step st1 l x (xs @ b2) = html_step st l x (xs @ b2)"
        using html_step_hold [of st l x xs st1 b2] 1 e less.prems(1) assms(3) Cons by simp
      then show ?thesis using Cons e by (simp add: html_scan.simps(2))
    next
      case 2
      then obtain o2 where o2: "html_scan st' (last_of l ys) (drop n xs) = ret (o2, st1, h1)" "o1 = ys @ o2"
        using less.prems(2) Cons by (auto simp: html_scan.simps(2) emitO_ret)
      have "\<not> html_short st' (drop n xs)" using html_scan_short [OF _ o2(1)] assms(3) by blast
      then have st: "html_step st l x (xs @ b2) = HMove n ys st'" "n \<le> length xs"
        using html_step_append [OF 2, of b2] less.prems(1) Cons by simp_all
      have "length (drop n xs) < length b1" using Cons by simp
      from less.hyps [OF this html_move_fed [OF 2] o2(1)] show ?thesis
        using Cons st o2(2) by (simp add: html_scan.simps(2))
    next
      case 3
      then show ?thesis using less.prems(2) Cons by (simp add: html_scan.simps(2))
    qed
  qed
qed

text \<open>
  Where the byte a state carries is the last one written, a scan goes on as if nothing had been
  written; in the attributes of a tag, where that byte is no space.
\<close>

fun html_settled :: "html_st \<Rightarrow> char option \<Rightarrow> bool" where
  "html_settled (HText p t) l = (recorded l p = p)"
| "html_settled (HBang p t) l = (recorded l p = p)"
| "html_settled (HComment p t) l = (recorded l p = p)"
| "html_settled (HDrop p t) l = (recorded l p = p)"
| "html_settled (HAtt t) l = (l \<noteq> Some SP)"
| "html_settled _ l = True"

lemma html_settled_step:
  assumes "html_settled st l"
  shows "html_step st l x xs = html_step st None x xs"
  using assms by (cases st) (auto split: list.splits)

lemma silent_steps:
  "xs \<noteq> [] \<Longrightarrow> comment_step p t xs = HMove n [] st' \<Longrightarrow> st' = HDrop p t"
  "xs \<noteq> [] \<Longrightarrow> bang_step p t xs = HMove n [] st' \<Longrightarrow> st' = HDrop p t"
  by (auto simp: ie_step_def comment_step_def bang_step_def split: if_splits)

lemma html_settled_next:
  assumes "html_settled st l" "html_settled st None" "html_step st l x xs = HMove n [] st'"
  shows "html_settled st' l \<and> html_settled st' None"
proof (cases st)
  case (HText p t)
  have bang: "st' = HDrop (recorded l p) t" if "bang_step (recorded l p) t (x # xs) = HMove n [] st'"
    by (rule silent_steps(2) [OF _ that]) simp
  show ?thesis
    using assms bang HText by (auto split: if_splits list.splits)
next
  case (HBang p t)
  have "st' = HDrop p t" by (rule silent_steps(2) [of "x # xs" p t n]) (use assms(3) HBang in simp_all)
  then show ?thesis using assms(1) HBang by simp
next
  case (HComment p t)
  have "st' = HDrop p t" by (rule silent_steps(1) [of "x # xs" p t n]) (use assms(3) HComment in simp_all)
  then show ?thesis using assms(1) HComment by simp
next
  case (HAtt t)
  then show ?thesis using assms by (cases xs) (auto split: if_splits)
next
  case (HSkip t)
  then show ?thesis using assms(3) by (cases xs) (auto split: if_splits)
next
  case (HCdata t)
  then show ?thesis using assms(3) by (auto split: if_splits)
next
  case (HIe p t)
  then show ?thesis using assms(3) by (auto simp: ie_step_def split: if_splits)
next
  case (HDrop p t)
  then show ?thesis using assms(1,3) by (auto split: if_splits)
next
  case (HEnd t e)
  then show ?thesis using assms(3) by (auto split: if_splits)
qed (use assms(3) in \<open>auto simp: name_step_def split: if_splits\<close>)

lemma html_scan_settled:
  "html_settled st l \<Longrightarrow> html_settled st None \<Longrightarrow> html_scan st l xs = html_scan st None xs"
proof (induction "length xs" arbitrary: st l xs rule: less_induct)
  case less
  show ?case
  proof (cases xs)
    case (Cons x ys)
    note st = html_settled_step [OF less.prems(1), of x ys]
    show ?thesis
    proof (cases "html_step st None x ys")
      case (HMove n w st')
      have "html_scan st' (last_of l w) (drop n ys) = html_scan st' (last_of None w) (drop n ys)"
      proof (cases w)
        case Nil
        have len: "length (drop n ys) < length xs" using Cons by simp
        have "html_settled st' l" "html_settled st' None"
          using html_settled_next [OF less.prems] st HMove Nil by simp_all
        from less.hyps [OF len this] show ?thesis using Nil by simp
      qed simp
      then show ?thesis using Cons st HMove by (simp add: html_scan.simps(2))
    qed (use Cons st in \<open>simp_all add: html_scan.simps(2)\<close>)
  qed simp
qed

section \<open>Texts\<close>

text \<open>Text without tags, as a reference function: the line ends and tabs go, then runs of spaces.\<close>

fun html_squeeze :: "char \<Rightarrow> string \<Rightarrow> string" where
  "html_squeeze p [] = []"
| "html_squeeze p (x # xs) = (if x = SP \<and> p = SP then html_squeeze p xs else x # html_squeeze x xs)"

definition html_blank :: "char \<Rightarrow> bool" where
  "html_blank x = (x = NL \<or> x = CR \<or> x = TAB)"

lemma html_scan_text:
  assumes "CHR ''<'' \<notin> set xs" "recorded l p = p"
  shows "\<exists>q. html_scan (HText p t) l xs = ret (html_squeeze p (filter (\<lambda>x. \<not> html_blank x) xs), HText q t, [])"
  using assms
proof (induction xs arbitrary: p l)
  case (Cons x xs)
  show ?case
  proof (cases "html_blank x \<or> x = SP \<and> p = SP")
    case True
    then have "html_step (HText p t) l x xs = HMove 0 [] (HText p t)"
      using Cons.prems by (auto simp: html_blank_def)
    then have "html_scan (HText p t) l (x # xs) = html_scan (HText p t) l xs"
      by (simp add: html_scan.simps(2))
    moreover have "html_squeeze p (filter (\<lambda>x. \<not> html_blank x) (x # xs)) =
        html_squeeze p (filter (\<lambda>x. \<not> html_blank x) xs)"
      using True by auto
    ultimately show ?thesis using Cons.IH [of l p] Cons.prems by simp
  next
    case False
    then have "html_step (HText p t) l x xs = HMove 0 [x] (HText x t)"
      using Cons.prems(1) by (auto simp: html_blank_def)
    then have "html_scan (HText p t) l (x # xs) = emitO [x] (html_scan (HText x t) (Some x) xs)"
      by (simp add: html_scan.simps(2))
    moreover have "html_squeeze p (filter (\<lambda>x. \<not> html_blank x) (x # xs)) =
        x # html_squeeze x (filter (\<lambda>x. \<not> html_blank x) xs)"
      using False by auto
    ultimately show ?thesis using Cons.IH [of "Some x" x] Cons.prems by auto
  qed
qed simp

text \<open>
  The body of a comment that the end mark behind it closes: no end mark in it, and a dash is
  followed by two bytes of the body, which are dropped with it unread.
\<close>

fun comment_body :: "string \<Rightarrow> bool" where
  "comment_body [] = True"
| "comment_body (x # xs) =
     (if x \<noteq> CHR ''-'' then comment_body xs
      else case xs of y # z # zs \<Rightarrow> \<not> (y = CHR ''-'' \<and> z = CHR ''>'') \<and> comment_body zs | _ \<Rightarrow> False)"

lemma html_scan_drop:
  "comment_body body \<Longrightarrow>
   html_scan (HDrop p t) l (body @ ''-->'' @ b) = html_scan (HText p t) l b"
proof (induction body rule: comment_body.induct)
  case 1
  show ?case by (simp add: html_scan.simps(2) [of _ _ "CHR ''-''"] numeral_2_eq_2)
next
  case (2 x xs)
  show ?case
  proof (cases "x = CHR ''-''")
    case False
    then show ?thesis using 2 by (simp add: html_scan.simps(2) [of _ _ x])
  next
    case True
    then obtain y z zs where xs: "xs = y # z # zs" "\<not> (y = CHR ''-'' \<and> z = CHR ''>'')" "comment_body zs"
      using 2(3) by (auto split: list.splits)
    from 2(2) True xs show ?thesis by (auto simp: html_scan.simps(2) [of _ _ "CHR ''-''"] numeral_2_eq_2)
  qed
qed

lemma html_scan_comment:
  assumes "comment_body body" "take 3 body \<noteq> ''[if''" "recorded l p = p"
  shows "html_scan (HText p t) l (''<!--'' @ body @ ''-->'' @ b) = html_scan (HText p t) l b"
proof -
  let ?xs = "''<!--'' @ body @ ''-->'' @ b"
  have "take 7 ?xs \<noteq> ''<!--[if''"
  proof
    assume "take 7 ?xs = ''<!--[if''"
    then have "take 3 (body @ ''-->'' @ b) = ''[if''" by simp
    with assms(2) show False by (cases body rule: comment_body.cases; cases "tl body"; cases "tl (tl body)") (auto simp: numeral_3_eq_3)
  qed
  moreover have "7 \<le> length ?xs" "length ?xs \<noteq> 4" by simp_all
  ultimately have "comment_step p t ?xs = HMove 3 [] (HDrop p t)"
    unfolding comment_step_def by (auto simp del: append.simps)
  then have "bang_step p t ?xs = HMove 3 [] (HDrop p t)"
    unfolding bang_step_def by (simp add: numeral_2_eq_2)
  then have "html_scan (HText p t) l ?xs = html_scan (HDrop p t) l (body @ ''-->'' @ b)"
    using assms(3) by (simp add: html_scan.simps(2) numeral_3_eq_3)
  then show ?thesis using html_scan_drop [OF assms(1)] by simp
qed

text \<open>The content of an element that is kept: no end tag begins in it, a bracket is copied with what follows.\<close>

fun kept_body :: "string \<Rightarrow> bool" where
  "kept_body [] = True"
| "kept_body (x # xs) =
     (if x \<noteq> CHR ''<'' then kept_body xs
      else case xs of [] \<Rightarrow> False | y # ys \<Rightarrow> y \<noteq> CHR ''/'' \<and> kept_body ys)"

lemma html_scan_kept:
  "kept_body body \<Longrightarrow>
   html_scan (HSkip t) l (body @ ''</'' @ b) =
     emitO (body @ ''</'') (html_scan (HEnd t []) (Some CHR ''/'') b)"
proof (induction body arbitrary: l rule: kept_body.induct)
  case 1
  show ?case by (simp add: html_scan.simps(2) [of _ _ "CHR ''<''"] html_scan.simps(2) [of _ _ "CHR ''/''"])
next
  case (2 x xs)
  show ?case
  proof (cases "x = CHR ''<''")
    case False
    then show ?thesis using 2(1,3) by (simp add: html_scan.simps(2) [of _ _ x])
  next
    case True
    then obtain y ys where xs: "xs = y # ys" "y \<noteq> CHR ''/''" "kept_body ys"
      using 2(3) by (auto split: list.splits)
    from 2(2) True xs show ?thesis by (simp add: html_scan.simps(2) [of _ _ "CHR ''<''"])
  qed
qed

lemma html_scan_name:
  assumes "list_all (\<lambda>x. x \<notin> {SP, CHR ''/'', CHR ''>''}) n" "length t + length n < 64"
  shows "html_scan (HName t) l (n @ CHR ''>'' # b) =
    emitO (n @ ''>'') (html_scan (if skip_name (t @ n) then HSkip (t @ n) else HText CHR ''>'' []) (Some CHR ''>'') b)"
  using assms
proof (induction n arbitrary: t l)
  case Nil
  then show ?case by (simp add: html_scan.simps(2) [of _ _ "CHR ''>''"] name_step_def)
next
  case (Cons x n)
  then show ?case by (simp add: html_scan.simps(2) [of _ _ x] name_step_def)
qed

lemma html_scan_end_name:
  assumes "list_all (\<lambda>x. x \<notin> {SP, CHR ''/'', CHR ''>''}) n" "length e + length n < 64" "t \<noteq> []" "e @ n \<noteq> []"
  shows "html_scan (HEnd t e) l (n @ CHR ''>'' # b) =
    emitO (n @ ''>'') (html_scan (if prefix t (e @ n) then HText CHR ''>'' [] else HSkip t) (Some CHR ''>'') b)"
  using assms
proof (induction n arbitrary: e l)
  case Nil
  then show ?case by (simp add: html_scan.simps(2) [of _ _ "CHR ''>''"])
next
  case (Cons x n)
  then show ?case by (simp add: html_scan.simps(2) [of _ _ x])
qed

text \<open>The caches overflow at the byte after the 64th of a name.\<close>

lemma html_scan_name_long:
  assumes "list_all (\<lambda>x. x \<notin> {SP, CHR ''/'', CHR ''>''}) n" "64 \<le> length t + length n"
  shows "html_scan (HName t) l (n @ x # b) = fail TagCacheBounds"
  using assms
proof (induction n arbitrary: t l)
  case Nil
  then show ?case by (simp add: html_scan.simps(2) [of _ _ x] name_step_def)
next
  case (Cons y n)
  then show ?case by (simp add: html_scan.simps(2) [of _ _ y] name_step_def)
qed

lemma html_scan_end_name_long:
  assumes "list_all (\<lambda>x. x \<notin> {SP, CHR ''/'', CHR ''>''}) n" "64 \<le> length e + length n" "t \<noteq> []"
    "length e \<le> 64" "x \<noteq> SP"
  shows "html_scan (HEnd t e) l (n @ x # b) = fail TagEndCacheBounds"
  using assms
proof (induction n arbitrary: e l)
  case Nil
  then show ?case by (auto simp: html_scan.simps(2) [of _ _ x])
next
  case (Cons y n)
  then show ?case by (cases "length e < 64") (simp_all add: html_scan.simps(2) [of _ _ y])
qed

lemma html_scan_name_open:
  assumes "list_all (\<lambda>x. x \<notin> {SP, CHR ''/'', CHR ''>''}) n" "n \<noteq> []" "hd n \<noteq> CHR ''!''"
  shows "html_scan (HText p t) l (CHR ''<'' # n @ b) = emitO ''<'' (html_scan (HName []) (Some CHR ''<'') (n @ b))"
proof -
  obtain y ys where n: "n = y # ys" "y \<notin> {SP, CHR ''/'', CHR ''>'', CHR ''!''}"
    using assms by (cases n) auto
  then show ?thesis by (simp add: html_scan.simps(2) [of _ _ "CHR ''<''"] html_scan.simps(2) [of _ _ y] split: html_move.split)
qed

lemma skip_name_plain:
  assumes "skip_name t"
  shows "list_all (\<lambda>x. x \<notin> {SP, CHR ''/'', CHR ''>''}) t" "length t < 7" "t \<noteq> []" "hd t \<noteq> CHR ''!''"
proof -
  have plain: "x \<notin> {SP, CHR ''/'', CHR ''>'', CHR ''!''}" if "x \<in> set t" for x
  proof
    assume "x \<in> {SP, CHR ''/'', CHR ''>'', CHR ''!''}"
    then have "tolower_c x = x" by (auto simp: tolower_c_def)
    then have "x \<in> set (map tolower_c t)" using that by (metis image_eqI set_map)
    then show False using assms \<open>x \<in> {SP, CHR ''/'', CHR ''>'', CHR ''!''}\<close>
      by (auto simp: skip_name_def html_skip_tag_def)
  qed
  then show "list_all (\<lambda>x. x \<notin> {SP, CHR ''/'', CHR ''>''}) t" by (auto simp: list_all_iff)
  have "length (map tolower_c t) \<in> {3, 5, 6}"
    using assms by (auto simp: skip_name_def html_skip_tag_def)
  then show "length t < 7" and ne: "t \<noteq> []" by auto
  then show "hd t \<noteq> CHR ''!''" using plain by (metis hd_in_set insertCI)
qed

section \<open>Properties\<close>

lemma html_fresh_paused: "html_paused T (zero_ctx\<lparr>ctype := T\<rparr>)"
proof -
  have z: "count (zero_ctx\<lparr>ctype := T\<rparr>) = 0" "tname (zero_ctx\<lparr>ctype := T\<rparr>) = []" "tagendcachelen (zero_ctx\<lparr>ctype := T\<rparr>) = 0"
    by (simp_all add: zero_ctx_def tname_def)
  then show ?thesis
    using minify_processor.inv_init [OF html_contract, of T] by (simp add: html_paused_def html_fit_def)
qed

lemma html_fresh_fields [simp]:
  "held zero_ctx = []"  "html_fresh\<lparr>cachelen := 0\<rparr> = html_fresh"  "html_abs html_fresh = HText NUL []"
  by (simp_all add: held_def html_abs_def zero_ctx_def tname_def stk_def)

abbreviation html_waiting :: "ngx_minify_ctx \<Rightarrow> bool" where
  "html_waiting \<equiv> html_paused MINIFY_FILE_TYPE_HTML"

lemma html_waiting_fed:
  assumes "html_waiting c"
  shows "html_fed (html_abs c) (held c @ b)"
proof -
  have fit: "html_fit c" "pend c = held c" using assms by (simp_all add: html_paused_def pend_def)
  have four: "4 \<le> length (held c)" if "take 4 (held c) = ''<!--''"
    using arg_cong [OF that, of length] by simp
  show ?thesis
  proof (cases "html_abs c")
    case (HBang p t)
    then have "hd (stk c) = html_state_tag_bang" by (simp add: html_abs_def split: ngx_minify_state_e.splits)
    then show ?thesis using fit HBang by (simp add: html_fit_def)
  next
    case (HComment p t)
    then have "hd (stk c) = html_state_comment" by (simp add: html_abs_def split: ngx_minify_state_e.splits)
    then show ?thesis using fit HComment four by (simp add: html_fit_def)
  qed simp_all
qed

lemma html_abs_text:
  assumes "html_waiting c" "html_abs c = HText p t"
  shows "stk c = [minify_state_text] \<and> pre_char c = p"
proof -
  have "stk c \<in> html_stacks" using assms(1) by (simp add: html_paused_def html_idle_def)
  moreover have st: "hd (stk c) = minify_state_text" "pre_char c = p"
    using assms(2) by (simp_all add: html_abs_def split: ngx_minify_state_e.splits)
  ultimately have "stk c = [hd (stk c)]" by (intro html_shapes(1)) simp_all
  then show ?thesis unfolding st using st(2) by simp
qed

lemma html_alone_settled: "html_settled st None"
  by (cases st) simp_all

text \<open>What a call puts out, or its fault.\<close>

definition output_or_fault :: "(string \<times> 's) outcome \<Rightarrow> string outcome" where
  "output_or_fault m = bindO m (\<lambda>(o', _). ret o')"

lemma output_or_fault_simps [simp]:
  "output_or_fault (ret (o', s)) = ret o'"  "output_or_fault (fail f) = fail f"  "output_or_fault None = None"
  by (simp_all add: output_or_fault_def)

lemma html_scan_output:
  assumes "length b < 2 ^ 31"
  shows "output_or_fault (ngx_minify_html_process b html_fresh) =
    output_or_fault (html_scan (HText NUL []) None b)"
  using html_process_scan [OF html_fresh_paused [of MINIFY_FILE_TYPE_HTML], of b] assms by auto

lemma html_scan_behind_text:
  assumes "ngx_minify_html_process a html_fresh = ret (o1, d1)" "stk d1 = [minify_state_text]" "held d1 = []"
    "length a < 2 ^ 31"
  shows "html_scan (HText NUL []) None (a @ bs) =
    emitO o1 (html_scan (HText (pre_char d1) (tname d1)) (last_of None o1) bs)"
proof -
  have "html_abs d1 = HText (pre_char d1) (tname d1)" using assms(2) by (simp add: html_abs_def)
  then have a: "html_scan (HText NUL []) None a = ret (o1, HText (pre_char d1) (tname d1), [])"
    using html_process_scan [OF html_fresh_paused, of MINIFY_FILE_TYPE_HTML a] assms(1,3,4) by auto
  show ?thesis using html_scan_append [OF _ a] by simp
qed

text \<open>
  C6: the HTML minifier computes its scanner. From any context between two buffers, on the bytes
  held back followed by a new buffer, the four nested machines return or overflow a tag-name cache
  exactly as the scanner does; if they return, output, state and the bytes held back are those of
  the scanner, and the context is again one between two buffers.
\<close>

theorem html_refines:
  assumes "html_waiting c" "length (held c @ b) < 2 ^ 31"
  shows "case html_scan (html_abs c) None (held c @ b) of
      None \<Rightarrow> False
    | Some (Inl f) \<Rightarrow> ngx_minify_html_process (held c @ b) (c\<lparr>cachelen := 0\<rparr>) = fail f
    | Some (Inr (o', st, h)) \<Rightarrow>
        \<exists>d. ngx_minify_html_process (held c @ b) (c\<lparr>cachelen := 0\<rparr>) = ret (o', d) \<and>
          html_abs d = st \<and> held d = h \<and> html_waiting d"
  using html_process_scan [OF assms] by auto

theorem html_refines_witness:
  "\<exists>d. ngx_minify_html_process ''<b  a = 1>x  y<!--'' html_fresh = ret (''<b a = 1>x y'', d) \<and>
     html_abs d = HComment CHR ''y'' [] \<and> held d = ''<!--'' \<and> html_waiting d"
proof -
  have "html_scan (HText NUL []) None ''<b  a = 1>x  y<!--'' = ret (''<b a = 1>x y'', HComment CHR ''y'' [], ''<!--'')"
    by code_simp
  then show ?thesis
    using html_refines [OF html_fresh_paused, of "''<b  a = 1>x  y<!--''"] by simp
qed

text \<open>
  C17: where a page may be cut. If the first of two buffers ends outside a comment, a CDATA section
  and the state of errors, and the last byte it wrote is the one the state remembers (in the
  attributes of a tag: is no space), then the two buffers give the bytes of one, or the same fault.
\<close>

theorem html_cut:
  assumes "html_waiting c" "length (held c @ b1 @ b2) < 2 ^ 31"
    and "ngx_minify_html_process (held c @ b1) (c\<lparr>cachelen := 0\<rparr>) = ret (o1, d1)"
    and "html_open (html_abs d1)" "html_settled (html_abs d1) (last_of None o1)"
  shows "output_or_fault (ngx_minify_html_process (held c @ b1 @ b2) (c\<lparr>cachelen := 0\<rparr>)) =
    bindO (output_or_fault (ngx_minify_html_process (held d1 @ b2) (d1\<lparr>cachelen := 0\<rparr>))) (\<lambda>o2. ret (o1 @ o2))"
proof -
  have len: "length (held c @ b1) < 2 ^ 31" using assms(2) by simp
  from html_process_scan [OF assms(1) len] assms(3)
  have r1: "html_scan (html_abs c) None (held c @ b1) = ret (o1, html_abs d1, held d1)" "html_waiting d1" by auto
  have "subseq (o1 @ held d1) (held c @ b1)"
    using html.process_ok [of c b1] assms(1,3) len by (auto simp: html_paused_def)
  from list_emb_length [OF this] have len2: "length (held d1 @ b2) < 2 ^ 31" using assms(2) by simp
  have "html_fed (html_abs c) (held c @ b1)"
    by (rule html_waiting_fed [OF assms(1)])
  from html_scan_append [OF this r1(1) assms(4), of b2]
  have "html_scan (html_abs c) None (held c @ b1 @ b2) = emitO o1 (html_scan (html_abs d1) None (held d1 @ b2))"
    using html_scan_settled [OF assms(5)] html_alone_settled by simp
  then show ?thesis
    using html_process_scan [OF assms(1), of "b1 @ b2"] html_process_scan [OF r1(2) len2] assms(2)
    by (auto simp: emitO_def)
qed

theorem html_cut_witness:
  "\<exists>d. ngx_minify_html_process (''<p>a<'' @ ''!-- x -->b'') html_fresh = ret (''<p>ab'', d)"
proof -
  let ?P = ngx_minify_html_process
  have "html_scan (HText NUL []) None ''<p>a<'' = ret (''<p>a'', HText CHR ''a'' [], ''<'')" by code_simp
  then obtain d1 where d1: "?P (held html_fresh @ ''<p>a<'') (html_fresh\<lparr>cachelen := 0\<rparr>) = ret (''<p>a'', d1)"
    "html_abs d1 = HText CHR ''a'' []" "held d1 = ''<''" "html_waiting d1"
    using html_process_scan [OF html_fresh_paused, of MINIFY_FILE_TYPE_HTML "''<p>a<''"] by auto
  have "html_scan (HText CHR ''a'' []) None ''<!-- x -->b'' = ret (''b'', HText CHR ''b'' [], [])" by code_simp
  then obtain d2 where d2: "?P (held d1 @ ''!-- x -->b'') (d1\<lparr>cachelen := 0\<rparr>) = ret (''b'', d2)"
    using html_process_scan [OF d1(4), of "''!-- x -->b''"] d1(2,3) by auto
  have "output_or_fault (?P (held html_fresh @ ''<p>a<'' @ ''!-- x -->b'') (html_fresh\<lparr>cachelen := 0\<rparr>)) =
      bindO (output_or_fault (?P (held d1 @ ''!-- x -->b'') (d1\<lparr>cachelen := 0\<rparr>))) (\<lambda>o2. ret (''<p>a'' @ o2))"
    by (rule html_cut [OF html_fresh_paused _ d1(1)]) (simp_all add: d1(2,3))
  then have "output_or_fault (?P (''<p>a<'' @ ''!-- x -->b'') html_fresh) = ret ''<p>ab''"
    unfolding d2 by simp
  then show ?thesis
    by (auto simp: output_or_fault_def bindO_def split: option.splits sum.splits)
qed

text \<open>
  C37: comments go. Behind text (and nothing held back, and the last byte written known to the
  state), a comment that is no conditional one, and in whose body every dash is followed by two bytes
  of the body, which the machine reads with it and which do not end the comment, can be deleted from
  a page without changing the output or the fault.
\<close>

theorem html_comment_deleted:
  assumes "length (a @ ''<!--'' @ body @ ''-->'' @ b) < 2 ^ 31" "comment_body body" "take 3 body \<noteq> ''[if''"
    and "ngx_minify_html_process a html_fresh = ret (o1, d1)" "stk d1 = [minify_state_text]" "held d1 = []"
    and "o1 = [] \<or> last o1 = pre_char d1"
  shows "output_or_fault (ngx_minify_html_process (a @ ''<!--'' @ body @ ''-->'' @ b) html_fresh) =
    output_or_fault (ngx_minify_html_process (a @ b) html_fresh)"
proof -
  let ?s = "html_scan (HText NUL []) None" and ?l = "last_of None o1" and ?st = "HText (pre_char d1) (tname d1)"
  have "?s (a @ bs) = emitO o1 (html_scan ?st ?l bs)" for bs
    using html_scan_behind_text [OF assms(4-6)] assms(1) by simp
  moreover have "recorded ?l (pre_char d1) = pre_char d1"
    using assms(7) by (auto simp: last_of_def)
  ultimately have "?s (a @ ''<!--'' @ body @ ''-->'' @ b) = ?s (a @ b)"
    using html_scan_comment [OF assms(2,3)] by simp
  then show ?thesis
    using html_scan_output [OF assms(1)] html_scan_output [of "a @ b"] assms(1) by simp
qed

theorem html_comment_deleted_witness:
  "output_or_fault (ngx_minify_html_process (''<b>x'' @ ''<!--'' @ '' y - z '' @ ''-->'' @ '' w'') html_fresh) =
    output_or_fault (ngx_minify_html_process (''<b>x'' @ '' w'') html_fresh)"
proof -
  have "html_scan (HText NUL []) None ''<b>x'' = ret (''<b>x'', HText CHR ''x'' [], [])" by code_simp
  then obtain d1 where d1: "ngx_minify_html_process ''<b>x'' html_fresh = ret (''<b>x'', d1)"
    "html_abs d1 = HText CHR ''x'' []" "held d1 = []" "html_waiting d1"
    using html_process_scan [OF html_fresh_paused, of MINIFY_FILE_TYPE_HTML "''<b>x''"] by auto
  have "stk d1 = [minify_state_text]" "pre_char d1 = CHR ''x''"
    using html_abs_text [OF d1(4,2)] by simp_all
  then show ?thesis
    by (intro html_comment_deleted [OF _ _ _ d1(1) _ d1(3)]) simp_all
qed

text \<open>
  C36: preformatted text is kept. An element \<open>pre\<close>, \<open>script\<close> or \<open>style\<close>, in any case, without
  attributes, that follows on text with nothing held back, whose content has no \<open></\<close> and no bracket
  at its end, and whose end tag is spelled as the opening one, comes out byte for byte, and behind
  it the minifier is back in the text state.
\<close>

theorem html_kept_verbatim:
  assumes "ngx_minify_html_process a html_fresh = ret (o1, d1)" "stk d1 = [minify_state_text]" "held d1 = []"
    and "skip_name name" "kept_body body"
    and "xs = ''<'' @ name @ ''>'' @ body @ ''</'' @ name @ ''>''" "length (a @ xs) < 2 ^ 31"
  shows "\<exists>d. ngx_minify_html_process (a @ xs) html_fresh = ret (o1 @ xs, d) \<and>
    stk d = [minify_state_text] \<and> held d = []"
proof -
  let ?gt = "CHR ''>''"
  note plain = skip_name_plain [OF assms(4)]
  have "length a < 2 ^ 31" using assms(7) by simp
  from html_scan_behind_text [OF assms(1-3) this]
  have "html_scan (HText NUL []) None (a @ xs) =
    emitO (o1 @ ''<'') (html_scan (HName []) (Some CHR ''<'') (name @ ''>'' @ body @ ''</'' @ name @ ''>''))"
    using html_scan_name_open [of name] plain unfolding assms(6) by simp
  also have "\<dots> = ret (o1 @ xs, HText ?gt [], [])"
    using plain assms(4) html_scan_name [OF plain(1), of "[]"]
      html_scan_kept [OF assms(5)] html_scan_end_name [OF plain(1), of "[]" name _ "[]"]
    unfolding assms(6) by simp
  finally obtain d where d: "ngx_minify_html_process (a @ xs) html_fresh = ret (o1 @ xs, d)"
    "html_abs d = HText ?gt []" "held d = []" "html_waiting d"
    using html_process_scan [OF html_fresh_paused, of MINIFY_FILE_TYPE_HTML "a @ xs"] assms(7) by auto
  then show ?thesis using html_abs_text [OF d(4,2)] by blast
qed

theorem html_kept_verbatim_witness:
  "\<exists>d. ngx_minify_html_process (''x <b>y'' @ ''<Pre>a  <b></Pre>'') html_fresh =
      ret (''x <b>y'' @ ''<Pre>a  <b></Pre>'', d) \<and>
    stk d = [minify_state_text] \<and> held d = []"
proof -
  have "html_scan (HText NUL []) None ''x <b>y'' = ret (''x <b>y'', HText CHR ''y'' [], [])" by code_simp
  then obtain d1 where d1: "ngx_minify_html_process ''x <b>y'' html_fresh = ret (''x <b>y'', d1)"
    "html_abs d1 = HText CHR ''y'' []" "held d1 = []" "html_waiting d1"
    using html_process_scan [OF html_fresh_paused, of MINIFY_FILE_TYPE_HTML "''x <b>y''"] by auto
  have "stk d1 = [minify_state_text]" "skip_name ''Pre''"
    using html_abs_text [OF d1(4,2)] by (simp, code_simp)
  then show ?thesis
    by (intro html_kept_verbatim [OF d1(1) _ d1(3), where name = "''Pre''" and body = "''a  <b>''"]) simp_all
qed

text \<open>
  C39: long tag names. Behind text, with nothing held back, a tag whose name has 64 bytes or more is
  written behind the cache of tag names, which has 64 and is not checked, at the byte after the
  64th; a tag with a shorter name comes out as it is. The same overflow happens in the cache of the
  end tags, with the name of an end tag behind the content of a skipped element, unless the byte
  after the name is a space.
\<close>

theorem html_tag_name_overflow:
  assumes "ngx_minify_html_process a html_fresh = ret (o1, d1)" "stk d1 = [minify_state_text]" "held d1 = []"
    and "list_all (\<lambda>x. x \<notin> {SP, CHR ''/'', CHR ''>''}) name" "name \<noteq> []" "hd name \<noteq> CHR ''!''"
    and "length a + length body + length name + length b < 2 ^ 30"
  shows "(64 \<le> length name \<longrightarrow>
      ngx_minify_html_process (a @ ''<'' @ name @ x # b) html_fresh = fail TagCacheBounds) \<and>
    (length name < 64 \<longrightarrow>
      output_or_fault (ngx_minify_html_process (a @ ''<'' @ name @ ''>'') html_fresh) = ret (o1 @ ''<'' @ name @ ''>'')) \<and>
    (64 \<le> length name \<longrightarrow> skip_name tag \<longrightarrow> kept_body body \<longrightarrow> x \<noteq> SP \<longrightarrow>
      ngx_minify_html_process (a @ ''<'' @ tag @ ''>'' @ body @ ''</'' @ name @ x # b) html_fresh = fail TagEndCacheBounds)"
proof (intro conjI impI)
  have "length a < 2 ^ 31" using assms(7) by simp
  note behind = html_scan_behind_text [OF assms(1-3) this]
  note fresh = html_process_scan [OF html_fresh_paused, of MINIFY_FILE_TYPE_HTML]
  have opened: "html_scan (HText NUL []) None (a @ ''<'' @ name @ y # bs) =
    emitO (o1 @ ''<'') (html_scan (HName []) (Some CHR ''<'') (name @ y # bs))" for y bs
    using html_scan_name_open [OF _ assms(5,6)] assms(4,5) unfolding behind by simp
  show "ngx_minify_html_process (a @ ''<'' @ name @ x # b) html_fresh = fail TagCacheBounds" if "64 \<le> length name"
    using fresh [of "a @ ''<'' @ name @ x # b"] opened html_scan_name_long [OF assms(4)] that assms(7) by simp
  show "output_or_fault (ngx_minify_html_process (a @ ''<'' @ name @ ''>'') html_fresh) = ret (o1 @ ''<'' @ name @ ''>'')"
    if "length name < 64"
    using html_scan_output [of "a @ ''<'' @ name @ ''>''"] opened html_scan_name [OF assms(4), of "[]" _ "[]"] that assms(7)
    by simp
  show "ngx_minify_html_process (a @ ''<'' @ tag @ ''>'' @ body @ ''</'' @ name @ x # b) html_fresh = fail TagEndCacheBounds"
    if "64 \<le> length name" "skip_name tag" "kept_body body" "x \<noteq> SP"
  proof -
    note plain = skip_name_plain [OF that(2)]
    have "html_scan (HText NUL []) None (a @ ''<'' @ tag @ ''>'' @ body @ ''</'' @ name @ x # b) = fail TagEndCacheBounds"
      using html_scan_name_open [OF _ plain(3,4)] plain that html_scan_name [OF plain(1), of "[]"]
        html_scan_kept [OF that(3)] html_scan_end_name_long [OF assms(4)]
      unfolding behind by simp
    then show ?thesis using fresh [of "a @ ''<'' @ tag @ ''>'' @ body @ ''</'' @ name @ x # b"] plain(2) assms(7) by simp
  qed
qed

theorem html_tag_name_overflow_witness:
  "ngx_minify_html_process (''x'' @ ''<'' @ replicate 70 CHR ''a'' @ CHR ''>'' # ''y'') html_fresh = fail TagCacheBounds \<and>
   ngx_minify_html_process (''x'' @ ''<'' @ ''pre'' @ ''>'' @ ''z'' @ ''</'' @ replicate 70 CHR ''a'' @ CHR ''>'' # ''y'') html_fresh =
     fail TagEndCacheBounds"
proof -
  have "html_scan (HText NUL []) None ''x'' = ret (''x'', HText CHR ''x'' [], [])" by code_simp
  then obtain d1 where d1: "ngx_minify_html_process ''x'' html_fresh = ret (''x'', d1)"
    "html_abs d1 = HText CHR ''x'' []" "held d1 = []" "html_waiting d1"
    using html_process_scan [OF html_fresh_paused, of MINIFY_FILE_TYPE_HTML "''x''"] by auto
  have "stk d1 = [minify_state_text]" using html_abs_text [OF d1(4,2)] by simp
  moreover have "skip_name ''pre''" by code_simp
  ultimately show ?thesis
    using html_tag_name_overflow [OF d1(1) _ d1(3), of "replicate 70 CHR ''a''" "''z''" "''y''" "CHR ''>''" "''pre''"]
    by (simp add: list_all_iff)
qed

text \<open>
  Text is squeezed. On a buffer without tags the minifier computes the reference function: the
  line ends and tabs are deleted, then of several spaces in a row the first is kept.
\<close>

lemma html_text_squeezed:
  assumes "CHR ''<'' \<notin> set b" "length b < 2 ^ 31"
  shows "output_or_fault (ngx_minify_html_process b html_fresh) =
    ret (html_squeeze NUL (filter (\<lambda>x. \<not> html_blank x) b))"
  using html_scan_output [OF assms(2)] html_scan_text [OF assms(1), of None NUL "[]"] by auto

lemma html_text_squeezed_witness:
  "output_or_fault (ngx_minify_html_process ('' a '' @ NL # '' b'') html_fresh) = ret '' a b''"
proof -
  have "html_squeeze NUL (filter (\<lambda>x. \<not> html_blank x) ('' a '' @ NL # '' b'')) = '' a b''" by code_simp
  then show ?thesis using html_text_squeezed [of "'' a '' @ NL # '' b''"] by simp
qed

end
