(* ===== verification/Minify_CSS_Scan.thy ===== *)
theory Minify_CSS_Scan
  imports Minify_CSS Minify_Scan
begin

text \<open>
  What the CSS minifier computes: a scanner over a list of bytes, without cursors, state stack or
  nested loops. The machine of \<open>Minify_CSS\<close> is shown to be a refinement of it; the properties of
  the minifier (comments go, quoted text stays, how the cut into buffers matters) are proved of
  the scanner.
\<close>

section \<open>The scanner\<close>

text \<open>
  The states carry the byte that decides whether a space is dropped; in a block, also whether that
  byte is frozen (\<open>nochange_pre\<close>). \<open>l\<close> is the last byte written by this call.
\<close>

datatype css_st =
    CText char
  | CComment char
  | CQuote char char
  | CBrace char bool
  | CBraceComment char
  | CBraceQuote char char bool
  | CAbort

definition block_pre :: "bool \<Rightarrow> char option \<Rightarrow> char \<Rightarrow> char" where
  "block_pre frozen l p = (if frozen then p else recorded l p)"

text \<open>At the end of a buffer a quoted text in a block freezes the byte.\<close>

fun css_leave :: "css_st \<Rightarrow> char option \<Rightarrow> css_st" where
  "css_leave (CBraceQuote q p f) l = CBraceQuote q (block_pre f l p) True"
| "css_leave st l = st"

fun css_step :: "css_st stepper" where
  "css_step (CText p) l x y =
     (if x = SP \<or> x = TAB then
        (if p = SP \<or> p = TAB then Move [] (CText (recorded l p)) False else Move [x] (CText x) False)
      else if x = CHR ''/'' then
        (case y of
           None \<Rightarrow> Hold (CText (recorded l p))
         | Some z \<Rightarrow>
             if z = CHR ''*'' then Move [] (CComment (recorded l p)) True
             else Move [x, z] (CText z) True)
      else if x = DQ \<or> x = SQ then Move [x] (CQuote x x) False
      else if x = CHR ''{'' then Move [x] (CBrace x False) False
      else if x = NL \<or> x = CR then Move [] (CText (recorded l p)) False
      else Move [x] (CText x) False)"
| "css_step (CComment p) l x y =
     (if x = CHR ''*'' then
        (case y of
           None \<Rightarrow> Hold (CComment p)
         | Some z \<Rightarrow> if z = CHR ''/'' then Move [] (CText p) True else Move [] (CComment p) False)
      else Move [] (CComment p) False)"
| "css_step (CQuote q p) l x y =
     (if x = BSL then
        (case y of
           None \<Rightarrow> Hold (CQuote q p)
         | Some z \<Rightarrow> Move [x, z] (CQuote q p) True)
      else if x = q then Move [x] (CText p) False
      else Move [x] (CQuote q p) False)"
| "css_step (CBrace p f) l x y =
     (if x = CHR ''}'' then Move [x] (CText (block_pre f (Some x) p)) False
      else if x = SP \<and> p = SP \<or> x = NL \<or> x = CR \<or> x = TAB then
        Move [] (CBrace (block_pre f l p) f) False
      else if x = CHR ''/'' then
        (case y of
           None \<Rightarrow> Hold (CBrace (block_pre f l p) f)
         | Some z \<Rightarrow>
             if z = CHR ''*'' then Move [] (CBraceComment (block_pre f l p)) True
             else Move [x, z] (CBrace (block_pre f (Some z) p) f) True)
      else if x = DQ \<or> x = SQ then Move [x] (CBraceQuote x (block_pre f (Some x) p) f) False
      else Move [x] (CBrace (block_pre f (Some x) p) f) False)"
| "css_step (CBraceComment p) l x y =
     (if x = CHR ''*'' then
        (case y of
           None \<Rightarrow> Hold (CBraceComment p)
         | Some z \<Rightarrow>
             if z = CHR ''/'' then Move [] (CBrace p True) True else Move [] (CBraceComment p) False)
      else Move [] (CBraceComment p) False)"
| "css_step (CBraceQuote q p f) l x y =
     (if x = BSL then
        (case y of
           None \<Rightarrow> Hold (CBraceQuote q (block_pre f l p) True)
         | Some z \<Rightarrow> Move [x, z] (CBraceQuote q p f) True)
      else if x = q then Move [x] (CBrace (block_pre f (Some x) p) f) False
      else Move [x] (CBraceQuote q p f) False)"
| "css_step CAbort l x y = Move [x] CAbort False"

abbreviation css_scan :: "css_st \<Rightarrow> char option \<Rightarrow> char list \<Rightarrow> char list \<times> css_st \<times> char list" where
  "css_scan \<equiv> scan css_step css_leave"

lemma block_pre_simps [simp]:
  "block_pre True l p = p"  "block_pre False l p = recorded l p"
  "block_pre f l (block_pre f l p) = block_pre f l p"
  "block_pre f None p = p"  "block_pre f (Some p) p = p"
  "block_pre f (Some y) (block_pre f l p) = block_pre f (Some y) p"
  by (simp_all add: block_pre_def)

text \<open>In a quoted text of a block the byte is only looked at when the text ends.\<close>

lemma css_scan_quote_written:
  "css_scan (CBraceQuote q p' False) (Some z) xs = css_scan (CBraceQuote q p False) (Some z) xs"
proof (induction xs arbitrary: z rule: induct_list012)
  case (3 x y xs)
  then show ?case by (simp add: scan.simps(2) [of _ _ _ _ x])
qed (simp_all add: scan.simps)

lemma css_scan_quote_pre:
  "css_scan (CBraceQuote q (block_pre f l p) f) l xs = css_scan (CBraceQuote q p f) l xs"
proof (cases xs)
  case Nil
  then show ?thesis by simp
next
  case (Cons x r)
  then show ?thesis
    using css_scan_quote_written [of q "recorded l p" _ _ p]
    by (cases f; cases r) (simp_all add: scan.simps(2) [of _ _ _ _ x])
qed

section \<open>The machine implements the scanner\<close>

text \<open>
  The scanner state of a context. \<open>b\<close> is the value to take for the freezing in a quoted text of
  a block: at the top of the machine such a text is entered frozen.
\<close>

definition css_abs :: "bool \<Rightarrow> ngx_minify_ctx \<Rightarrow> css_st" where
  "css_abs b c =
     (if stk c = [minify_state_text] then CText (pre_char c)
      else if stk c = [css_state_comment, minify_state_text] then CComment (pre_char c)
      else if stk c = [css_state_quote, minify_state_text] then CQuote (quote_char c) (pre_char c)
      else if stk c = [css_state_brace, minify_state_text] then CBrace (pre_char c) (nochange_pre c)
      else if stk c = [css_state_comment, css_state_brace, minify_state_text] then CBraceComment (pre_char c)
      else if stk c = [css_state_quote, css_state_brace, minify_state_text] then
        CBraceQuote (quote_char c) (pre_char c) (b \<or> nochange_pre c)
      else CAbort)"

text \<open>What the scanner makes of the bytes that are still to be read, behind what is written.\<close>

definition css_result :: "bool \<Rightarrow> ngx_minify_ctx \<Rightarrow> char list \<times> css_st \<times> char list" where
  "css_result b c = emit (out c) (hold (held c) (css_scan (css_abs b c) (last_out c) (rest c)))"

text \<open>
  One step from \<open>c\<close> to \<open>d\<close>: well formed, a stack of \<open>S\<close>, something consumed, the same result
  once the last byte is recorded.
\<close>

definition css_step_to ::
  "bool \<Rightarrow> ngx_minify_state_e list set \<Rightarrow> char list \<times> css_st \<times> char list \<Rightarrow> ngx_minify_ctx \<Rightarrow>
   ngx_minify_ctx \<Rightarrow> bool" where
  "css_step_to b S K c d =
     (buf_ok d \<and> stk d \<in> S \<and> css_result b (pre_recorded d) = K \<and> count d < count c)"

lemma css_step_to_flags [simp]: "css_step_to b S K (c\<lparr>nochange_pre := f\<rparr>) = css_step_to b S K c"
  by (simp add: css_step_to_def fun_eq_iff)

lemmas step_to_simps =
  css_step_to_def op_simps view_simps css_result_def css_abs_def css_brace_stacks_def css_stacks_def
  scan.simps(2) look_hd

lemma css_comment_result:
  assumes "buf_ok c" "0 < count c" "nochange_pre c"
    and "stk c = css_state_comment # ss" "ss \<in> {[minify_state_text], [css_state_brace, minify_state_text]}"
  shows "wp {} (css_case_comment c)
    (\<lambda>d. css_step_to False {css_state_comment # ss, ss} (css_result False c) c d \<and> nochange_pre d)"
  using assms(1,2)
proof (cases rule: rest_cases)
  case one
  with assms show ?thesis
    by (auto simp: css_case_comment_def op_simps inc_cached_one) (auto simp: step_to_simps)
next
  case more
  with assms show ?thesis
    by (auto simp: css_case_comment_def op_simps) (auto simp: step_to_simps)
qed

lemma css_quote_result:
  assumes "buf_ok c" "0 < count c" "stk c = css_state_quote # ss"
    and "ss = [minify_state_text] \<and> nochange_pre c \<or> ss = [css_state_brace, minify_state_text]"
  shows "wp {} (css_case_quote c)
    (\<lambda>d. css_step_to False {css_state_quote # ss, ss} (css_result False (pre_recorded c)) c d \<and>
      nochange_pre d = nochange_pre c)"
  using assms(1,2)
proof (cases rule: rest_cases)
  case one
  with assms show ?thesis
    by (auto simp: css_case_quote_def op_simps inc_cached_one) (auto simp: step_to_simps)
next
  case more
  with assms show ?thesis
    by (auto simp: css_case_quote_def op_simps)
       (auto simp: step_to_simps intro!: arg_cong [where f = "emit _"] css_scan_quote_written)
qed

lemma css_brace_result:
  assumes "buf_ok c" "0 < count c" "stk c = [css_state_brace, minify_state_text]"
  shows "wp {} (css_case_brace c)
    (css_step_to False (insert [minify_state_text] css_brace_stacks) (css_result False c) c)"
  using assms(1,2)
proof (cases rule: rest_cases)
  case one
  show ?thesis
    unfolding css_case_brace_def deref_head [OF assms(1) one(1)]
    by (intro wp_ifI; use assms one in \<open>simp add: op_simps inc_cached_one\<close>)
       (use assms one in \<open>simp_all add: step_to_simps\<close>)
next
  case (more x xs)
  show ?thesis
    unfolding css_case_brace_def deref_head [OF assms(1) more(1)] memcmp_two [OF assms(1) more(1,2)]
    by (intro wp_ifI; use assms more in \<open>simp add: op_simps\<close>)
       (use assms more in \<open>auto simp: step_to_simps\<close>)
qed

lemma css_text_result:
  assumes "buf_ok c" "0 < count c" "stk c = [minify_state_text]" "\<not> nochange_pre c"
  shows "wp {} (css_case_text c) (css_step_to True css_stacks (css_result True c) c)"
  using assms(1,2)
proof (cases rule: rest_cases)
  case one
  show ?thesis
    unfolding css_case_text_def deref_head [OF assms(1) one(1)]
    by (intro wp_ifI; use assms one in \<open>simp add: op_simps inc_cached_one\<close>)
       (use assms one in \<open>auto simp: step_to_simps\<close>)
next
  case (more x xs)
  show ?thesis
    unfolding css_case_text_def deref_head [OF assms(1) more(1)] memcmp_two [OF assms(1) more(1,2)]
    by (intro wp_ifI; use assms more in \<open>simp add: op_simps\<close>)
       (use assms more in \<open>auto simp: step_to_simps\<close>)
qed

section \<open>The loops\<close>

lemma wp_css_comment_result:
  assumes "buf_ok c" "0 < count c" "nochange_pre c" "css_result False c = K"
    and "stk c = css_state_comment # ss" "ss \<in> {[minify_state_text], [css_state_brace, minify_state_text]}"
  shows "wp {} (ngx_minify_css_strip_comment c)
    (\<lambda>d. css_step_to False {css_state_comment # ss, ss} K c d \<and> nochange_pre d \<and>
      (stk d = ss \<or> count d = 0))"
proof -
  let ?ok = "\<lambda>t. buf_ok t \<and> nochange_pre t \<and> stk t \<in> {css_state_comment # ss, ss} \<and> css_result False t = K"
  have rec: "css_result False (pre_recorded d) = css_result False d" if "nochange_pre d" for d
    using that by (simp add: css_result_def css_abs_def)
  have "wp {} (ngx_minify_css_strip_comment c)
    (\<lambda>d. ?ok d \<and> count d < count c \<and> (hd (stk d) \<notin> {css_state_comment} \<or> count d = 0))"
    unfolding ngx_minify_css_strip_comment_def
  proof (rule wp_machine [where \<mu> = "\<lambda>d. nat (count d)"])
    fix t x
    assume t: "?ok t" "hd (stk t) = x" "x \<in> {css_state_comment}" "0 < count t"
    then have st: "stk t = css_state_comment # ss" using assms(6) by auto
    have "wp {} (css_case_comment t)
      (\<lambda>d. css_step_to False {css_state_comment # ss, ss} (css_result False t) t d \<and> nochange_pre d)"
      using css_comment_result [of t ss] t st assms(6) by blast
    then have "wp {} (css_case_comment t) (\<lambda>d. ?ok d \<and> nat (count d) < nat (count t) \<and>
        count d \<le> count t \<and> (count d < count t \<or> hd (stk d) \<in> {css_state_comment}))"
      by (rule wp_mono) (use t rec in \<open>auto simp: css_step_to_def\<close>)
    then show "wp {} (if x = css_state_comment then next_of (css_case_comment t) else ret (Break t))
      (\<lambda>r. case r of
          Next d \<Rightarrow> ?ok d \<and> nat (count d) < nat (count t) \<and> count d \<le> count t \<and>
            (count d < count t \<or> hd (stk d) \<in> {css_state_comment})
        | Break d \<Rightarrow> False)"
      using t by simp
  qed (use assms in auto)
  then show ?thesis
    by (rule wp_mono) (use assms(6) rec in \<open>auto simp: css_step_to_def\<close>)
qed

lemma wp_css_quote_result:
  assumes "buf_ok c" "0 < count c" "css_result False (pre_recorded c) = K"
    and "stk c = css_state_quote # ss"
    and ss: "ss = [minify_state_text] \<and> nochange_pre c \<or> ss = [css_state_brace, minify_state_text]"
  shows "wp {} (ngx_minify_css_strip_quote c)
    (\<lambda>d. css_step_to False {css_state_quote # ss, ss} K c d \<and> nochange_pre d = nochange_pre c \<and>
      (stk d = ss \<or> count d = 0))"
proof -
  let ?ok = "\<lambda>t. buf_ok t \<and> nochange_pre t = nochange_pre c \<and> stk t \<in> {css_state_quote # ss, ss} \<and>
    css_result False (pre_recorded t) = K"
  have "wp {} (ngx_minify_css_strip_quote c)
    (\<lambda>d. ?ok d \<and> count d < count c \<and> (hd (stk d) \<notin> {css_state_quote} \<or> count d = 0))"
    unfolding ngx_minify_css_strip_quote_def
  proof (rule wp_machine [where \<mu> = "\<lambda>d. nat (count d)"])
    fix t x
    assume t: "?ok t" "hd (stk t) = x" "x \<in> {css_state_quote}" "0 < count t"
    then have st: "stk t = css_state_quote # ss" using ss by auto
    have "wp {} (css_case_quote t)
      (\<lambda>d. css_step_to False {css_state_quote # ss, ss} (css_result False (pre_recorded t)) t d \<and>
        nochange_pre d = nochange_pre t)"
      using css_quote_result [of t ss] t st ss by auto
    then have "wp {} (css_case_quote t) (\<lambda>d. ?ok d \<and> nat (count d) < nat (count t) \<and>
        count d \<le> count t \<and> (count d < count t \<or> hd (stk d) \<in> {css_state_quote}))"
      by (rule wp_mono) (use t in \<open>auto simp: css_step_to_def\<close>)
    then show "wp {} (if x = css_state_quote then next_of (css_case_quote t) else ret (Break t))
      (\<lambda>r. case r of
          Next d \<Rightarrow> ?ok d \<and> nat (count d) < nat (count t) \<and> count d \<le> count t \<and>
            (count d < count t \<or> hd (stk d) \<in> {css_state_quote})
        | Break d \<Rightarrow> False)"
      using t by simp
  qed (use assms in auto)
  then show ?thesis
    by (rule wp_mono) (use ss in \<open>auto simp: css_step_to_def\<close>)
qed

lemma css_result_quote_recorded:
  "stk c = [css_state_quote, css_state_brace, minify_state_text] \<Longrightarrow>
   css_result False (pre_recorded c) = css_result False c"
  using css_scan_quote_pre [of "quote_char c" False "last_out c" "pre_char c"]
  by (simp add: css_result_def css_abs_def)

lemma css_result_comment_frozen:
  "hd (stk c) = css_state_comment \<Longrightarrow> css_result b (c\<lparr>nochange_pre := f\<rparr>) = css_result b c"
  by (auto simp: css_result_def css_abs_def)

definition css_block_ok :: "char list \<times> css_st \<times> char list \<Rightarrow> ngx_minify_ctx \<Rightarrow> ngx_minify_ctx \<Rightarrow> bool" where
  "css_block_ok K c t =
     (buf_ok t \<and> stk t \<in> insert [minify_state_text] css_brace_stacks \<and> css_result False t = K \<and>
      (t = c \<or> pre_recorded t = t))"

lemma css_block_step:
  assumes "wp {} m (\<lambda>d. css_step_to False S K t d)" "S \<subseteq> insert [minify_state_text] css_brace_stacks"
  shows "wp {} (next_of (bindO m (seq [record_pre_char])))
    (\<lambda>r. case r of
        Next d \<Rightarrow> css_block_ok K c d \<and> nat (count d) < nat (count t) \<and> count d \<le> count t \<and>
          (count d < count t \<or> hd (stk d) \<in> X)
      | Break d \<Rightarrow> False)"
  unfolding wp_next_of wp_bindO
  by (rule wp_mono [OF assms(1)])
     (use assms(2) in \<open>auto simp: css_step_to_def css_block_ok_def op_simps dest: buf_ok_count\<close>)

lemma wp_css_brace_result:
  assumes "buf_ok c" "0 < count c" "stk c \<in> css_brace_stacks" "css_result False c = K"
  shows "wp {} (ngx_minify_css_strip_brace c)
    (\<lambda>d. css_step_to True (insert [minify_state_text] css_brace_stacks) K c d \<and>
      (stk d = [minify_state_text] \<or> count d = 0))"
proof -
  let ?S = "{css_state_brace, css_state_quote, css_state_comment}"
  have "wp {} (ngx_minify_css_strip_brace c)
    (\<lambda>d. css_block_ok K c d \<and> count d < count c \<and> (hd (stk d) \<notin> ?S \<or> count d = 0))"
    unfolding ngx_minify_css_strip_brace_def
  proof (rule wp_machine [where \<mu> = "\<lambda>d. nat (count d)"])
    fix t x
    assume t: "css_block_ok K c t" "hd (stk t) = x" "x \<in> ?S" "0 < count t"
    then have ok: "buf_ok t" "css_result False t = K" by (auto simp: css_block_ok_def)
    consider (br) "stk t = [css_state_brace, minify_state_text]"
      | (qt) "stk t = [css_state_quote, css_state_brace, minify_state_text]"
      | (cm) "stk t = [css_state_comment, css_state_brace, minify_state_text]"
      using t by (auto simp: css_block_ok_def css_brace_stacks_def)
    then show "wp {} (if x = css_state_brace then next_of (seq [css_case_brace, record_pre_char] t)
        else if x = css_state_quote then next_of (seq [ngx_minify_css_strip_quote, record_pre_char] t)
        else if x = css_state_comment then
          next_of (seq [ngx_minify_css_strip_comment, record_pre_char] (t\<lparr>nochange_pre := True\<rparr>))
        else ret (Break t))
      (\<lambda>r. case r of
          Next d \<Rightarrow> css_block_ok K c d \<and> nat (count d) < nat (count t) \<and> count d \<le> count t \<and>
            (count d < count t \<or> hd (stk d) \<in> ?S)
        | Break d \<Rightarrow> False)"
    proof cases
      case br
      then have "wp {} (css_case_brace t)
        (\<lambda>d. css_step_to False (insert [minify_state_text] css_brace_stacks) K t d)"
        using css_brace_result [OF ok(1) t(4) br] ok(2) by simp
      from css_block_step [OF this, where X = ?S and c = c] br t show ?thesis by simp
    next
      case qt
      then have "css_result False (pre_recorded t) = K"
        using ok css_result_quote_recorded by simp
      from wp_css_quote_result [OF ok(1) t(4) this qt]
      have "wp {} (ngx_minify_css_strip_quote t)
        (\<lambda>d. css_step_to False {stk t, [css_state_brace, minify_state_text]} K t d)"
        using qt by (auto intro: wp_mono)
      from css_block_step [OF this, where X = ?S and c = c] qt t show ?thesis by (simp add: css_brace_stacks_def)
    next
      case cm
      let ?t = "t\<lparr>nochange_pre := True\<rparr>"
      have "css_result False ?t = K" using ok cm css_result_comment_frozen [of t] by simp
      then have "wp {} (ngx_minify_css_strip_comment ?t)
        (\<lambda>d. css_step_to False {stk t, [css_state_brace, minify_state_text]} K ?t d)"
        using wp_css_comment_result [of ?t K "[css_state_brace, minify_state_text]"] ok t cm
        by (auto intro: wp_mono)
      from css_block_step [OF this, where X = ?S and c = c] cm t show ?thesis by (simp add: css_brace_stacks_def)
    qed
  qed (use assms in \<open>auto simp: css_block_ok_def css_brace_stacks_def\<close>)
  then show ?thesis
  proof (rule wp_mono)
    fix d assume d: "css_block_ok K c d \<and> count d < count c \<and> (hd (stk d) \<notin> ?S \<or> count d = 0)"
    then have rec: "pre_recorded d = d" by (auto simp: css_block_ok_def)
    have "rest d = []" if "count d = 0"
      using d that buf_ok_rest [of d] by (simp add: css_block_ok_def)
    moreover have "pre_char d = block_pre (nochange_pre d) (last_out d) (pre_char d)"
      using arg_cong [OF rec, of pre_char] by (simp add: block_pre_def split: if_splits)
    ultimately have "css_result True d = css_result False d"
      using d by (auto simp: css_result_def css_abs_def css_block_ok_def css_brace_stacks_def)
    then show "css_step_to True (insert [minify_state_text] css_brace_stacks) K c d \<and>
      (stk d = [minify_state_text] \<or> count d = 0)"
      using d rec by (auto simp: css_step_to_def css_block_ok_def css_brace_stacks_def)
  qed
qed

lemma wp_css_switch_result:
  assumes "buf_ok c" "0 < count c" "stk c \<in> css_stacks" "css_result True c = K"
  shows "wp {} (css_switch c) (css_step_to True css_stacks K c)"
proof -
  consider (ab) "stk c = [minify_state_abort]" | (tx) "stk c = [minify_state_text]"
    | (cm) ss where "stk c = css_state_comment # ss" "ss \<in> {[minify_state_text], [css_state_brace, minify_state_text]}"
    | (qt) ss where "stk c = css_state_quote # ss" "ss \<in> {[minify_state_text], [css_state_brace, minify_state_text]}"
    | (br) "stk c = [css_state_brace, minify_state_text]"
    using assms(3) by (auto simp: css_stacks_def css_brace_stacks_def)
  then show ?thesis
  proof cases
    case ab
    obtain x xs where r: "rest c = x # xs" using rest_cases [OF assms(1,2)] by metis
    with ab assms show ?thesis
      using held_Nil [OF assms(1,2)] by (auto simp: css_switch_def step_to_simps)
  next
    case tx
    then have "css_result True (c\<lparr>nochange_pre := False\<rparr>) = K"
      using assms(4) by (simp add: css_result_def css_abs_def)
    then have "wp {} (css_case_text (c\<lparr>nochange_pre := False\<rparr>)) (css_step_to True css_stacks K c)"
      using css_text_result [of "c\<lparr>nochange_pre := False\<rparr>"] assms tx
      by (auto simp: css_step_to_def)
    with tx assms show ?thesis by (simp add: css_switch_def op_simps)
  next
    case cm
    let ?c = "c\<lparr>nochange_pre := True\<rparr>"
    have K: "css_result False ?c = K"
      using assms(4) cm by (auto simp: css_result_def css_abs_def)
    have "wp {} (ngx_minify_css_strip_comment ?c) (css_step_to True css_stacks K c)"
      by (rule wp_mono [OF wp_css_comment_result [OF _ _ _ K, of ss]])
         (use assms cm in \<open>auto simp: css_step_to_def css_stacks_def css_brace_stacks_def
           css_result_def css_abs_def\<close>)
    with cm assms show ?thesis by (simp add: css_switch_def op_simps)
  next
    case qt
    let ?c = "c\<lparr>nochange_pre := True\<rparr>"
    have K: "css_result False (pre_recorded ?c) = K"
      using assms(4) qt by (auto simp: css_result_def css_abs_def)
    have "wp {} (ngx_minify_css_strip_quote ?c) (css_step_to True css_stacks K c)"
      by (rule wp_mono [OF wp_css_quote_result [OF _ _ K, of ss]])
         (use assms qt in \<open>auto simp: css_step_to_def css_stacks_def css_brace_stacks_def
           css_result_def css_abs_def\<close>)
    with qt assms show ?thesis by (simp add: css_switch_def op_simps)
  next
    case br
    have "css_result False c = K" using assms(4) br by (simp add: css_result_def css_abs_def)
    then have "wp {} (ngx_minify_css_strip_brace c) (css_step_to True css_stacks K c)"
      by (intro wp_mono [OF wp_css_brace_result])
         (use assms br in \<open>auto simp: css_step_to_def css_stacks_def css_brace_stacks_def\<close>)
    with br assms show ?thesis by (simp add: css_switch_def op_simps)
  qed
qed

text \<open>A call computes what the scanner computes of its buffer, whatever the file type of the context.\<close>

lemma css_process_scan:
  assumes "css_idle T c" "length (held c @ b) < 2 ^ 31"
  shows "\<exists>o' d. ngx_minify_css_process (held c @ b) (c\<lparr>cachelen := 0\<rparr>) = ret (o', d) \<and> css_idle T d \<and>
    (o', css_abs True d, held d) = css_scan (css_abs True c) None (held c @ b)"
proof -
  let ?c = "c\<lparr>cachelen := 0\<rparr>" and ?src = "held c @ b"
  let ?K = "css_result True (loaded ?src ?c)"
  have "wp {} (ngx_minify_css_process ?src ?c)
    (\<lambda>(o', d). idle_ok d \<and> (stk d \<in> css_stacks \<and> css_result True d = ?K) \<and> count d = 0 \<and>
      rest d = [] \<and> ctype d = ctype ?c \<and> o' = out d \<and> subseq (map id (o' @ held d)) (map id ?src))"
    unfolding ngx_minify_css_process_def css_strip_buffer_loaded [OF assms(2)]
  proof (rule wp_buffer_loop_rec [where \<mu> = "\<lambda>d. nat (count d)" and
        R = "\<lambda>d. stk d \<in> css_stacks \<and> css_result True (pre_recorded d) = ?K"])
    fix t assume t: "pass_inv (ctype ?c) id ?src t" "stk t \<in> css_stacks \<and> css_result True t = ?K" "0 < count t"
    have "wp {} (css_switch t) (\<lambda>d. (pass_inv (ctype ?c) id ?src d \<and> stk d \<in> css_stacks \<and> count d < count t) \<and>
      css_step_to True css_stacks ?K t d)"
      using wp_conj [OF wp_css_switch [OF t(1)] wp_css_switch_result [of t ?K]] t
      by (auto dest: pass_inv_buf_ok)
    then show "wp {} (css_switch t) (\<lambda>d. pass_inv (ctype ?c) id ?src d \<and>
      (stk d \<in> css_stacks \<and> css_result True (pre_recorded d) = ?K) \<and> nat (count d) < nat (count t))"
      by (rule wp_mono) (use t in \<open>auto simp: css_step_to_def\<close>)
  qed (use assms(1) in \<open>auto simp: css_idle_def idle_ok_clear_cache\<close>)
  then obtain o' d where d: "ngx_minify_css_process ?src ?c = ret (o', d)" "idle_ok d" "stk d \<in> css_stacks"
    "css_result True d = ?K" "rest d = []" "ctype d = ctype ?c" "o' = out d"
    by (auto simp: wp_no_fault)
  have "held (loaded ?src ?c) = []" by (simp add: loaded_def held_def)
  then have "?K = css_scan (css_abs True c) None ?src"
    by (simp add: css_result_def css_abs_def)
  moreover have "css_leave (css_abs True d) l = css_abs True d" for l by (simp add: css_abs_def)
  ultimately have "css_scan (css_abs True c) None ?src = (o', css_abs True d, held d)"
    using d(4,5,7) by (simp add: css_result_def)
  then show ?thesis using d assms(1) by (simp add: css_idle_def)
qed

interpretation css_scanned: scanned ngx_minify_css_process css_inv "css_abs True" css_step css_leave
  by (rule scanned.intro [OF _ css_process_scan]) (auto simp: css_idle_def)

section \<open>Cuts\<close>

text \<open>
  Behind a block whose byte is frozen the last byte written can be another one than the state
  carries; and a buffer that ends in a quoted text of a block freezes the byte.
\<close>

fun css_settled :: "css_st \<Rightarrow> char option \<Rightarrow> bool" where
  "css_settled (CText p) l = (l = None \<or> l = Some p)"
| "css_settled (CComment p) l = (l = None \<or> l = Some p)"
| "css_settled (CBrace p f) l = (f \<or> l = None \<or> l = Some p)"
| "css_settled (CBraceQuote q p f) l = f"
| "css_settled _ l = True"

fun css_open_cut :: "css_st \<Rightarrow> bool" where
  "css_open_cut (CBraceQuote q p f) = False"
| "css_open_cut _ = True"

lemma css_step_settled:
  "css_settled st l \<Longrightarrow>
   (case css_step st l x y of Hold _ \<Rightarrow> True | Move ys st' _ \<Rightarrow> ys = [] \<longrightarrow> css_settled st' l)"
  by (cases st; cases l; cases y) auto

interpretation css_cuts: scanner css_step css_leave css_settled css_open_cut
proof
  fix st st' :: css_st and l y :: "char option" and x z :: char and ys two
  show "css_settled st l \<Longrightarrow> css_step st l x y = css_step st None x y"
    by (cases st; cases l) (auto split del: if_split cong: if_cong option.case_cong)
  show "css_settled st l \<Longrightarrow> css_step st l x y = Move [] st' two \<Longrightarrow> css_settled st' l"
    using css_step_settled [of st l x y] by simp
  show "css_settled st l \<Longrightarrow> css_leave st l = css_leave st None"
    by (cases st) auto
  show "css_open_cut st \<Longrightarrow> css_settled st None"
    by (cases st) auto
  show "css_open_cut (css_leave st l) \<Longrightarrow> css_leave st l = st"
    by (cases st) auto
  show "css_step st l x None = Hold st' \<Longrightarrow> css_open_cut st' \<Longrightarrow> css_step st' l x y = css_step st l x y"
    by (cases st) (auto split: if_splits option.splits)
  show "css_step st l x (Some z) \<noteq> Hold st'"
    by (cases st) auto
  show "css_step st l x None = Move ys st' two \<Longrightarrow> css_step st l x y = Move ys st' two \<and> \<not> two"
    by (cases st) (auto split: if_splits)
qed

section \<open>Comments and quoted text\<close>

lemma css_scan_comment:
  "no_close body \<Longrightarrow> css_scan (CComment p) l (body @ ''*/'' @ xs) = css_scan (CText p) l xs"
  by (induction body) (auto simp: scan.simps(2) look_append look_hd split: option.splits)

lemma css_scan_comment_block:
  "no_close body \<Longrightarrow> css_scan (CBraceComment p) l (body @ ''*/'' @ xs) = css_scan (CBrace p True) l xs"
  by (induction body) (auto simp: scan.simps(2) look_append look_hd split: option.splits)

lemma css_scan_quote:
  "quoted q body \<Longrightarrow> css_scan (CQuote q p) l (body @ xs) = emit body (css_scan (CQuote q p) (last_of l body) xs)"
proof (induction q body arbitrary: l rule: quoted.induct)
  case (2 q x ys)
  then show ?case by (cases ys) (auto simp: scan.simps(2) [of _ _ _ _ x] look_append)
qed simp

section \<open>Properties\<close>

abbreviation css_fresh :: ngx_minify_ctx where
  "css_fresh \<equiv> zero_ctx\<lparr>ctype := MINIFY_FILE_TYPE_CSS\<rparr>"

lemma css_fresh_simps [simp]:
  "css_inv css_fresh"  "held zero_ctx = []"  "css_abs b css_fresh = CText NUL"
  "css_fresh\<lparr>cachelen := 0\<rparr> = css_fresh"
  using css.inv_init by (simp_all add: held_def zero_ctx_def css_abs_def stk_def)

lemma css_abs_text: "css_abs b d = CText p \<Longrightarrow> stk d = [minify_state_text] \<and> pre_char d = p"
  by (simp add: css_abs_def split: if_splits)

text \<open>
  C2: the CSS minifier computes its scanner. From any context between two buffers, on the bytes
  held back followed by a new buffer, the in-place machine returns, commits no fault, keeps the
  invariant of the context, and its output, state and held-back byte are those of the scanner;
  output and held-back byte are the input with bytes deleted.
\<close>

theorem css_refines:
  assumes "css_inv c" "length (held c @ b) < 2 ^ 31"
  shows "\<exists>o' d. ngx_minify_css_process (held c @ b) (c\<lparr>cachelen := 0\<rparr>) = ret (o', d) \<and> css_inv d \<and>
    (o', css_abs True d, held d) = css_scan (css_abs True c) None (held c @ b) \<and>
    subseq (o' @ held d) (held c @ b)"
proof -
  obtain o' d where d: "ngx_minify_css_process (held c @ b) (c\<lparr>cachelen := 0\<rparr>) = ret (o', d)" "css_inv d"
    "(o', css_abs True d, held d) = css_scan (css_abs True c) None (held c @ b)"
    using css_process_scan [OF assms] by blast
  moreover have "subseq (o' @ held d) (held c @ b)"
    using css.process_ok [OF assms] d(1) by simp
  ultimately show ?thesis by blast
qed

theorem css_refines_witness:
  "\<exists>o' d. ngx_minify_css_process ''a /* b */'' css_fresh = ret (o', d) \<and> css_inv d \<and>
    (o', css_abs True d, held d) = css_scan (CText NUL) None ''a /* b */'' \<and>
    subseq (o' @ held d) ''a /* b */''"
  using css_refines [of css_fresh "''a /* b */''"] by simp

text \<open>
  C18: where a stylesheet may be cut. If after the first buffer the minifier is not in a quoted
  text of a block, and the last byte it wrote is the one its state carries, then two buffers give
  the bytes of one, and leave the same state and the same byte held back.
\<close>

theorem css_cut:
  assumes "css_inv c" "length (held c @ b1 @ b2) < 2 ^ 31"
    and "ngx_minify_css_process (held c @ b1) (c\<lparr>cachelen := 0\<rparr>) = ret (o1, d1)"
    and "css_open_cut (css_abs True d1)" "css_settled (css_abs True d1) (last_of None o1)"
    and "ngx_minify_css_process (held d1 @ b2) (d1\<lparr>cachelen := 0\<rparr>) = ret (o2, d2)"
  shows "\<exists>d. ngx_minify_css_process (held c @ b1 @ b2) (c\<lparr>cachelen := 0\<rparr>) = ret (o1 @ o2, d) \<and>
    css_abs True d = css_abs True d2 \<and> held d = held d2"
proof -
  have len: "length (held c @ b1) < 2 ^ 31" using assms(2) by simp
  note r1 = css_scanned.process_result [OF assms(1) len assms(3)]
  have "subseq (o1 @ held d1) (held c @ b1)"
    using css.process_ok [OF assms(1) len] assms(3) by simp
  from list_emb_length [OF this] have "length (held d1 @ b2) < 2 ^ 31" using assms(2) by simp
  note r2 = css_scanned.process_result [OF conjunct1 [OF r1] this assms(6)]
  have "css_scan (css_abs True c) None ((held c @ b1) @ b2) = (o1 @ o2, css_abs True d2, held d2)"
    using css_cuts.scan_cut [OF conjunct2 [OF r1] assms(4,5), of b2] r2 by simp
  then show ?thesis using css_process_scan [of MINIFY_FILE_TYPE_CSS c "b1 @ b2"] assms(1,2) by auto
qed

theorem css_cut_witness:
  "\<exists>d. ngx_minify_css_process (''p {'' @ ''a: b }'') css_fresh = ret (''p {a: b }'', d) \<and> held d = []"
proof -
  let ?P = ngx_minify_css_process
  obtain d1 where d1: "?P (held css_fresh @ ''p {'') (css_fresh\<lparr>cachelen := 0\<rparr>) = ret (''p {'', d1)"
    "css_inv d1" "css_abs True d1 = CBrace CHR ''{'' False" "held d1 = []"
    using css_process_scan [of MINIFY_FILE_TYPE_CSS css_fresh "''p {''"] by (auto simp: scan.simps(2))
  then obtain d2 where d2: "?P (held d1 @ ''a: b }'') (d1\<lparr>cachelen := 0\<rparr>) = ret (''a: b }'', d2)" "held d2 = []"
    using css_process_scan [of MINIFY_FILE_TYPE_CSS d1 "''a: b }''"] by (auto simp: scan.simps(2))
  show ?thesis
    using css_cut [OF _ _ d1(1) _ _ d2(1)] d1(3) d2(2) by (simp add: last_of_def) blast
qed

text \<open>
  Comments go. Behind text (and nothing held back, and the last byte written known to the
  state), a comment can be deleted from a stylesheet without changing the output.
\<close>

lemma css_comment_deleted:
  assumes "length (a @ ''/*'' @ body @ ''*/'' @ b) < 2 ^ 31" "no_close body"
    and "ngx_minify_css_process a css_fresh = ret (o1, d1)" "stk d1 = [minify_state_text]" "held d1 = []"
    and "o1 = [] \<or> last o1 = pre_char d1"
  shows "\<exists>o' d d'. ngx_minify_css_process (a @ ''/*'' @ body @ ''*/'' @ b) css_fresh = ret (o', d) \<and>
    ngx_minify_css_process (a @ b) css_fresh = ret (o', d')"
proof -
  let ?s = "css_scan (CText NUL) None"
  have abs: "css_abs True d1 = CText (pre_char d1)" using assms(4) by (simp add: css_abs_def)
  have a: "?s a = (o1, CText (pre_char d1), [])"
    using css_scanned.process_result [of css_fresh a o1 d1] assms abs by simp
  have "?s (a @ bs) = emit o1 (css_scan (CText (pre_char d1)) None bs)" for bs
    using css_cuts.scan_cut [OF a] assms(6) by (auto simp: last_of_def)
  moreover have "css_scan (CText (pre_char d1)) None (''/*'' @ body @ ''*/'' @ b) =
      css_scan (CText (pre_char d1)) None b"
    using css_scan_comment [OF assms(2)] by (simp add: scan.simps(2))
  ultimately have "?s (a @ ''/*'' @ body @ ''*/'' @ b) = ?s (a @ b)" by simp
  then show ?thesis
    using css_process_scan [of MINIFY_FILE_TYPE_CSS css_fresh "a @ ''/*'' @ body @ ''*/'' @ b"]
      css_process_scan [of MINIFY_FILE_TYPE_CSS css_fresh "a @ b"] assms(1) by (auto simp flip: prod_eq_iff) (metis fst_conv)
qed

lemma css_comment_deleted_witness:
  "\<exists>o' d d'. ngx_minify_css_process (''p '' @ ''/*'' @ ''x*'' @ ''*/'' @ ''q'') css_fresh = ret (o', d) \<and>
    ngx_minify_css_process (''p '' @ ''q'') css_fresh = ret (o', d')"
proof -
  obtain d1 where "ngx_minify_css_process ''p '' css_fresh = ret (''p '', d1)"
    "stk d1 = [minify_state_text]" "held d1 = []" "pre_char d1 = SP"
    using css_process_scan [of MINIFY_FILE_TYPE_CSS css_fresh "''p ''"] by (auto simp: scan.simps(2) dest: css_abs_text)
  then show ?thesis
    by (intro css_comment_deleted [where ?o1.0 = "''p ''" and ?d1.0 = d1]) simp_all
qed

text \<open>
  Quoted text is kept. A quoted text with its escapes, white space and comment marks comes out
  byte for byte, and behind it the minifier is back in the text state.
\<close>

lemma css_quoted_verbatim:
  assumes "q \<in> {DQ, SQ}" "quoted q body" "length body < 2 ^ 30"
  shows "\<exists>d. ngx_minify_css_process (q # body @ [q]) css_fresh = ret (q # body @ [q], d) \<and>
    css_abs True d = CText q \<and> held d = []"
proof -
  have "q \<noteq> BSL" using assms(1) by auto
  then have "css_scan (CText NUL) None (q # body @ [q]) = (q # body @ [q], CText q, [])"
    using assms(1) css_scan_quote [OF assms(2)] by (auto simp: scan.simps(2))
  then show ?thesis
    using css_process_scan [of MINIFY_FILE_TYPE_CSS css_fresh "q # body @ [q]"] assms(3) by auto
qed

lemma css_quoted_verbatim_witness:
  "\<exists>d. ngx_minify_css_process (DQ # (BSL # DQ # ''  /*'') @ [DQ]) css_fresh =
     ret (DQ # (BSL # DQ # ''  /*'') @ [DQ], d) \<and> css_abs True d = CText DQ \<and> held d = []"
  by (rule css_quoted_verbatim) simp_all

text \<open>
  A comment in a block is not neutral. Behind it the byte that decides about spaces is frozen
  until the block ends: if it was a space, every later single space of the block is deleted, so
  that values of several words run together.
\<close>

lemma css_block_comment_joins_words:
  "map_option (map_sum id fst) (ngx_minify_css_process ''p{font: 12px Arial bold}'' css_fresh) =
     ret ''p{font: 12px Arial bold}'' \<and>
   map_option (map_sum id fst) (ngx_minify_css_process ''p{font: /*c*/12px Arial bold}'' css_fresh) =
     ret ''p{font: 12pxArialbold}''"
proof
  show "map_option (map_sum id fst) (ngx_minify_css_process ''p{font: 12px Arial bold}'' css_fresh) =
     ret ''p{font: 12px Arial bold}''" by code_simp
  show "map_option (map_sum id fst) (ngx_minify_css_process ''p{font: /*c*/12px Arial bold}'' css_fresh) =
     ret ''p{font: 12pxArialbold}''" by code_simp
qed

end
