(* ===== verification/Minify_JS_Scan.thy ===== *)
theory Minify_JS_Scan
  imports Minify_JS Minify_Scan
begin

text \<open>
  What the JavaScript minifier computes, as a scanner over a list of bytes, and that the machine
  of \<open>Minify_JS\<close> is a refinement of it; then the properties of the minifier: quoted text stays,
  comments go, how the cut into buffers matters, and what the byte remembered from before a quoted
  text does to a line break behind it.
\<close>

section \<open>The scanner\<close>

text \<open>
  The states carry the byte that decides about white space and line breaks. It is the last byte
  written, except behind a comment, a line break that was dropped, and a quoted text, during which
  it does not change.
\<close>

datatype js_st =
    JText char
  | JComment char
  | JLine char
  | JQuote char char
  | JAbort

definition js_keeps_nl :: "char \<Rightarrow> bool" where
  "js_keeps_nl p =
     (p \<noteq> NUL \<and> p \<noteq> NL \<and> p \<noteq> CHR '';'' \<and> p \<noteq> CHR '':'' \<and> p \<noteq> CHR ''{'' \<and> p \<noteq> CHR ''}'')"

fun js_step :: "js_st stepper" where
  "js_step (JText p) l x y =
     (if (x = SP \<or> x = TAB) \<and> (p = NL \<or> l = None \<or> p = SP \<or> p = TAB) then Move [] (JText p) False
      else if x = CHR ''/'' then
        (case y of
           None \<Rightarrow> Hold (JText (recorded l p))
         | Some z \<Rightarrow>
             if z = CHR ''*'' then Move [] (JComment (recorded l p)) True
             else if z = CHR ''/'' then Move [] (JLine (recorded l p)) True
             else Move [x, z] (JText z) True)
      else if x = DQ \<or> x = SQ \<or> x = CHR ''['' then
        Move [x] (JQuote (if x = CHR ''['' then CHR '']'' else x) p) False
      else if x = NL then
        (if js_keeps_nl p then Move [x] (JText NL) False else Move [] (JText NL) False)
      else if x = CR then Move [] (JText p) False
      else Move [x] (JText x) False)"
| "js_step (JComment p) l x y =
     (if x = CHR ''*'' then
        (case y of
           None \<Rightarrow> Hold (JComment p)
         | Some z \<Rightarrow> if z = CHR ''/'' then Move [] (JText p) True else Move [] (JComment p) False)
      else Move [] (JComment p) False)"
| "js_step (JLine p) l x y =
     (if x = NL then Move [SP] (JText NL) False else Move [] (JLine p) False)"
| "js_step (JQuote q p) l x y =
     (if x = BSL then
        (case y of
           None \<Rightarrow> Hold (JQuote q p)
         | Some z \<Rightarrow> Move [x, z] (JQuote q p) True)
      else if x = q then Move [x] (JText p) False
      else Move [x] (JQuote q p) False)"
| "js_step JAbort l x y = Move [x] JAbort False"

abbreviation js_leave :: "js_st \<Rightarrow> char option \<Rightarrow> js_st" where
  "js_leave st l \<equiv> st"

abbreviation js_scan :: "js_st \<Rightarrow> char option \<Rightarrow> char list \<Rightarrow> char list \<times> js_st \<times> char list" where
  "js_scan \<equiv> scan js_step js_leave"

section \<open>The machine implements the scanner\<close>

definition js_abs :: "ngx_minify_ctx \<Rightarrow> js_st" where
  "js_abs c =
     (if stk c = [minify_state_text] then JText (pre_char c)
      else if stk c = [js_state_comment, minify_state_text] then JComment (pre_char c)
      else if stk c = [js_state_comment_line, minify_state_text] then JLine (pre_char c)
      else if stk c = [js_state_quote, minify_state_text] then JQuote (quote_char c) (pre_char c)
      else JAbort)"

definition js_result :: "ngx_minify_ctx \<Rightarrow> char list \<times> js_st \<times> char list" where
  "js_result c = emit (out c) (hold (held c) (js_scan (js_abs c) (last_out c) (rest c)))"

definition js_step_to ::
  "ngx_minify_state_e list set \<Rightarrow> char list \<times> js_st \<times> char list \<Rightarrow> ngx_minify_ctx \<Rightarrow>
   ngx_minify_ctx \<Rightarrow> bool" where
  "js_step_to S K c d =
     (buf_ok d \<and> stk d \<in> S \<and> js_result (pre_recorded d) = K \<and> count d < count c)"

lemma js_step_to_flags [simp]: "js_step_to S K (c\<lparr>nochange_pre := f\<rparr>) = js_step_to S K c"
  by (simp add: js_step_to_def fun_eq_iff)

lemmas js_step_simps =
  js_step_to_def op_simps view_simps js_result_def js_abs_def js_stacks_def js_keeps_nl_def
  scan.simps(2) look_hd

lemma js_comment_result:
  assumes "buf_ok c" "0 < count c" "nochange_pre c" "stk c = [js_state_comment, minify_state_text]"
  shows "wp {} (js_case_comment c)
    (\<lambda>d. js_step_to {[js_state_comment, minify_state_text], [minify_state_text]} (js_result c) c d \<and> nochange_pre d)"
  using assms(1,2)
proof (cases rule: rest_cases)
  case one
  with assms show ?thesis
    by (auto simp: js_case_comment_def op_simps inc_cached_one) (auto simp: js_step_simps)
next
  case more
  with assms show ?thesis
    by (auto simp: js_case_comment_def op_simps) (auto simp: js_step_simps)
qed

lemma js_line_result:
  assumes "buf_ok c" "0 < count c" "nochange_pre c" "stk c = [js_state_comment_line, minify_state_text]"
  shows "wp {} (js_case_comment_line c)
    (\<lambda>d. js_step_to {[js_state_comment_line, minify_state_text], [minify_state_text]} (js_result c) c d \<and> nochange_pre d)"
  using assms(1,2)
proof (cases rule: rest_cases)
  case one
  with assms show ?thesis
    by (auto simp: js_case_comment_line_def op_simps) (auto simp: js_step_simps)
next
  case more
  with assms show ?thesis
    by (auto simp: js_case_comment_line_def op_simps) (auto simp: js_step_simps)
qed

lemma js_quote_result:
  assumes "buf_ok c" "0 < count c" "nochange_pre c" "stk c = [js_state_quote, minify_state_text]"
  shows "wp {} (js_case_quote c)
    (\<lambda>d. js_step_to {[js_state_quote, minify_state_text], [minify_state_text]} (js_result c) c d \<and> nochange_pre d)"
  using assms(1,2)
proof (cases rule: rest_cases)
  case one
  with assms show ?thesis
    by (auto simp: js_case_quote_def op_simps inc_cached_one) (auto simp: js_step_simps)
next
  case more
  with assms show ?thesis
    by (auto simp: js_case_quote_def op_simps) (auto simp: js_step_simps)
qed

text \<open>The text state, one lemma per kind of byte.\<close>

lemma js_step_text:
  "x = SP \<or> x = TAB \<Longrightarrow> js_step (JText p) l x y =
     (if p = NL \<or> l = None \<or> p = SP \<or> p = TAB then Move [] (JText p) False else Move [x] (JText x) False)"
  "js_step (JText p) l CHR ''/'' y = (case y of
           None \<Rightarrow> Hold (JText (recorded l p))
         | Some z \<Rightarrow>
             if z = CHR ''*'' then Move [] (JComment (recorded l p)) True
             else if z = CHR ''/'' then Move [] (JLine (recorded l p)) True
             else Move [CHR ''/'', z] (JText z) True)"
  "x = DQ \<or> x = SQ \<Longrightarrow> js_step (JText p) l x y = Move [x] (JQuote x p) False"
  "js_step (JText p) l CHR ''['' y = Move [CHR ''[''] (JQuote CHR '']'' p) False"
  "js_step (JText p) l NL y = (if js_keeps_nl p then Move [NL] (JText NL) False else Move [] (JText NL) False)"
  "js_step (JText p) l CR y = Move [] (JText p) False"
  "x \<notin> {SP, TAB, CHR ''/'', DQ, SQ, CHR ''['', NL, CR} \<Longrightarrow> js_step (JText p) l x y = Move [x] (JText x) False"
  by auto


lemma js_case_text_of:
  assumes "buf_ok c" "rest c = x # xs"
  shows
  "x = SP \<or> x = TAB \<Longrightarrow> js_case_text c =
     (if pre_char c = NL \<or> dstlen c = 0 \<or> pre_char c = SP \<or> pre_char c = TAB
      then ngx_minify_inc_rpos (c\<lparr>nochange_pre := True\<rparr>) else ngx_minify_copy_rpos c)"
  "x = DQ \<or> x = SQ \<Longrightarrow> js_case_text c =
     seq [ngx_minify_copy_rpos, CTX_PUSH_STATE js_state_quote] (c\<lparr>nochange_pre := True, quote_char := x\<rparr>)"
  "x = CHR ''['' \<Longrightarrow> js_case_text c =
     seq [ngx_minify_copy_rpos, CTX_PUSH_STATE js_state_quote] (c\<lparr>nochange_pre := True, quote_char := CHR '']''\<rparr>)"
  "x = NL \<Longrightarrow> js_case_text c =
     (if js_keeps_nl (pre_char c) then ngx_minify_copy_rpos c
      else seq [ngx_minify_inc_rpos,
        \<lambda>c. ret (c\<lparr>pre_char := NL, pre_char2 := NUL, nochange_pre := True\<rparr>)] c)"
  "x = CR \<Longrightarrow> js_case_text c = seq [ngx_minify_inc_rpos, \<lambda>c. ret (c\<lparr>nochange_pre := True\<rparr>)] c"
  "x \<notin> {SP, TAB, CHR ''/'', DQ, SQ, CHR ''['', NL, CR} \<Longrightarrow> js_case_text c = ngx_minify_copy_rpos c"
  unfolding js_case_text_def deref_head [OF assms]
  subgoal by (elim disjE) simp_all
  subgoal by (elim disjE) simp_all
  subgoal by simp
  subgoal by (simp add: js_keeps_nl_def)
  subgoal by simp
  subgoal by simp
  done

lemma js_case_text_slash:
  assumes "buf_ok c" "rest c = CHR ''/'' # xs" "0 < count c"
  shows "js_case_text c =
     (if xs = [] then seq [cache_stmt ''/'', ngx_minify_inc_rpos] c
      else if hd xs = CHR ''*'' then
        seq [ngx_minify_inc_rpos, ngx_minify_inc_rpos, CTX_PUSH_STATE js_state_comment] c
      else if hd xs = CHR ''/'' then
        seq [ngx_minify_inc_rpos, ngx_minify_inc_rpos, CTX_PUSH_STATE js_state_comment_line] c
      else seq [ngx_minify_copy_rpos, ngx_minify_copy_rpos] c)"
proof (cases xs)
  case Nil
  then show ?thesis
    using assms buf_ok_rest [OF assms(1)] by (simp add: js_case_text_def deref_head)
next
  case (Cons y ys)
  then have "xs \<noteq> []" by simp
  then show ?thesis
    unfolding js_case_text_def deref_head [OF assms(1,2)] memcmp_two [OF assms(1,2) \<open>xs \<noteq> []\<close>]
    using assms buf_ok_rest [OF assms(1)] Cons by simp
qed

lemmas js_text_simps =
  js_step_to_def op_simps view_simps js_result_def js_abs_def js_stacks_def scan.simps(2) look_hd js_step_text

lemma js_text_result:
  assumes "buf_ok c" "0 < count c" "stk c = [minify_state_text]" "\<not> nochange_pre c"
  shows "wp {} (js_case_text c) (js_step_to js_stacks (js_result c) c)"
proof -
  have h: "held c = []" by (rule held_Nil [OF assms(1,2)])
  obtain x xs where r: "rest c = x # xs" using rest_cases [OF assms(1,2)] by metis
  have dl: "(dstlen c = 0) = (last_out c = None)"
    using assms(1) by (auto simp: buf_ok_def last_out_def out_def)
  note ok = assms h r
  consider "x = SP \<or> x = TAB" | "x = CHR ''/''" | "x = DQ \<or> x = SQ" | "x = CHR ''[''" | "x = NL" | "x = CR"
    | "x \<notin> {SP, TAB, CHR ''/'', DQ, SQ, CHR ''['', NL, CR}" by blast
  then show ?thesis
  proof cases
    case 1
    show ?thesis unfolding js_case_text_of(1) [OF assms(1) r 1] dl
      using ok 1 by (simp add: js_text_simps del: js_step.simps)
  next
    case 2
    with r have r: "rest c = CHR ''/'' # xs" by simp
    note ok = assms h r js_case_text_slash [OF assms(1) r assms(2)] buf_ok_rest [OF assms(1)]
    show ?thesis
    proof (cases xs)
      case Nil
      with ok show ?thesis
        by (simp add: js_text_simps inc_cached_one del: js_step.simps)
    next
      case (Cons y ys)
      with ok show ?thesis
        by (simp add: js_text_simps del: js_step.simps)
    qed
  next
    case 3
    show ?thesis unfolding js_case_text_of(2) [OF assms(1) r 3]
      using ok 3 by (simp add: js_text_simps del: js_step.simps)
  next
    case 4
    show ?thesis unfolding js_case_text_of(3) [OF assms(1) r 4]
      using ok 4 by (simp add: js_text_simps del: js_step.simps)
  next
    case 5
    show ?thesis unfolding js_case_text_of(4) [OF assms(1) r 5]
      using ok 5 by (simp add: js_text_simps del: js_step.simps)
  next
    case 6
    show ?thesis unfolding js_case_text_of(5) [OF assms(1) r 6]
      using ok 6 by (simp add: js_text_simps del: js_step.simps)
  next
    case 7
    show ?thesis unfolding js_case_text_of(6) [OF assms(1) r 7]
      using ok js_step_text(7) [OF 7] by (simp add: js_text_simps del: js_step.simps)
  qed
qed

section \<open>The loops\<close>

lemma js_result_recorded: "nochange_pre c \<Longrightarrow> js_result (pre_recorded c) = js_result c"
  by (simp add: js_result_def js_abs_def)

lemma js_result_flag [simp]: "js_result (c\<lparr>nochange_pre := f\<rparr>) = js_result c"
  by (simp add: js_result_def js_abs_def)

lemma wp_js_comment_result:
  assumes "buf_ok c" "0 < count c" "nochange_pre c" "js_result c = K"
    and "stk c = [s, minify_state_text]" "s \<in> {js_state_comment, js_state_comment_line}"
  shows "wp {} (ngx_minify_js_strip_comment c) (js_step_to js_stacks K c)"
proof -
  let ?X = "{js_state_comment, js_state_comment_line}" and ?S = "{[s, minify_state_text], [minify_state_text]}"
  let ?ok = "\<lambda>t. buf_ok t \<and> nochange_pre t \<and> stk t \<in> ?S \<and> js_result t = K"
  have "wp {} (ngx_minify_js_strip_comment c)
    (\<lambda>d. ?ok d \<and> count d < count c \<and> (hd (stk d) \<notin> ?X \<or> count d = 0))"
    unfolding ngx_minify_js_strip_comment_def
  proof (rule wp_machine [where \<mu> = "\<lambda>d. nat (count d)"])
    fix t x
    assume t: "?ok t" "hd (stk t) = x" "x \<in> ?X" "0 < count t"
    then have st: "stk t = [x, minify_state_text]" "s = x" by auto
    have next_ok: "wp {} (next_of m)
      (\<lambda>r. case r of
          Next d \<Rightarrow> ?ok d \<and> nat (count d) < nat (count t) \<and> count d \<le> count t \<and>
            (count d < count t \<or> hd (stk d) \<in> ?X)
        | Break d \<Rightarrow> False)"
      if "wp {} m (\<lambda>d. js_step_to ?S (js_result t) t d \<and> nochange_pre d)" for m
      unfolding wp_next_of
      by (rule wp_mono [OF that]) (use t in \<open>auto simp: js_step_to_def js_result_recorded\<close>)
    show "wp {} (if x = js_state_comment then next_of (js_case_comment t)
        else if x = js_state_comment_line then next_of (js_case_comment_line t) else ret (Break t))
      (\<lambda>r. case r of
          Next d \<Rightarrow> ?ok d \<and> nat (count d) < nat (count t) \<and> count d \<le> count t \<and>
            (count d < count t \<or> hd (stk d) \<in> ?X)
        | Break d \<Rightarrow> False)"
    proof (cases "x = js_state_comment")
      case True
      then show ?thesis using next_ok [of "js_case_comment t"] js_comment_result [of t] t st by simp
    next
      case False
      then have "x = js_state_comment_line" using t by simp
      then show ?thesis using next_ok [of "js_case_comment_line t"] js_line_result [of t] t st by simp
    qed
  qed (use assms in auto)
  then show ?thesis
    by (rule wp_mono) (use assms(6) in \<open>auto simp: js_step_to_def js_result_recorded js_stacks_def\<close>)
qed

lemma wp_js_quote_result:
  assumes "buf_ok c" "0 < count c" "nochange_pre c" "js_result c = K"
    and "stk c = [js_state_quote, minify_state_text]"
  shows "wp {} (ngx_minify_js_strip_quote c) (js_step_to js_stacks K c)"
proof -
  let ?S = "{[js_state_quote, minify_state_text], [minify_state_text]}"
  let ?ok = "\<lambda>t. buf_ok t \<and> nochange_pre t \<and> stk t \<in> ?S \<and> js_result t = K"
  have "wp {} (ngx_minify_js_strip_quote c)
    (\<lambda>d. ?ok d \<and> count d < count c \<and> (hd (stk d) \<notin> {js_state_quote} \<or> count d = 0))"
    unfolding ngx_minify_js_strip_quote_def
  proof (rule wp_machine [where \<mu> = "\<lambda>d. nat (count d)"])
    fix t x
    assume t: "?ok t" "hd (stk t) = x" "x \<in> {js_state_quote}" "0 < count t"
    then have st: "stk t = [js_state_quote, minify_state_text]" by auto
    have "wp {} (js_case_quote t) (\<lambda>d. ?ok d \<and> nat (count d) < nat (count t) \<and>
        count d \<le> count t \<and> (count d < count t \<or> hd (stk d) \<in> {js_state_quote}))"
      by (rule wp_mono [OF js_quote_result [of t]])
         (use t st in \<open>auto simp: js_step_to_def js_result_recorded\<close>)
    then show "wp {} (if x = js_state_quote then next_of (js_case_quote t) else ret (Break t))
      (\<lambda>r. case r of
          Next d \<Rightarrow> ?ok d \<and> nat (count d) < nat (count t) \<and> count d \<le> count t \<and>
            (count d < count t \<or> hd (stk d) \<in> {js_state_quote})
        | Break d \<Rightarrow> False)"
      using t by simp
  qed (use assms in auto)
  then show ?thesis
    by (rule wp_mono) (auto simp: js_step_to_def js_result_recorded js_stacks_def)
qed

lemma wp_js_switch_result:
  assumes "buf_ok c" "0 < count c" "stk c \<in> js_stacks" "js_result c = K"
  shows "wp {} (js_switch c) (js_step_to js_stacks K c)"
proof -
  consider (ab) "stk c = [minify_state_abort]" | (tx) "stk c = [minify_state_text]"
    | (cm) s where "stk c = [s, minify_state_text]" "s \<in> {js_state_comment, js_state_comment_line}"
    | (qt) "stk c = [js_state_quote, minify_state_text]"
    using assms(3) by (auto simp: js_stacks_def)
  then show ?thesis
  proof cases
    case ab
    obtain x xs where r: "rest c = x # xs" using rest_cases [OF assms(1,2)] by metis
    with ab assms show ?thesis
      using held_Nil [OF assms(1,2)] by (auto simp: js_switch_def js_step_simps)
  next
    case tx
    have "wp {} (js_case_text (c\<lparr>nochange_pre := False\<rparr>)) (js_step_to js_stacks K c)"
      by (rule wp_mono [OF js_text_result]) (use assms tx in \<open>auto simp: js_step_to_def\<close>)
    with tx assms show ?thesis by (simp add: js_switch_def op_simps)
  next
    case cm
    have "wp {} (ngx_minify_js_strip_comment (c\<lparr>nochange_pre := True\<rparr>)) (js_step_to js_stacks K c)"
      by (rule wp_mono [OF wp_js_comment_result [of _ K s]]) (use assms cm in \<open>auto simp: js_step_to_def\<close>)
    with cm assms show ?thesis by (auto simp: js_switch_def op_simps)
  next
    case qt
    have "wp {} (ngx_minify_js_strip_quote (c\<lparr>nochange_pre := True\<rparr>)) (js_step_to js_stacks K c)"
      by (rule wp_mono [OF wp_js_quote_result [of _ K]]) (use assms qt in \<open>auto simp: js_step_to_def\<close>)
    with qt assms show ?thesis by (simp add: js_switch_def op_simps)
  qed
qed

text \<open>A call computes what the scanner computes of its buffer, whatever the file type of the context.\<close>

lemma js_process_scan:
  assumes "js_idle T c" "length (held c @ b) < 2 ^ 31"
  shows "\<exists>o' d. ngx_minify_js_process (held c @ b) (c\<lparr>cachelen := 0\<rparr>) = ret (o', d) \<and> js_idle T d \<and>
    (o', js_abs d, held d) = js_scan (js_abs c) None (held c @ b)"
proof -
  let ?c = "c\<lparr>cachelen := 0\<rparr>" and ?src = "held c @ b"
  let ?K = "js_result (loaded ?src ?c)"
  have "wp {} (ngx_minify_js_process ?src ?c)
    (\<lambda>(o', d). idle_ok d \<and> (stk d \<in> js_stacks \<and> js_result d = ?K) \<and> count d = 0 \<and>
      rest d = [] \<and> ctype d = ctype ?c \<and> o' = out d \<and>
      subseq (map nl_to_sp (o' @ held d)) (map nl_to_sp ?src))"
    unfolding ngx_minify_js_process_def js_strip_buffer_loaded [OF assms(2)]
  proof (rule wp_buffer_loop_rec [where \<mu> = "\<lambda>d. nat (count d)" and
        R = "\<lambda>d. stk d \<in> js_stacks \<and> js_result (pre_recorded d) = ?K"])
    fix t assume t: "pass_inv (ctype ?c) nl_to_sp ?src t" "stk t \<in> js_stacks \<and> js_result t = ?K" "0 < count t"
    have "wp {} (js_switch t) (\<lambda>d. (pass_inv (ctype ?c) nl_to_sp ?src d \<and> stk d \<in> js_stacks \<and> count d < count t) \<and>
      js_step_to js_stacks ?K t d)"
      using wp_conj [OF wp_js_switch [OF t(1)] wp_js_switch_result [of t ?K]] t
      by (auto dest: pass_inv_buf_ok)
    then show "wp {} (js_switch t) (\<lambda>d. pass_inv (ctype ?c) nl_to_sp ?src d \<and>
      (stk d \<in> js_stacks \<and> js_result (pre_recorded d) = ?K) \<and> nat (count d) < nat (count t))"
      by (rule wp_mono) (use t in \<open>auto simp: js_step_to_def\<close>)
  qed (use assms(1) in \<open>auto simp: js_idle_def idle_ok_clear_cache\<close>)
  then obtain o' d where d: "ngx_minify_js_process ?src ?c = ret (o', d)" "idle_ok d" "stk d \<in> js_stacks"
    "js_result d = ?K" "rest d = []" "ctype d = ctype ?c" "o' = out d"
    by (auto simp: wp_no_fault)
  have "held (loaded ?src ?c) = []" by (simp add: loaded_def held_def)
  then have "?K = js_scan (js_abs c) None ?src"
    by (simp add: js_result_def js_abs_def)
  then have "js_scan (js_abs c) None ?src = (o', js_abs d, held d)"
    using d(4,5,7) by (simp add: js_result_def)
  then show ?thesis using d assms(1) by (simp add: js_idle_def)
qed

interpretation js_scanned: scanned ngx_minify_js_process js_inv js_abs js_step js_leave
  by (rule scanned.intro [OF _ js_process_scan]) (auto simp: js_idle_def)

section \<open>Cuts\<close>

text \<open>
  White space at the beginning of a buffer is dropped, so a cut in front of white space is seen
  in the output, except where that white space is dropped anyway.
\<close>

fun js_settled :: "js_st \<Rightarrow> char option \<Rightarrow> bool" where
  "js_settled (JText p) l = (l = None \<or> l = Some p \<and> p \<in> {SP, TAB, NL})"
| "js_settled (JComment p) l = (l = None \<or> l = Some p \<and> p \<in> {SP, TAB, NL})"
| "js_settled _ l = True"

lemma js_step_settled:
  "js_settled st l \<Longrightarrow>
   (case js_step st l x y of Hold _ \<Rightarrow> True | Move ys st' _ \<Rightarrow> ys = [] \<longrightarrow> js_settled st' l)"
  by (cases st; cases l; cases y) (auto simp: js_keeps_nl_def)

interpretation js_cuts: scanner js_step js_leave js_settled "\<lambda>_. True"
proof
  fix st st' :: js_st and l y :: "char option" and x z :: char and ys two
  show "js_settled st l \<Longrightarrow> js_step st l x y = js_step st None x y"
    by (cases st; cases l) (auto split del: if_split cong: if_cong option.case_cong)
  show "js_settled st l \<Longrightarrow> js_step st l x y = Move [] st' two \<Longrightarrow> js_settled st' l"
    using js_step_settled [of st l x y] by simp
  show "js_settled st None" by (cases st) auto
  show "js_step st l x None = Hold st' \<Longrightarrow> js_step st' l x y = js_step st l x y"
    by (cases st) (auto split: if_splits option.splits)
  show "js_step st l x (Some z) \<noteq> Hold st'"
    by (cases st) auto
  show "js_step st l x None = Move ys st' two \<Longrightarrow> js_step st l x y = Move ys st' two \<and> \<not> two"
    by (cases st) (auto split: if_splits)
qed simp_all

section \<open>Comments and quoted text\<close>

lemma js_scan_comment:
  "no_close body \<Longrightarrow> js_scan (JComment p) l (body @ ''*/'' @ xs) = js_scan (JText p) l xs"
  by (induction body) (auto simp: scan.simps(2) look_append look_hd split: option.splits)

lemma js_scan_line:
  "NL \<notin> set body \<Longrightarrow>
   js_scan (JLine p) l (body @ NL # xs) = emit [SP] (js_scan (JText NL) (Some SP) xs)"
  by (induction body) (auto simp: scan.simps(2))

lemma js_scan_quote:
  "quoted q body \<Longrightarrow> js_scan (JQuote q p) l (body @ xs) = emit body (js_scan (JQuote q p) (last_of l body) xs)"
proof (induction q body arbitrary: l rule: quoted.induct)
  case (2 q x ys)
  then show ?case by (cases ys) (auto simp: scan.simps(2) [of _ _ _ _ x] look_append)
qed simp

section \<open>Properties\<close>

abbreviation js_fresh :: ngx_minify_ctx where
  "js_fresh \<equiv> zero_ctx\<lparr>ctype := MINIFY_FILE_TYPE_JS\<rparr>"

lemma js_fresh_simps [simp]:
  "js_inv js_fresh"  "held zero_ctx = []"  "js_abs js_fresh = JText NUL"
  "js_fresh\<lparr>cachelen := 0\<rparr> = js_fresh"
  using js.inv_init by (simp_all add: held_def zero_ctx_def js_abs_def stk_def)

lemma js_scan_fresh:
  assumes "length b < 2 ^ 31" "js_scan (JText NUL) None b = (o', st, h)"
  shows "\<exists>d. ngx_minify_js_process b js_fresh = ret (o', d) \<and> js_inv d \<and> js_abs d = st \<and> held d = h"
  using js_scanned.process_returns [of js_fresh b] assms by simp

lemma js_abs_text: "js_abs d = JText p \<Longrightarrow> stk d = [minify_state_text] \<and> pre_char d = p"
  by (simp add: js_abs_def split: if_splits)

text \<open>
  C8: the JavaScript minifier computes its scanner. From any context between two buffers, on the
  bytes held back followed by a new buffer, the in-place machine returns, commits no fault, keeps
  the invariant of the context, and its output, state and held-back byte are those of the scanner.
  Output and held-back byte are the input with bytes deleted, where a line break may have become
  a space.
\<close>

theorem js_refines:
  assumes "js_inv c" "length (held c @ b) < 2 ^ 31"
  shows "\<exists>o' d. ngx_minify_js_process (held c @ b) (c\<lparr>cachelen := 0\<rparr>) = ret (o', d) \<and> js_inv d \<and>
    (o', js_abs d, held d) = js_scan (js_abs c) None (held c @ b) \<and>
    subseq (map nl_to_sp (o' @ held d)) (map nl_to_sp (held c @ b))"
proof -
  obtain o' d where d: "ngx_minify_js_process (held c @ b) (c\<lparr>cachelen := 0\<rparr>) = ret (o', d)" "js_inv d"
    "(o', js_abs d, held d) = js_scan (js_abs c) None (held c @ b)"
    using js_process_scan [OF assms] by blast
  moreover have "subseq (map nl_to_sp (o' @ held d)) (map nl_to_sp (held c @ b))"
    using js.process_ok [OF assms] d(1) by simp
  ultimately show ?thesis by blast
qed

theorem js_refines_witness:
  "\<exists>o' d. ngx_minify_js_process ''a = [b  c]; /'' js_fresh = ret (o', d) \<and> js_inv d \<and>
    (o', js_abs d, held d) = js_scan (JText NUL) None ''a = [b  c]; /'' \<and>
    subseq (map nl_to_sp (o' @ held d)) (map nl_to_sp ''a = [b  c]; /'')"
  using js_refines [of js_fresh "''a = [b  c]; /''"] by simp

text \<open>
  C19: where a script may be cut. Two buffers give the bytes of one, and leave the same state and the
  same byte held back, if the first one ends in a quoted text or a line comment, or wrote nothing,
  or wrote last the white space that its state remembers: then white space that begins the second
  buffer is dropped in any case.
\<close>

theorem js_cut:
  assumes "js_inv c" "length (held c @ b1 @ b2) < 2 ^ 31"
    and "ngx_minify_js_process (held c @ b1) (c\<lparr>cachelen := 0\<rparr>) = ret (o1, d1)"
    and "js_settled (js_abs d1) (last_of None o1)"
    and "ngx_minify_js_process (held d1 @ b2) (d1\<lparr>cachelen := 0\<rparr>) = ret (o2, d2)"
  shows "\<exists>d. ngx_minify_js_process (held c @ b1 @ b2) (c\<lparr>cachelen := 0\<rparr>) = ret (o1 @ o2, d) \<and>
    js_abs d = js_abs d2 \<and> held d = held d2"
proof -
  have len: "length (held c @ b1) < 2 ^ 31" using assms(2) by simp
  note r1 = js_scanned.process_result [OF assms(1) len assms(3)]
  have "subseq (map nl_to_sp (o1 @ held d1)) (map nl_to_sp (held c @ b1))"
    using js.process_ok [OF assms(1) len] assms(3) by simp
  from list_emb_length [OF this] have "length (held d1 @ b2) < 2 ^ 31" using assms(2) by simp
  note r2 = js_scanned.process_result [OF conjunct1 [OF r1] this assms(5)]
  have "js_scan (js_abs c) None ((held c @ b1) @ b2) = (o1 @ o2, js_abs d2, held d2)"
    using js_cuts.scan_cut [OF conjunct2 [OF r1] TrueI assms(4), of b2] r2 by simp
  then show ?thesis using js_process_scan [of MINIFY_FILE_TYPE_JS c "b1 @ b2"] assms(1,2) by auto
qed

theorem js_cut_witness:
  "\<exists>d. ngx_minify_js_process (''x = \"a '' @ '' b\"'') js_fresh = ret (''x = \"a  b\"'', d) \<and> held d = []"
proof -
  let ?P = ngx_minify_js_process
  obtain d1 where d1: "?P (held js_fresh @ ''x = \"a '') (js_fresh\<lparr>cachelen := 0\<rparr>) = ret (''x = \"a '', d1)"
    "js_inv d1" "js_abs d1 = JQuote DQ SP" "held d1 = []"
    using js_process_scan [of MINIFY_FILE_TYPE_JS js_fresh "''x = \"a ''"] by (auto simp: scan.simps(2))
  then obtain d2 where d2: "?P (held d1 @ '' b\"'') (d1\<lparr>cachelen := 0\<rparr>) = ret ('' b\"'', d2)" "held d2 = []"
    using js_process_scan [of MINIFY_FILE_TYPE_JS d1 "'' b\"''"] by (auto simp: scan.simps(2))
  show ?thesis
    using js_cut [OF _ _ d1(1) _ d2(1)] d1(3) d2(2) by simp blast
qed

text \<open>
  Block comments go. Behind text (and nothing held back, and the last byte written known to the
  state), a block comment can be deleted from a script without changing the output.
\<close>

lemma js_comment_deleted:
  assumes "length (a @ ''/*'' @ body @ ''*/'' @ b) < 2 ^ 31" "no_close body"
    and "ngx_minify_js_process a js_fresh = ret (o1, d1)" "stk d1 = [minify_state_text]" "held d1 = []"
    and "o1 = [] \<or> last o1 = pre_char d1"
  shows "\<exists>o' d d'. ngx_minify_js_process (a @ ''/*'' @ body @ ''*/'' @ b) js_fresh = ret (o', d) \<and>
    ngx_minify_js_process (a @ b) js_fresh = ret (o', d')"
proof -
  let ?s = "js_scan (JText NUL) None" and ?l = "last_of None o1"
  have abs: "js_abs d1 = JText (pre_char d1)" using assms(4) by (simp add: js_abs_def)
  have a: "?s a = (o1, JText (pre_char d1), [])"
    using js_scanned.process_result [of js_fresh a o1 d1] assms abs by simp
  have "?s (a @ bs) = emit o1 (js_scan (JText (pre_char d1)) ?l bs)" for bs
    using js_cuts.scan_append [OF a] by simp
  moreover have "recorded ?l (pre_char d1) = pre_char d1"
    using assms(6) by (auto simp: last_of_def)
  then have "js_scan (JText (pre_char d1)) ?l (''/*'' @ body @ ''*/'' @ b) =
      js_scan (JText (pre_char d1)) ?l b"
    using js_scan_comment [OF assms(2)] by (simp add: scan.simps(2) [of _ _ _ _ "CHR ''/''" "_ # _"])
  ultimately have "?s (a @ ''/*'' @ body @ ''*/'' @ b) = ?s (a @ b)" by simp
  then show ?thesis
    using js_process_scan [of MINIFY_FILE_TYPE_JS js_fresh "a @ ''/*'' @ body @ ''*/'' @ b"]
      js_process_scan [of MINIFY_FILE_TYPE_JS js_fresh "a @ b"] assms(1) by (auto simp flip: prod_eq_iff) (metis fst_conv)
qed

lemma js_comment_deleted_witness:
  "\<exists>o' d d'. ngx_minify_js_process (''f('' @ ''/*'' @ ''x*'' @ ''*/'' @ ''y)'') js_fresh = ret (o', d) \<and>
    ngx_minify_js_process (''f('' @ ''y)'') js_fresh = ret (o', d')"
proof -
  obtain d1 where "ngx_minify_js_process ''f('' js_fresh = ret (''f('', d1)"
    "stk d1 = [minify_state_text]" "held d1 = []" "pre_char d1 = CHR ''(''"
    using js_process_scan [of MINIFY_FILE_TYPE_JS js_fresh "''f(''"] by (auto simp: scan.simps(2) dest: js_abs_text)
  then show ?thesis
    by (intro js_comment_deleted [where ?o1.0 = "''f(''" and ?d1.0 = d1]) simp_all
qed

text \<open>
  Quoted text is kept. A text between quotes or in brackets comes out byte for byte with its
  escapes, white space and comment marks, and behind it the minifier is back in the text state.
\<close>

lemma js_quoted_verbatim:
  assumes "(a, q) \<in> {(DQ, DQ), (SQ, SQ), (CHR ''['', CHR '']'')}" "quoted q body" "length body < 2 ^ 30"
  shows "\<exists>d. ngx_minify_js_process (a # body @ [q]) js_fresh = ret (a # body @ [q], d) \<and>
    js_abs d = JText NUL \<and> held d = []"
proof -
  have "q \<noteq> BSL" using assms(1) by auto
  then have "js_scan (JText NUL) None (a # body @ [q]) = (a # body @ [q], JText NUL, [])"
    using assms(1) js_scan_quote [OF assms(2)] by (auto simp: scan.simps(2))
  then show ?thesis
    using js_scan_fresh [of "a # body @ [q]"] assms(3) by auto
qed

lemma js_quoted_verbatim_witness:
  "\<exists>d. ngx_minify_js_process (CHR ''['' # ''1,  // '' @ '']'') js_fresh =
     ret (CHR ''['' # ''1,  // '' @ '']'', d) \<and> js_abs d = JText NUL \<and> held d = []"
  by (rule js_quoted_verbatim) simp_all

text \<open>
  A line comment becomes a space. Behind text, a line comment with its line break leaves one
  space, and the minifier goes on as at the beginning of a line.
\<close>

lemma js_line_comment_space:
  assumes "length (a @ ''//'' @ body @ NL # b) < 2 ^ 31" "NL \<notin> set body"
    and "ngx_minify_js_process a js_fresh = ret (o1, d1)" "stk d1 = [minify_state_text]" "held d1 = []"
  shows "\<exists>d. ngx_minify_js_process (a @ ''//'' @ body @ NL # b) js_fresh =
    ret (o1 @ SP # fst (js_scan (JText NL) (Some SP) b), d)"
proof -
  have abs: "js_abs d1 = JText (pre_char d1)" using assms(4) by (simp add: js_abs_def)
  have a: "js_scan (JText NUL) None a = (o1, JText (pre_char d1), [])"
    using js_scanned.process_result [of js_fresh a o1 d1] assms abs by simp
  obtain o2 st h where r: "js_scan (JText NL) (Some SP) b = (o2, st, h)" by (rule prod_cases3)
  have "js_scan (JText (pre_char d1)) l (''//'' @ body @ NL # b) = (SP # o2, st, h)" for l
    using js_scan_line [OF assms(2)] r by (simp add: scan.simps(2) [of _ _ _ _ "CHR ''/''" "_ # _"])
  then have "js_scan (JText NUL) None (a @ ''//'' @ body @ NL # b) = (o1 @ SP # o2, st, h)"
    using js_cuts.scan_append [OF a] by simp
  then show ?thesis
    using js_scan_fresh [OF assms(1)] r by auto
qed

text \<open>
  So a statement that ends with its line, and no semicolon, runs together with the next one when a
  comment stands behind it. A bracket inside a string inside brackets ends the bracketed text: from
  then on strings and text are exchanged, and a string with two slashes is cut. And the byte that
  decides about a line break is not updated by a quoted text: behind one that follows a colon the
  line break is lost.
\<close>

lemma js_line_comment_joins_statements:
  "map_option (map_sum id fst) (ngx_minify_js_process (''a = 1 // c'' @ NL # ''b = 2'') js_fresh) =
     ret ''a = 1  b = 2''"
  by code_simp

lemma js_bracket_ends_in_string:
  "map_option (map_sum id fst) (ngx_minify_js_process ''a = [\"]\"]; b = \"http://x\";'' js_fresh) =
     ret ''a = [\"]\"]; b = \"http:''"
  by code_simp

lemma js_quoted_line_break_lost:
  "map_option (map_sum id fst) (ngx_minify_js_process (''a?b:\"c\"'' @ NL # ''d()'') js_fresh) =
     ret ''a?b:\"c\"d()''"
  by code_simp

text \<open>
  White space that begins a buffer is deleted, also where it separates two words.
\<close>

lemma js_cut_joins_words:
  "\<exists>d1 d2 d. ngx_minify_js_process ''return'' js_fresh = ret (''return'', d1) \<and>
     ngx_minify_js_process (held d1 @ '' x'') (d1\<lparr>cachelen := 0\<rparr>) = ret (''x'', d2) \<and>
     ngx_minify_js_process ''return x'' js_fresh = ret (''return x'', d)"
proof -
  obtain d1 where d1: "ngx_minify_js_process ''return'' js_fresh = ret (''return'', d1)"
    "js_inv d1" "js_abs d1 = JText CHR ''n''" "held d1 = []"
    using js_scan_fresh [of "''return''"] by (auto simp: scan.simps(2))
  obtain d2 where "ngx_minify_js_process (held d1 @ '' x'') (d1\<lparr>cachelen := 0\<rparr>) = ret (''x'', d2)"
    using js_process_scan [OF d1(2), of "'' x''"] d1(3,4) by (auto simp: scan.simps(2))
  moreover obtain d where "ngx_minify_js_process ''return x'' js_fresh = ret (''return x'', d)"
    using js_scan_fresh [of "''return x''"] by (auto simp: scan.simps(2))
  ultimately show ?thesis using d1(1) by blast
qed

end
