(* ===== verification/Minify_UT.thy ===== *)
theory Minify_UT
  imports Minify_HTML_Refine Minify_CSS_Scan Minify_JS_Scan
begin

text \<open>
  The test program of the minifiers, \<open>src/modules/mod_minify/ut\<close>: it runs the three process
  functions on tables of test cases, each a list of buffers with the expected result, or minifies a
  file in pieces of 128 bytes. C strings are lists of bytes without the final zero; the names of the
  test cases are only printed and left out; \<open>malloc\<close> is taken to succeed, as the program takes it.
  What the program prints is kept as a list of messages, without the rates.
\<close>

section \<open>Test cases\<close>

record ut_case =
  ut_data :: "string list"
  ut_result :: string

definition html_ut_text :: "ut_case list" where
  \<open>html_ut_text =
    [\<lparr>ut_data = [''<!DOCTYPE  html PUBLIC '' @ DQ # ''-//W3C//DTD XHTML 1.0 Transitional//EN'' @
       DQ # '' '' @ DQ # ''http://www.w3.org/TR/xhtml1/DTD/xhtml1-transitional.dtd'' @ DQ # ''>''
       @ NL # ''<html> </html>'' @ [NL]],
       ut_result = ''<!DOCTYPE html PUBLIC '' @ DQ # ''-//W3C//DTD XHTML 1.0 Transitional//EN'' @
       DQ # '' '' @ DQ # ''http://www.w3.org/TR/xhtml1/DTD/xhtml1-transitional.dtd'' @ DQ #
       ''><html> </html>''\<rparr>,
     \<lparr>ut_data = [''<'', ''!'', ''D'', ''OCTYPE  html>'' @ NL # ''<html> </html>'' @ [NL]],
       ut_result = ''<!DOCTYPE html><html> </html>''\<rparr>,
     \<lparr>ut_data = [''<html> <!-- this is comment --> </html>'' @ [NL]],
       ut_result = ''<html> </html>''\<rparr>,
     \<lparr>ut_data = [''<html> <!----> </html>'' @ [NL]],
       ut_result = ''<html> </html>''\<rparr>,
     \<lparr>ut_data = [''<html> <'', ''!'', ''-'', ''- this is comment '', ''-'', ''-'', ''> '',
       ''</html>'' @ [NL]],
       ut_result = ''<html> </html>''\<rparr>,
     \<lparr>ut_data = [''<html> <'', ''!'', ''-'', ''- this is comment -a '', ''-'', ''-'', ''b'',
       '' --> '', ''</html>'' @ [NL]],
       ut_result = ''<html> </html>''\<rparr>,
     \<lparr>ut_data = [''<html> <!--[if IE 9]> IE 9 CSS <![endif]--> </html>'' @ [NL]],
       ut_result = ''<html> <!--[if IE 9]> IE 9 CSS <![endif]--></html>''\<rparr>,
     \<lparr>ut_data = [''<html> '', ''<'', ''!'', ''-'', ''-'', ''['', ''i'', ''f'',
       '' IE 9]> IE 9 CSS <![endi'', ''f'', '']'', ''-'', ''-'', ''>'', '' </html>'' @ [NL]],
       ut_result = ''<html> <!--[if IE 9]> IE 9 CSS <![endif]--></html>''\<rparr>,
     \<lparr>ut_data = [''<html> '', ''<'', ''!'', ''-'', ''-'', ''['', ''i'', ''f'',
       '' IE 9]> IE 9 CSS ]--a <![endi'', ''f'', '']'', ''-'', ''-'', ''>'', '' </html>'' @
       [NL]],
       ut_result = ''<html> <!--[if IE 9]> IE 9 CSS ]--a <![endif]--></html>''\<rparr>,
     \<lparr>ut_data = [''<html> '', ''<'', ''!'', ''-'', ''-'', ''['', ''i'', ''p'',
       '' IE 9]> IE 9 CSS <![endi'', ''f'', '']'', ''-'', ''-'', ''>'', '' </html>'' @ [NL]],
       ut_result = ''<html> </html>''\<rparr>,
     \<lparr>ut_data = [''<html>'' @ NL # '' <![CDATA[ a > b ]]>'' @ NL # '' </html>'' @ [NL]],
       ut_result = ''<html> <![CDATA[ a > b ]]> </html>''\<rparr>,
     \<lparr>ut_data = [''<html>'' @ NL # '' <'', ''!'', ''['', ''C'', ''D'', ''A'', ''T'', ''A'',
       ''['', '' a > b '', '']'', '']'', ''>'' @ [NL], '' </html>'' @ [NL]],
       ut_result = ''<html> <![CDATA[ a > b ]]> </html>''\<rparr>,
     \<lparr>ut_data = [''<html>'' @ NL # '' <![CDATA[ a > b; '' @ SQ # '']]'' @ SQ # '' ]]>'' @ NL #
       '' </html>'' @ [NL]],
       ut_result = ''<html> <![CDATA[ a > b; '' @ SQ # '']]'' @ SQ # '' ]]> </html>''\<rparr>,
     \<lparr>ut_data = [''<h>'' @ NL # '' <!-- b -->'' @ NL # ''   strip   space   </h>'' @ [NL]],
       ut_result = ''<h> strip space </h>''\<rparr>,
     \<lparr>ut_data = [''<h>'' @ NL # '' <!-- b -->'' @ [NL], ''   strip '', ''  space  '',
       ''   </h>'' @ [NL]],
       ut_result = ''<h> strip space </h>''\<rparr>]\<close>

definition html_ut_tags :: "ut_case list" where
  \<open>html_ut_tags =
    [\<lparr>ut_data = [''<h>'' @ NL # TAB # ''<abc>'' @ NL # TAB # ''    test    '' @ NL # ''</abc>''
       @ NL # ''</h>'' @ [NL]],
       ut_result = ''<h><abc> test </abc></h>''\<rparr>,
     \<lparr>ut_data = [''<h>'' @ NL # TAB # ''<PrE>'' @ NL # TAB # '' test '' @ NL # ''</PrE>'' @ NL #
       ''</h>'' @ [NL]],
       ut_result = ''<h><PrE>'' @ NL # TAB # '' test '' @ NL # ''</PrE></h>''\<rparr>,
     \<lparr>ut_data = [''<h>'', ''<'', ''P'', ''R'', ''e'', ''>'', '' test '', ''<'', ''/'', ''P'',
       ''R'', ''e'', ''>'', NL # ''</h>''],
       ut_result = ''<h><PRe> test </PRe></h>''\<rparr>,
     \<lparr>ut_data = [''<h>'' @ NL # TAB # ''<SCript>'' @ NL # TAB # '' if (a == b) '' @ NL #
       ''</SCript>'' @ NL # ''</h>'' @ [NL]],
       ut_result = ''<h><SCript>'' @ NL # TAB # '' if (a == b) '' @ NL # ''</SCript></h>''\<rparr>,
     \<lparr>ut_data = [''<h>'', ''<'', ''s'', ''c'', ''r'', ''i'', ''p'', ''t'', ''>'', '' test '',
       ''<'', ''/'', ''s'', ''c'', ''r'', ''i'', ''p'', ''t'', ''>'', NL # ''</h>''],
       ut_result = ''<h><script> test </script></h>''\<rparr>,
     \<lparr>ut_data = [''<h>'' @ NL # TAB # ''<styLE>'' @ NL # TAB #
       '' body {background-color: yellow} '' @ NL # ''</styLE>'' @ NL # ''</h>'' @ [NL]],
       ut_result = ''<h><styLE>'' @ NL # TAB # '' body {background-color: yellow} '' @ NL #
       ''</styLE></h>''\<rparr>,
     \<lparr>ut_data = [''<h>'', ''<'', ''s'', ''t'', ''y'', ''l'', ''e'', ''>'', '' body '', ''<'',
       ''/'', ''s'', ''t'', ''y'', ''l'', ''e'', ''>'', NL # ''</h>''],
       ut_result = ''<h><style> body </style></h>''\<rparr>,
     \<lparr>ut_data = [''<h><script>'', '' </a> '', ''</script>'', NL # ''</h>''],
       ut_result = ''<h><script> </a> </script></h>''\<rparr>,
     \<lparr>ut_data = [''<h><script>  javascript </script>'' @ NL # ''<!-- strip comment -->'', NL #
       ''</h>''],
       ut_result = ''<h><script>  javascript </script></h>''\<rparr>,
     \<lparr>ut_data = [''<h><script javascript/>'' @ NL # ''<!-- strip comment -->'', NL # ''</h>''],
       ut_result = ''<h><script javascript/></h>''\<rparr>,
     \<lparr>ut_data = [''<h><script javascript'', ''/'', ''>'' @ [NL], ''<!-- strip comment -->'', NL
       # ''</h>''],
       ut_result = ''<h><script javascript/></h>''\<rparr>]\<close>

definition html_ut_data :: "ut_case list" where
  "html_ut_data = html_ut_text @ html_ut_tags"

definition css_ut_data :: "ut_case list" where
  \<open>css_ut_data =
    [\<lparr>ut_data = [''td,   '', ''    tr,th{  '' @ TAB # ''font-size: '' @ TAB # '' '' @ TAB #
       '' 12px;}''],
       ut_result = ''td, tr,th{ font-size: 12px;}''\<rparr>,
     \<lparr>ut_data = [''/* comment */'' @ NL # ''body{ background:#ffffff;}''],
       ut_result = ''body{ background:#ffffff;}''\<rparr>,
     \<lparr>ut_data = [''bo'', ''/'', ''*'', '' comment '', ''*'', ''/'', NL #
       ''dy{ background:#ffffff;}''],
       ut_result = ''body{ background:#ffffff;}''\<rparr>,
     \<lparr>ut_data = [''body'' @ NL # ''/*'' @ NL # '' *line1'' @ NL # '' /* line2'' @ NL # ''*/'' @
       NL # ''{ background:#ffffff;}''],
       ut_result = ''body{ background:#ffffff;}''\<rparr>,
     \<lparr>ut_data = [''body  '' @ DQ # ''  quote  '' @ [DQ]],
       ut_result = ''body '' @ DQ # ''  quote  '' @ [DQ]\<rparr>,
     \<lparr>ut_data = [''body '', [DQ], ''  quote  '', [DQ]],
       ut_result = ''body '' @ DQ # ''  quote  '' @ [DQ]\<rparr>,
     \<lparr>ut_data = [''body  '' @ DQ # ''  '' @ BSL # DQ # ''quote'' @ BSL # DQ # ''  '' @ [DQ]],
       ut_result = ''body '' @ DQ # ''  '' @ BSL # DQ # ''quote'' @ BSL # DQ # ''  '' @ [DQ]\<rparr>,
     \<lparr>ut_data = [''body  '' @ SQ # ''  quote  '' @ [SQ]],
       ut_result = ''body '' @ SQ # ''  quote  '' @ [SQ]\<rparr>,
     \<lparr>ut_data = [''body '', [SQ], ''  quote  '', [SQ]],
       ut_result = ''body '' @ SQ # ''  quote  '' @ [SQ]\<rparr>,
     \<lparr>ut_data = [''body  '' @ SQ # ''  '' @ BSL # SQ # ''quote'' @ BSL # SQ # ''  '' @ [SQ]],
       ut_result = ''body '' @ SQ # ''  '' @ BSL # SQ # ''quote'' @ BSL # SQ # ''  '' @ [SQ]\<rparr>,
     \<lparr>ut_data = [''body'' @ NL # ''{'' @ NL # '' '' @ TAB # ''background:    #ffffff;'' @ NL #
       ''}''],
       ut_result = ''body{ background: #ffffff;}''\<rparr>,
     \<lparr>ut_data = [''body'' @ NL # ''{'' @ NL # '' '' @ TAB #
       ''background: /* comment */    #ffffff;'' @ NL # ''}''],
       ut_result = ''body{ background: #ffffff;}''\<rparr>,
     \<lparr>ut_data = [''body'' @ NL # ''{'' @ NL # '' '' @ TAB # ''background: /**/    #ffffff;'' @
       NL # ''}''],
       ut_result = ''body{ background: #ffffff;}''\<rparr>,
     \<lparr>ut_data = [''body'' @ NL # ''{'' @ NL # '' '' @ TAB # ''background: '', ''/'', ''*'',
       '' comment '', ''*'', ''/'', ''     #ffffff;'' @ NL # ''}''],
       ut_result = ''body{ background: #ffffff;}''\<rparr>,
     \<lparr>ut_data = [''body'' @ NL # ''{'' @ NL # '' '' @ TAB # ''background: '', ''/'', ''*'',
       '' comment '', ''*'', ''/'', ''     #ffffff;'' @ NL # ''}''],
       ut_result = ''body{ background: #ffffff;}''\<rparr>,
     \<lparr>ut_data = [''body'' @ NL # ''{'' @ NL # '' '' @ TAB # ''background: '' @ DQ # ''#ffffff''
       @ DQ # '';'' @ NL # ''}''],
       ut_result = ''body{ background: '' @ DQ # ''#ffffff'' @ DQ # '';}''\<rparr>,
     \<lparr>ut_data = [''body'' @ NL # ''{'' @ NL # '' '' @ TAB # ''background: '' @ SQ # ''#ffffff''
       @ SQ # '';'' @ NL # ''}''],
       ut_result = ''body{ background: '' @ SQ # ''#ffffff'' @ SQ # '';}''\<rparr>,
     \<lparr>ut_data = [''body'' @ NL # ''{'' @ NL # '' '' @ TAB # ''background: '' @ SQ # ''#ffffff''
       @ SQ # '';'' @ NL # ''}'' @ [NL], ''foot'' @ NL # ''{'' @ NL # '' '' @ TAB # ''color: '' @
       SQ # ''#ffffff'' @ SQ # '';'' @ NL # ''}''],
       ut_result = ''body{ background: '' @ SQ # ''#ffffff'' @ SQ # '';}foot{ color: '' @ SQ #
       ''#ffffff'' @ SQ # '';}''\<rparr>]\<close>

definition js_ut_data :: "ut_case list" where
  \<open>js_ut_data =
    [\<lparr>ut_data = [TAB # ''var me = this;'' @ NL # ''     var me = that;'' @ NL # '' '' @ TAB #
       '' '' @ TAB # ''var me = this;'' @ [NL]],
       ut_result = ''var me = this;var me = that;var me = this;'' @ [NL]\<rparr>,
     \<lparr>ut_data = [TAB # ''var me  '' @ TAB # ''  = this;'' @ [NL]],
       ut_result = ''var me = this;''\<rparr>,
     \<lparr>ut_data = [TAB # ''var me'', ''  '', [TAB], ''  = this;'' @ [NL]],
       ut_result = ''var me= this;''\<rparr>,
     \<lparr>ut_data = [''var me = this; // comment'' @ [NL]],
       ut_result = ''var me = this;  ''\<rparr>,
     \<lparr>ut_data = [''var me = this; '', ''/'', ''/'', '' comment'' @ [NL]],
       ut_result = ''var me = this;  ''\<rparr>,
     \<lparr>ut_data = [''var me/* comment */ = this;''],
       ut_result = ''var me = this;''\<rparr>,
     \<lparr>ut_data = [''var me '', ''/'', ''*'', '' comment '', ''*'', ''/'', ''= this;''],
       ut_result = ''var me = this;''\<rparr>,
     \<lparr>ut_data = [''var me/*'' @ NL # '' /* '' @ NL # '' * comment */ = this;''],
       ut_result = ''var me = this;''\<rparr>,
     \<lparr>ut_data = [''var me =  '' @ DQ # ''  quote  '' @ [DQ]],
       ut_result = ''var me = '' @ DQ # ''  quote  '' @ [DQ]\<rparr>,
     \<lparr>ut_data = [''var me = '', [DQ], ''  quote  '', [DQ]],
       ut_result = ''var me = '' @ DQ # ''  quote  '' @ [DQ]\<rparr>,
     \<lparr>ut_data = [''var me =  '' @ DQ # ''  '' @ BSL # DQ # ''quote'' @ BSL # DQ # ''  '' @
       [DQ]],
       ut_result = ''var me = '' @ DQ # ''  '' @ BSL # DQ # ''quote'' @ BSL # DQ # ''  '' @ [DQ]\<rparr>,
     \<lparr>ut_data = [''var me =  '' @ SQ # ''  quote  '' @ [SQ]],
       ut_result = ''var me = '' @ SQ # ''  quote  '' @ [SQ]\<rparr>,
     \<lparr>ut_data = [''var me = '', [SQ], ''  quote  '', [SQ]],
       ut_result = ''var me = '' @ SQ # ''  quote  '' @ [SQ]\<rparr>,
     \<lparr>ut_data = [''var me =  '' @ SQ # ''  '' @ BSL # SQ # ''quote'' @ BSL # SQ # ''  '' @
       [SQ]],
       ut_result = ''var me = '' @ SQ # ''  '' @ BSL # SQ # ''quote'' @ BSL # SQ # ''  '' @ [SQ]\<rparr>,
     \<lparr>ut_data = [''var me [a =  b];''],
       ut_result = ''var me [a =  b];''\<rparr>,
     \<lparr>ut_data = [NL # ''line1;'' @ NL # ''line2:'' @ NL # ''line3{'' @ NL # ''line4}'' @ NL #
       ''line5''],
       ut_result = ''line1;line2:line3{line4}line5''\<rparr>,
     \<lparr>ut_data =
       [''for(var i=nodes.length-1;i>=0;i--)                {                            var element=nodes[i];                                                    news[i]={};''],
       ut_result = ''for(var i=nodes.length-1;i>=0;i--) { var element=nodes[i]; news[i]={};''\<rparr>,
     \<lparr>ut_data = [''for(var i=nodes.length-1;i>=0;i--)'' @ CR # NL # TAB # ''{'' @ CR # NL # TAB
       # ''}''],
       ut_result = ''for(var i=nodes.length-1;i>=0;i--)'' @ NL # ''{}''\<rparr>]\<close>

section \<open>Buffers\<close>

text \<open>
  The memory of a buffer from \<open>start\<close>, with the other pointers as offsets from it; a copy of bytes
  must stay in the memory.
\<close>

record ut_buf =
  buf_start :: string
  buf_pos :: nat
  buf_last :: nat
  buf_end :: nat

definition memcpy_at :: "nat \<Rightarrow> string \<Rightarrow> string \<Rightarrow> string outcome" where
  "memcpy_at i src dst =
     (if i + length src \<le> length dst then ret (take i dst @ src @ drop (i + length src) dst)
      else fail OutOfBounds)"

definition ngx_minify_ut_create_buf :: "nat \<Rightarrow> ut_buf" where
  "ngx_minify_ut_create_buf len =
     \<lparr>buf_start = replicate (len + 1) NUL, buf_pos = 0, buf_last = 0, buf_end = 0\<rparr>"

definition ngx_minify_ut_copy_buf :: "string \<Rightarrow> nat \<Rightarrow> ut_buf \<Rightarrow> ut_buf outcome" where
  "ngx_minify_ut_copy_buf data len b =
     (if len \<le> length data then
        bindO (memcpy_at 0 (take len data) (buf_start b)) (\<lambda>m.
          ret (b\<lparr>buf_start := m, buf_pos := 0, buf_last := len, buf_end := len\<rparr>))
      else fail OutOfBounds)"

text \<open>The bytes from \<open>pos\<close> to \<open>last\<close>; \<open>ngx_buf_size\<close> is their number.\<close>

definition buf_bytes :: "ut_buf \<Rightarrow> string" where
  "buf_bytes b = take (buf_last b - buf_pos b) (drop (buf_pos b) (buf_start b))"

definition ngx_minify_ut_append_cache ::
  "ut_buf \<Rightarrow> ngx_minify_ctx \<Rightarrow> (ut_buf \<times> ngx_minify_ctx) outcome" where
  "ngx_minify_ut_append_cache b c =
     (if cachelen c \<noteq> 0 then
        (if 0 \<le> cachelen c \<and> cachelen c \<le> int CTX_CACHE_BUFLEN then
           (let n = nat (cachelen c);
                size = length (buf_bytes b);
                new = ngx_minify_ut_create_buf (n + size)
            in bindO (memcpy_at 0 (take n (cache c)) (buf_start new)) (\<lambda>m.
               bindO (memcpy_at n (buf_bytes b) m) (\<lambda>m.
               ret (new\<lparr>buf_start := m, buf_pos := 0, buf_last := n + size, buf_end := n + size\<rparr>,
                    c\<lparr>cachelen := 0\<rparr>))))
         else fail CacheBounds)
      else ret (b, c))"

text \<open>
  \<open>fn(buf, &ctx)\<close>: the process function rewrites the memory between \<open>pos\<close> and \<open>last\<close> and moves
  \<open>last\<close>. Then \<open>ctx.dstlen\<close> bytes are taken from \<open>start\<close>.
\<close>

definition ut_process ::
  "minify_process_f \<Rightarrow> ut_buf \<Rightarrow> ngx_minify_ctx \<Rightarrow> (ut_buf \<times> ngx_minify_ctx) outcome" where
  "ut_process fn b c =
     bindO (fn (buf_bytes b) c) (\<lambda>(o', d).
       ret (b\<lparr>buf_start := take (buf_pos b) (buf_start b) @ mem d @ drop (buf_last b) (buf_start b),
              buf_last := buf_pos b + length o'\<rparr>, d))"

definition ut_output :: "ut_buf \<Rightarrow> ngx_minify_ctx \<Rightarrow> string outcome" where
  "ut_output b c =
     (if 0 \<le> dstlen c \<and> nat (dstlen c) \<le> length (buf_start b) then ret (take (nat (dstlen c)) (buf_start b))
      else fail OutOfBounds)"

text \<open>The steps that both loops share: fill a buffer, put the cached bytes in front, minify, read off.\<close>

definition ut_link ::
  "minify_process_f \<Rightarrow> string \<Rightarrow> nat \<Rightarrow> ngx_minify_ctx \<Rightarrow> (string \<times> ngx_minify_ctx) outcome" where
  "ut_link fn data len c =
     bindO (ngx_minify_ut_copy_buf data len (ngx_minify_ut_create_buf len)) (\<lambda>b.
     bindO (ngx_minify_ut_append_cache b c) (\<lambda>(b, c).
     bindO (ut_process fn b c) (\<lambda>(b, d).
     bindO (ut_output b d) (\<lambda>out. ret (out, d)))))"

section \<open>The program\<close>

datatype minify_type = minify_html | minify_css | minify_js | minify_none

record minify_entry =
  entry_name :: string
  entry_p :: "ut_case list"
  entry_fn :: minify_process_f

definition case_entry :: "minify_entry list" where
  "case_entry =
     [\<lparr>entry_name = ''html'', entry_p = html_ut_data, entry_fn = ngx_minify_html_process\<rparr>,
      \<lparr>entry_name = ''css'', entry_p = css_ut_data, entry_fn = ngx_minify_css_process\<rparr>,
      \<lparr>entry_name = ''js'', entry_p = js_ut_data, entry_fn = ngx_minify_js_process\<rparr>]"

primrec type_index :: "minify_type \<Rightarrow> nat" where
  "type_index minify_html = 0"
| "type_index minify_css = 1"
| "type_index minify_js = 2"
| "type_index minify_none = 3"

text \<open>\<open>strrchr(file, '.')\<close>, as what stands behind it.\<close>

definition behind_last_dot :: "string \<Rightarrow> string option" where
  "behind_last_dot file =
     (if CHR ''.'' \<in> set file then Some (rev (takeWhile (\<lambda>x. x \<noteq> CHR ''.'') (rev file))) else None)"

text \<open>Without a dot \<open>p + 1\<close> is the address 1, which \<open>strncmp\<close> reads.\<close>

definition ngx_minify_ut_get_type :: "string \<Rightarrow> minify_type outcome" where
  "ngx_minify_ut_get_type file =
     (case behind_last_dot file of
        None \<Rightarrow> fail NullPointer
      | Some p \<Rightarrow>
          (case filter (\<lambda>(e, t). take (length (entry_name e)) p = entry_name e)
                  (zip case_entry [minify_html, minify_css, minify_js]) of
             [] \<Rightarrow> ret minify_none
           | (e, t) # _ \<Rightarrow> ret t))"

datatype ut_line =
    ut_title nat
  | ut_fail string string
  | ut_ok int int
  | ut_stack_error
  | ut_too_long
  | ut_suite minify_type
  | ut_open_error
  | ut_read string string minify_type
  | ut_finish int int

text \<open>
  The read loop of \<open>ngx_minify_file\<close>: \<open>input\<close> is what the file still holds, \<open>w\<close> what has been
  written. A read of a regular file gives as many bytes as it still has, up to the size of
  \<open>rbuf\<close>; a write writes all its bytes.
\<close>

abbreviation READ_BUF_LEN :: nat where "READ_BUF_LEN \<equiv> 128"

fun file_loop ::
  "minify_process_f \<Rightarrow> string \<Rightarrow> string \<Rightarrow> int \<Rightarrow> int \<Rightarrow> ngx_minify_ctx \<Rightarrow>
   (string \<times> int \<times> int \<times> ngx_minify_ctx) outcome" where
  "file_loop fn input w orglen dlen c =
     (let chunk = take READ_BUF_LEN input;
          nread = length chunk;
          rbuf = chunk @ replicate (READ_BUF_LEN - nread) NUL
      in if nread \<noteq> 0 then
           bindO (ut_link fn rbuf nread c) (\<lambda>(out, d).
             file_loop fn (drop READ_BUF_LEN input) (w @ out)
               (to_int32 (orglen + int nread)) (to_int32 (dlen + dstlen d)) d)
         else ret (w, orglen, dlen, c))"

declare file_loop.simps [simp del]

text \<open>
  \<open>fs\<close>: the contents of the files; \<open>creat\<close>: the paths that can be opened for writing. Opening
  \<open>wfile\<close> truncates it, before anything is read.
\<close>

definition ngx_minify_file ::
  "(string \<Rightarrow> bool) \<Rightarrow> string \<Rightarrow> string \<Rightarrow> minify_type \<Rightarrow> (string \<Rightarrow> string option) \<Rightarrow>
   (int \<times> ut_line list \<times> (string \<Rightarrow> string option)) outcome" where
  "ngx_minify_file creat file wfile type fs =
     (let fdr = fs file;
          fs1 = (if creat wfile then fs(wfile \<mapsto> []) else fs)
      in if fdr = None \<or> \<not> creat wfile then ret (-1, [ut_open_error], fs1)
         else bindO (file_loop (entry_fn (case_entry ! type_index type)) (the (fs1 file)) [] 0 0 zero_ctx)
           (\<lambda>(w, orglen, dlen, c). ret (0, [ut_ok orglen dlen], fs1(wfile \<mapsto> w))))"

text \<open>The counters of the program are of type \<open>char\<close>.\<close>

record ut_state =
  printed :: "ut_line list"
  case_num :: "8 word"
  case_success_num :: "8 word"

datatype 's control = Go 's | Exit int 's

text \<open>
  The inner loop of \<open>ngx_minify_ut\<close> over the buffers of a case; \<open>None\<close> where the input is too
  long for \<open>dstbuf\<close> and the program leaves.
\<close>

fun ut_feed ::
  "minify_process_f \<Rightarrow> string list \<Rightarrow> int \<Rightarrow> nat \<Rightarrow> string \<Rightarrow> ngx_minify_ctx \<Rightarrow>
   (int \<times> nat \<times> string \<times> ngx_minify_ctx) option outcome" where
  "ut_feed fn [] orglen dlen dstbuf c = ret (Some (orglen, dlen, dstbuf, c))"
| "ut_feed fn (d # ds) orglen dlen dstbuf c =
     (let orglen = orglen + int (length d) in
      if 4096 < orglen then ret None
      else bindO (ut_link fn d (length d) c) (\<lambda>(out, c).
           bindO (memcpy_at dlen out dstbuf) (\<lambda>dstbuf.
             ut_feed fn ds orglen (dlen + length out) dstbuf c)))"

text \<open>\<open>memcmp(dstbuf, p->ut_result, dstlen) == 0\<close>; the string ends with a zero byte.\<close>

definition ut_equal :: "string \<Rightarrow> string \<Rightarrow> nat \<Rightarrow> bool outcome" where
  "ut_equal dstbuf result n =
     (if n \<le> length dstbuf \<and> n \<le> length result + 1
      then ret (take n dstbuf = take n (result @ [NUL])) else fail OutOfBounds)"

fun ngx_minify_ut ::
  "minify_process_f \<Rightarrow> nat \<Rightarrow> ut_case list \<Rightarrow> ut_state \<Rightarrow> ut_state control outcome" where
  "ngx_minify_ut fn index [] s = ret (Go s)"
| "ngx_minify_ut fn index (p # ps) s =
     (let s = s\<lparr>printed := printed s @ [ut_title (index + 1)]\<rparr> in
      bindO (ut_feed fn (ut_data p) 0 0 (replicate 4096 NUL) zero_ctx) (\<lambda>r.
        case r of
          None \<Rightarrow> ret (Exit (-1) (s\<lparr>printed := printed s @ [ut_too_long]\<rparr>))
        | Some (orglen, dlen, dstbuf, c) \<Rightarrow>
            (let s = s\<lparr>case_num := case_num s + 1\<rparr> in
             bindO (ut_equal dstbuf (ut_result p) dlen) (\<lambda>eq.
               let s = (if \<not> eq
                   then s\<lparr>printed := printed s @ [ut_fail (takeWhile (\<lambda>x. x \<noteq> NUL) dstbuf) (ut_result p)]\<rparr>
                   else s\<lparr>printed := printed s @ [ut_ok orglen (int dlen)],
                          case_success_num := case_success_num s + 1\<rparr>);
                 s = (if sspos c \<noteq> 0 then s\<lparr>printed := printed s @ [ut_stack_error]\<rparr> else s)
               in ngx_minify_ut fn (index + 1) ps s))))"

definition run_suite :: "minify_type \<Rightarrow> ut_state control \<Rightarrow> ut_state control outcome" where
  "run_suite t r =
     (case r of
        Exit i s \<Rightarrow> ret (Exit i s)
      | Go s \<Rightarrow>
          (let e = case_entry ! type_index t in
           ngx_minify_ut (entry_fn e) 0 (entry_p e) (s\<lparr>printed := printed s @ [ut_suite t]\<rparr>)))"

definition ut_main ::
  "(string \<Rightarrow> bool) \<Rightarrow> string list \<Rightarrow> (string \<Rightarrow> string option) \<Rightarrow>
   (int \<times> ut_line list \<times> (string \<Rightarrow> string option)) outcome" where
  "ut_main creat argv fs =
     (if length argv = 5 \<and> argv ! 1 = ''-i'' \<and> argv ! 3 = ''-o'' then
        bindO (ngx_minify_ut_get_type (argv ! 2)) (\<lambda>type.
          let line = ut_read (argv ! 2) (argv ! 4) type in
          if type = minify_none then ret (-1, [line], fs)
          else bindO (ngx_minify_file creat (argv ! 2) (argv ! 4) type fs)
            (\<lambda>(r, ls, fs'). ret (0, line # ls, fs')))
      else
        bindO (seq [run_suite minify_html, run_suite minify_css, run_suite minify_js]
            (Go \<lparr>printed = [], case_num = 0, case_success_num = 0\<rparr>)) (\<lambda>r.
          case r of
            Exit i s \<Rightarrow> ret (i, printed s, fs)
          | Go s \<Rightarrow>
              ret (0, printed s @ [ut_finish (sint (case_success_num s)) (sint (case_num s))], fs)))"

section \<open>What the program computes\<close>

text \<open>
  The buffers of a case one after the other, each behind what was held back, without the buffers
  of the test program.
\<close>

fun ut_run ::
  "minify_process_f \<Rightarrow> string list \<Rightarrow> ngx_minify_ctx \<Rightarrow> (string \<times> ngx_minify_ctx) outcome" where
  "ut_run fn [] c = ret ([], c)"
| "ut_run fn (d # ds) c =
     bindO (fn (held c @ d) (c\<lparr>cachelen := 0\<rparr>)) (\<lambda>(o1, c).
     bindO (ut_run fn ds c) (\<lambda>(o2, c). ret (o1 @ o2, c)))"

text \<open>The messages of a run without failures.\<close>

fun ut_clean :: "ut_line \<Rightarrow> bool" where
  "ut_clean (ut_title i) = True"
| "ut_clean (ut_ok m n) = True"
| "ut_clean (ut_suite t) = True"
| "ut_clean _ = False"

text \<open>A process function whose output is what it left in the memory of its buffer.\<close>

locale minify_writer = minify_processor +
  assumes process_out: "process b c = ret (o', d) \<Longrightarrow> o' = take (nat (dstlen d)) (mem d)"
begin

lemma link_process:
  assumes "inv c" "n \<le> length data" "length (held c @ take n data) < 2 ^ 31"
  shows "ut_link process data n c = process (held c @ take n data) (c\<lparr>cachelen := 0\<rparr>)"
proof -
  let ?b = "held c @ take n data" and ?c = "c\<lparr>cachelen := 0\<rparr>"
  have cl: "0 \<le> cachelen c" "cachelen c \<le> 64" "length (cache c) = 64"
    using inv_idle [OF assms(1)] by (auto simp: idle_ok_def buf_ok_def)
  have app: "\<exists>b. bindO (ngx_minify_ut_copy_buf data n (ngx_minify_ut_create_buf n))
      (\<lambda>b. ngx_minify_ut_append_cache b c) = ret (b, ?c) \<and>
    buf_pos b = 0 \<and> take (buf_last b) (buf_start b) = ?b"
  proof (cases "cachelen c = 0")
    case True
    then have "?c = c" "held c = []" by (simp_all add: held_def)
    with True assms(2) show ?thesis
      by (auto simp: ngx_minify_ut_copy_buf_def ngx_minify_ut_create_buf_def memcpy_at_def
          ngx_minify_ut_append_cache_def buf_bytes_def)
  next
    case False
    with assms(2) cl show ?thesis
      by (auto simp: ngx_minify_ut_copy_buf_def ngx_minify_ut_create_buf_def memcpy_at_def
          ngx_minify_ut_append_cache_def buf_bytes_def held_def Let_def)
  qed
  then obtain b where b: "bindO (ngx_minify_ut_copy_buf data n (ngx_minify_ut_create_buf n))
      (\<lambda>b. ngx_minify_ut_append_cache b c) = ret (b, ?c)"
    "buf_pos b = 0" "take (buf_last b) (buf_start b) = ?b" by blast
  have "ut_link process data n c =
      bindO (bindO (ngx_minify_ut_copy_buf data n (ngx_minify_ut_create_buf n))
        (\<lambda>b. ngx_minify_ut_append_cache b c))
        (\<lambda>(b, c). bindO (ut_process process b c) (\<lambda>(b, d). bindO (ut_output b d) (\<lambda>w. ret (w, d))))"
    by (simp add: ut_link_def bindO_def split: option.splits sum.splits)
  also have "\<dots> = bindO (ut_process process b ?c) (\<lambda>(b, d). bindO (ut_output b d) (\<lambda>w. ret (w, d)))"
    by (simp add: b(1))
  also have "\<dots> = process ?b ?c"
  proof (cases rule: wp_cases [OF process_ok [OF assms(1,3)]])
    case (1 x)
    then obtain o' d where x: "process ?b ?c = ret (o', d)" "inv d" by (cases x) auto
    have "0 \<le> dstlen d" "nat (dstlen d) \<le> length (mem d)"
      using inv_idle [OF x(2)] by (auto simp: idle_ok_def)
    then show ?thesis
      using x process_out [OF x(1)] b by (simp add: ut_process_def buf_bytes_def ut_output_def)
  next
    case (2 f)
    then show ?thesis using b by (simp add: ut_process_def buf_bytes_def)
  qed
  finally show ?thesis .
qed

text \<open>The read loop ends on every file, and writes the bytes of the file with some deleted.\<close>

lemma file_loop_ok:
  assumes "inv c"
  shows "wp F (file_loop process input w n m c)
    (\<lambda>(w', _, _, d). inv d \<and> (\<exists>w0. w' = w @ w0 \<and>
      subseq (map nm (w0 @ held d)) (map nm (held c @ input))))"
  using assms
proof (induction "length input" arbitrary: input w n m c rule: less_induct)
  case less
  show ?case
  proof (cases "input = []")
    case True
    then show ?thesis using less.prems by (simp add: file_loop.simps [of _ "[]"])
  next
    case False
    let ?k = "length (take 128 input)"
    let ?r = "take 128 input @ replicate (128 - ?k) NUL"
    have bd: "length (held c @ take ?k ?r) < 2 ^ 31" using held_bound [OF less.prems] by simp
    have k: "?k \<noteq> 0" "take ?k ?r = take 128 input" using False by (auto simp: min_def)
    have "wp F (process (held c @ take 128 input) (c\<lparr>cachelen := 0\<rparr>))
      (\<lambda>(o1, d). wp F (file_loop process (drop 128 input) (w @ o1) (to_int32 (n + int ?k)) (to_int32 (m + dstlen d)) d)
        (\<lambda>(w', _, _, d). inv d \<and> (\<exists>w0. w' = w @ w0 \<and>
          subseq (map nm (w0 @ held d)) (map nm (held c @ input)))))"
    proof (rule wp_mono [OF process_ok [OF less.prems]], goal_cases)
      case (2 r)
      then obtain o1 d where r: "r = (o1, d)" and d: "inv d"
        and sub: "subseq (map nm (o1 @ held d)) (map nm (held c @ take 128 input))" by auto
      have "length (drop 128 input) < length input" using False by simp
      from less.hyps [OF this d] show ?case
        unfolding r prod.case
      proof (rule wp_mono, goal_cases)
        case (1 r')
        then obtain o2 w' n' m' e where r': "r' = (w', n', m', e)" "w' = (w @ o1) @ o2" "inv e"
          "subseq (map nm (o2 @ held e)) (map nm (held d @ drop 128 input))" by (cases r') auto
        have "subseq (map nm (o1 @ o2 @ held e)) (map nm (held c @ take 128 input @ drop 128 input))"
          by (rule subseq_glue [OF sub r'(4)])
        then show ?case using r' by (auto intro: exI [of _ "o1 @ o2"])
      qed
    qed (use bd k in simp)
    then show ?thesis
      using k link_process [OF less.prems _ bd]
      by (simp add: file_loop.simps [of _ input] Let_def case_prod_unfold)
  qed
qed

text \<open>A case: the inner loop fills \<open>dstbuf\<close> with what \<open>ut_run\<close> gives.\<close>

lemma process_length:
  assumes "inv c" "length (held c @ b) < 2 ^ 31" "process (held c @ b) (c\<lparr>cachelen := 0\<rparr>) = ret (o', d)"
  shows "inv d \<and> length o' + length (held d) \<le> length (held c) + length b"
proof -
  have "inv d" "subseq (map nm (o' @ held d)) (map nm (held c @ b))"
    using process_ok [OF assms(1,2)] assms(3) by simp_all
  then show ?thesis using list_emb_length by fastforce
qed

lemma ut_feed_run:
  assumes "inv c" "int (length w0 + length (held c)) \<le> n" "n + int (length (concat ds)) \<le> 4096"
  shows "ut_feed process ds n (length w0) (w0 @ replicate (4096 - length w0) NUL) c =
    bindO (ut_run process ds c) (\<lambda>(o', d).
      ret (Some (n + int (length (concat ds)), length w0 + length o',
        w0 @ o' @ replicate (4096 - (length w0 + length o')) NUL, d)))"
  using assms
proof (induction ds arbitrary: n w0 c)
  case Nil
  then show ?case by simp
next
  case (Cons b ds)
  have bd: "length (held c @ b) < 2 ^ 31" using Cons.prems by simp
  have lk: "ut_link process b (length b) c = process (held c @ b) (c\<lparr>cachelen := 0\<rparr>)"
    using link_process [OF Cons.prems(1), of "length b" b] bd by simp
  show ?case
  proof (cases rule: wp_cases [OF process_ok [OF Cons.prems(1) bd]])
    case (1 r)
    then obtain o1 d where r: "process (held c @ b) (c\<lparr>cachelen := 0\<rparr>) = ret (o1, d)" by (cases r) auto
    note l = process_length [OF Cons.prems(1) bd r]
    have cp: "memcpy_at (length w0) o1 (w0 @ replicate (4096 - length w0) NUL) =
        ret ((w0 @ o1) @ replicate (4096 - length (w0 @ o1)) NUL)"
      using l Cons.prems by (simp add: memcpy_at_def)
    have "ut_feed process ds (n + int (length b)) (length (w0 @ o1))
        ((w0 @ o1) @ replicate (4096 - length (w0 @ o1)) NUL) d =
      bindO (ut_run process ds d) (\<lambda>(o', e).
        ret (Some (n + int (length b) + int (length (concat ds)), length (w0 @ o1) + length o',
          (w0 @ o1) @ o' @ replicate (4096 - (length (w0 @ o1) + length o')) NUL, e)))"
      using l Cons.prems by (intro Cons.IH) auto
    then have "ut_feed process (b # ds) n (length w0) (w0 @ replicate (4096 - length w0) NUL) c =
      bindO (ut_run process ds d) (\<lambda>(o', e).
        ret (Some (n + int (length b) + int (length (concat ds)), length (w0 @ o1) + length o',
          (w0 @ o1) @ o' @ replicate (4096 - (length (w0 @ o1) + length o')) NUL, e)))"
      using Cons.prems lk r cp by simp
    also have "\<dots> = bindO (ut_run process (b # ds) c) (\<lambda>(o', d).
      ret (Some (n + int (length (concat (b # ds))), length w0 + length o',
        w0 @ o' @ replicate (4096 - (length w0 + length o')) NUL, d)))"
      using r by (cases "ut_run process ds d") (auto simp: bindO_def algebra_simps split: sum.splits)
    finally show ?thesis .
  next
    case (2 f)
    then show ?thesis using Cons.prems lk by simp
  qed
qed

lemma suite_run:
  assumes "inv zero_ctx"
    and "\<forall>p \<in> set ps. length (concat (ut_data p)) \<le> 4096 \<and>
      (\<exists>o' d. ut_run process (ut_data p) zero_ctx = ret (o', d) \<and> prefix o' (ut_result p) \<and> sspos d = 0)"
  shows "\<exists>ls. ngx_minify_ut process i ps s =
      ret (Go (s\<lparr>printed := printed s @ ls, case_num := case_num s + of_nat (length ps),
        case_success_num := case_success_num s + of_nat (length ps)\<rparr>)) \<and> list_all ut_clean ls"
  using assms(2)
proof (induction ps arbitrary: i s)
  case Nil
  then show ?case by (intro exI [of _ "[]"]) simp
next
  case (Cons p ps)
  then obtain o' d where run: "ut_run process (ut_data p) zero_ctx = ret (o', d)"
    "prefix o' (ut_result p)" "sspos d = 0" "length (concat (ut_data p)) \<le> 4096" by auto
  have zero: "held zero_ctx = []" by (simp add: held_def)
  have feed: "ut_feed process (ut_data p) 0 0 (replicate 4096 NUL) zero_ctx =
      ret (Some (int (length (concat (ut_data p))), length o', o' @ replicate (4096 - length o') NUL, d))"
    using ut_feed_run [OF assms(1), of "[]" 0 "ut_data p"] run zero by simp
  have eq: "ut_equal (o' @ replicate (4096 - length o') NUL) (ut_result p) (length o') = ret True"
    using run(2) by (auto simp: ut_equal_def prefix_def)
  let ?ls = "[ut_title (i + 1), ut_ok (int (length (concat (ut_data p)))) (int (length o'))]"
  let ?s = "s\<lparr>printed := printed s @ ?ls, case_num := case_num s + 1, case_success_num := case_success_num s + 1\<rparr>"
  obtain ls where "ngx_minify_ut process (i + 1) ps ?s =
      ret (Go (?s\<lparr>printed := printed ?s @ ls, case_num := case_num ?s + of_nat (length ps),
        case_success_num := case_success_num ?s + of_nat (length ps)\<rparr>))" "list_all ut_clean ls"
    using Cons.IH [of "i + 1" ?s] Cons.prems by auto
  then show ?case
    using feed eq run(3) by (intro exI [of _ "?ls @ ls"]) (cases s, simp add: Let_def algebra_simps)
qed

end

section \<open>The minifiers on their tests\<close>

lemma output_of_bind:
  "bindO m (\<lambda>d. ret (take (nat (dstlen d)) (mem d), d)) = ret (o', d) \<Longrightarrow> o' = take (nat (dstlen d)) (mem d)"
  by (auto simp: bindO_def split: option.splits sum.splits)

text \<open>The test program leaves the file type of the context zero.\<close>

abbreviation ut_type :: ngx_minify_type_e where
  "ut_type \<equiv> MINIFY_FILE_TYPE_NONE"

interpretation ut_html: minify_writer ngx_minify_html_process "html_idle ut_type" ut_type id tag_faults
  by (intro minify_writer.intro html_contract minify_writer_axioms.intro)
     (auto simp: ngx_minify_html_process_def dest: output_of_bind)

interpretation ut_css: minify_writer ngx_minify_css_process "css_idle ut_type" ut_type id "{}"
  by (intro minify_writer.intro css_contract minify_writer_axioms.intro)
     (auto simp: ngx_minify_css_process_def dest: output_of_bind)

interpretation ut_js: minify_writer ngx_minify_js_process "js_idle ut_type" ut_type nl_to_sp "{}"
  by (intro minify_writer.intro js_contract minify_writer_axioms.intro)
     (auto simp: ngx_minify_js_process_def dest: output_of_bind)

lemma zero_ctx_idle: "html_idle ut_type zero_ctx"  "css_idle ut_type zero_ctx"  "js_idle ut_type zero_ctx"
  using ut_html.inv_init ut_css.inv_init ut_js.inv_init by (simp_all add: zero_ctx_def)

context scanned begin

lemma ut_run_scan:
  assumes "idle c" "list_all (\<lambda>b. length b < 2 ^ 30) ds"
    and "scan_run step leave (abs c) (held c) ds = (o', st, h)"
  shows "\<exists>d. ut_run process ds c = ret (o', d) \<and> idle d \<and> abs d = st \<and> held d = h"
  using assms
proof (induction ds arbitrary: c o')
  case Nil
  then show ?case by simp
next
  case (Cons b ds)
  obtain o1 st1 h1 where s1: "scan step leave (abs c) None (held c @ b) = (o1, st1, h1)"
    by (rule prod_cases3)
  have len: "length (held c @ b) < 2 ^ 31" using held_short [OF Cons.prems(1)] Cons.prems(2) by simp
  obtain d1 where d1: "process (held c @ b) (c\<lparr>cachelen := 0\<rparr>) = ret (o1, d1)" "idle d1"
    "abs d1 = st1" "held d1 = h1" using process_returns [OF Cons.prems(1) len s1] by blast
  obtain o2 where o2: "scan_run step leave st1 h1 ds = (o2, st, h)" "o' = o1 @ o2"
    using Cons.prems(3) s1 by (cases "scan_run step leave st1 h1 ds") auto
  then obtain d where "ut_run process ds d1 = ret (o2, d)" "idle d" "abs d = st" "held d = h"
    using Cons.IH [OF d1(2), of o2] d1(3,4) Cons.prems(2) by auto
  then show ?case using d1(1) o2(2) by auto
qed

end

lemma sspos_zero: "idle_ok c \<Longrightarrow> length (stk c) = 1 \<Longrightarrow> sspos c = 0"
  by (auto simp: idle_ok_def buf_ok_def stk_def)


lemma short_buffers: "length (concat ds) \<le> 4096 \<Longrightarrow> list_all (\<lambda>b. length b < 2 ^ 30) ds"
  by (induction ds) auto

definition case_scans :: "'s stepper \<Rightarrow> ('s \<Rightarrow> char option \<Rightarrow> 's) \<Rightarrow> 's \<Rightarrow> ('s \<Rightarrow> bool) \<Rightarrow> ut_case \<Rightarrow> bool" where
  "case_scans step leave st fin p =
     (length (concat (ut_data p)) \<le> 4096 \<and>
      (case scan_run step leave st [] (ut_data p) of
         (o', st', h) \<Rightarrow> prefix o' (ut_result p) \<and> fin st'))"

context scanned begin

lemma suite_scan:
  assumes "idle zero_ctx" "list_all (case_scans step leave (abs zero_ctx) fin) ps"
    and "\<And>d. idle d \<Longrightarrow> fin (abs d) \<Longrightarrow> sspos d = 0"
  shows "\<forall>p \<in> set ps. length (concat (ut_data p)) \<le> 4096 \<and>
    (\<exists>o' d. ut_run process (ut_data p) zero_ctx = ret (o', d) \<and> prefix o' (ut_result p) \<and> sspos d = 0)"
proof
  fix p assume "p \<in> set ps"
  then have p: "case_scans step leave (abs zero_ctx) fin p" using assms(2) by (simp add: list_all_iff)
  obtain o' st h where r: "scan_run step leave (abs zero_ctx) [] (ut_data p) = (o', st, h)"
    by (rule prod_cases3)
  have l: "length (concat (ut_data p)) \<le> 4096" "prefix o' (ut_result p)" "fin st"
    using p unfolding case_scans_def r by simp_all
  have "held zero_ctx = []" by (simp add: held_def)
  then obtain d where "ut_run process (ut_data p) zero_ctx = ret (o', d)" "idle d" "abs d = st"
    using ut_run_scan [OF assms(1) short_buffers [OF l(1)], of o' st h] r by auto
  then show "length (concat (ut_data p)) \<le> 4096 \<and>
    (\<exists>o' d. ut_run process (ut_data p) zero_ctx = ret (o', d) \<and> prefix o' (ut_result p) \<and> sspos d = 0)"
    using l assms(3) [of d] by auto
qed

end

interpretation ut_css_scan: scanned ngx_minify_css_process "css_idle ut_type" "css_abs True" css_step css_leave
  by (rule scanned.intro [OF _ css_process_scan]) (auto simp: css_idle_def)

interpretation ut_js_scan: scanned ngx_minify_js_process "js_idle ut_type" js_abs js_step js_leave
  by (rule scanned.intro [OF _ js_process_scan]) (auto simp: js_idle_def)

lemma zero_ctx_abs: "css_abs True zero_ctx = CText NUL"  "js_abs zero_ctx = JText NUL"
  by (simp_all add: css_abs_def js_abs_def) (simp_all add: zero_ctx_def)

fun css_in_text :: "css_st \<Rightarrow> bool" where
  "css_in_text (CText p) = True"
| "css_in_text _ = False"

fun js_in_text :: "js_st \<Rightarrow> bool" where
  "js_in_text (JText p) = True"
| "js_in_text _ = False"

lemma css_suite: "list_all (case_scans css_step css_leave (CText NUL) css_in_text) css_ut_data"
  by code_simp

lemma js_suite: "list_all (case_scans js_step js_leave (JText NUL) js_in_text) js_ut_data"
  by code_simp

lemma suite_lengths: "length css_ut_data = 18"  "length js_ut_data = 18"
  unfolding css_ut_data_def js_ut_data_def by (simp_all only: list.size)

lemma css_suite_runs:
  "\<forall>p \<in> set css_ut_data. length (concat (ut_data p)) \<le> 4096 \<and>
    (\<exists>o' d. ut_run ngx_minify_css_process (ut_data p) zero_ctx = ret (o', d) \<and>
      prefix o' (ut_result p) \<and> sspos d = 0)"
proof (rule ut_css_scan.suite_scan [OF zero_ctx_idle(2)])
  show "list_all (case_scans css_step css_leave (css_abs True zero_ctx) css_in_text) css_ut_data"
    using css_suite by (simp only: zero_ctx_abs)
  show "sspos d = 0" if "css_idle ut_type d" "css_in_text (css_abs True d)" for d
    using that by (cases "css_abs True d") (auto simp: css_idle_def dest!: css_abs_text intro!: sspos_zero)
qed

lemma js_suite_runs:
  "\<forall>p \<in> set js_ut_data. length (concat (ut_data p)) \<le> 4096 \<and>
    (\<exists>o' d. ut_run ngx_minify_js_process (ut_data p) zero_ctx = ret (o', d) \<and>
      prefix o' (ut_result p) \<and> sspos d = 0)"
proof (rule ut_js_scan.suite_scan [OF zero_ctx_idle(3)])
  show "list_all (case_scans js_step js_leave (js_abs zero_ctx) js_in_text) js_ut_data"
    using js_suite by (simp only: zero_ctx_abs)
  show "sspos d = 0" if "js_idle ut_type d" "js_in_text (js_abs d)" for d
    using that by (cases "js_abs d") (auto simp: js_idle_def dest!: js_abs_text intro!: sspos_zero)
qed

text \<open>The HTML scanner over the buffers of a case; it can fail.\<close>

fun html_scan_run :: "html_st \<Rightarrow> string \<Rightarrow> string list \<Rightarrow> html_out" where
  "html_scan_run st h [] = ret ([], st, h)"
| "html_scan_run st h (b # bs) =
     bindO (html_scan st None (h @ b)) (\<lambda>(o1, st1, h1). emitO o1 (html_scan_run st1 h1 bs))"

lemma html_ut_run:
  assumes "html_paused T c" "list_all (\<lambda>b. length b < 2 ^ 30) ds"
    and "html_scan_run (html_abs c) (held c) ds = ret (o', st, h)"
  shows "\<exists>d. ut_run ngx_minify_html_process ds c = ret (o', d) \<and> html_paused T d \<and> html_abs d = st"
  using assms
proof (induction ds arbitrary: c o')
  case Nil
  then show ?case by auto
next
  case (Cons b ds)
  have "length (held c) \<le> 64"
    using Cons.prems(1) by (auto simp: html_paused_def html_idle_def idle_ok_def buf_ok_def held_def)
  then have len: "length (held c @ b) < 2 ^ 31" using Cons.prems(2) by simp
  obtain o1 st1 h1 where s1: "html_scan (html_abs c) None (held c @ b) = ret (o1, st1, h1)"
    using Cons.prems(3) by (auto simp: bindO_def split: option.splits sum.splits)
  then obtain d1 where d1: "ngx_minify_html_process (held c @ b) (c\<lparr>cachelen := 0\<rparr>) = ret (o1, d1)"
    "html_abs d1 = st1" "held d1 = h1" "html_paused T d1"
    using html_process_scan [OF Cons.prems(1) len] by auto
  obtain o2 where o2: "html_scan_run st1 h1 ds = ret (o2, st, h)" "o' = o1 @ o2"
    using Cons.prems(3) s1 by (auto simp: emitO_ret)
  then obtain d where "ut_run ngx_minify_html_process ds d1 = ret (o2, d)" "html_paused T d" "html_abs d = st"
    using Cons.IH [OF d1(4), of o2] d1(2,3) Cons.prems(2) by auto
  then show ?case using d1(1) o2(2) by auto
qed

text \<open>The states in which the stack has one element.\<close>

fun html_single :: "html_st \<Rightarrow> bool" where
  "html_single (HText p t) = True"
| "html_single (HSkip t) = True"
| "html_single HAbort = True"
| "html_single _ = False"

definition html_case_scans :: "ut_case \<Rightarrow> bool" where
  "html_case_scans p =
     (length (concat (ut_data p)) \<le> 4096 \<and>
      (case html_scan_run (HText NUL []) [] (ut_data p) of
         Some (Inr (o', st, h)) \<Rightarrow> prefix o' (ut_result p) \<and> html_single st
       | _ \<Rightarrow> False))"

lemma html_suite: "list_all html_case_scans html_ut_data"
  by code_simp

lemma html_suite_runs:
  "\<forall>p \<in> set html_ut_data. length (concat (ut_data p)) \<le> 4096 \<and>
    (\<exists>o' d. ut_run ngx_minify_html_process (ut_data p) zero_ctx = ret (o', d) \<and>
      prefix o' (ut_result p) \<and> sspos d = 0)"
proof
  fix p assume "p \<in> set html_ut_data"
  then have p: "html_case_scans p" using html_suite by (simp add: list_all_iff)
  then obtain o' st h where r: "html_scan_run (HText NUL []) [] (ut_data p) = ret (o', st, h)"
    "prefix o' (ut_result p)" "html_single st" "length (concat (ut_data p)) \<le> 4096"
    by (auto simp: html_case_scans_def split: option.splits sum.splits)
  have z: "html_paused ut_type zero_ctx"
  proof -
    have "zero_ctx\<lparr>ctype := ut_type\<rparr> = zero_ctx" by (simp add: zero_ctx_def)
    then show ?thesis using html_fresh_paused [of ut_type] by simp
  qed
  have "html_abs zero_ctx = HText NUL []" using html_fresh_fields(3) by (simp add: html_abs_def tname_def)
  then obtain d where d: "ut_run ngx_minify_html_process (ut_data p) zero_ctx = ret (o', d)" "html_paused ut_type d"
    "html_abs d = st"
    using html_ut_run [OF z short_buffers [OF r(4)], of o' st h] r(1) by auto
  have ok: "idle_ok d" "stk d \<in> html_stacks" using d(2) by (simp_all add: html_paused_def html_idle_def)
  have "hd (stk d) \<in> {minify_state_text, minify_state_abort, html_state_skip}"
    using r(3) d(3) ok(2) by (auto simp: html_abs_def html_stacks_def)
  from html_shapes(1) [OF ok(2) this] have "length (stk d) = 1" by (metis One_nat_def length_Cons list.size(3))
  with d r ok sspos_zero [of d] show "length (concat (ut_data p)) \<le> 4096 \<and>
    (\<exists>o' d. ut_run ngx_minify_html_process (ut_data p) zero_ctx = ret (o', d) \<and>
      prefix o' (ut_result p) \<and> sspos d = 0)" by blast
qed

lemma html_suite_length: "length html_ut_data = 26"
  by code_simp

section \<open>Properties\<close>

lemma entry_of:
  "entry_fn (case_entry ! type_index minify_html) = ngx_minify_html_process"
  "entry_fn (case_entry ! type_index minify_css) = ngx_minify_css_process"
  "entry_fn (case_entry ! type_index minify_js) = ngx_minify_js_process"
  "entry_p (case_entry ! type_index minify_html) = html_ut_data"
  "entry_p (case_entry ! type_index minify_css) = css_ut_data"
  "entry_p (case_entry ! type_index minify_js) = js_ut_data"
  by (simp_all add: case_entry_def)

text \<open>The three minifiers under one bound of faults and one renaming.\<close>

lemma read_loop_ends:
  assumes "type \<noteq> minify_none"
  shows "wp (if type = minify_html then tag_faults else {})
    (file_loop (entry_fn (case_entry ! type_index type)) inp [] 0 0 zero_ctx)
    (\<lambda>(w, _, _, d). subseq (map nl_to_sp w) (map nl_to_sp inp))"
proof -
  have zero: "held zero_ctx = []" by (simp add: held_def)
  have cut: "subseq (map nm w) (map nm inp)" if "subseq (map nm (w @ h)) (map nm inp)" for nm and w h :: string
    by (rule subseq_order.trans [OF _ that]) (simp add: prefix_imp_subseq)
  have id: "subseq (map nl_to_sp w) (map nl_to_sp inp)" if "subseq (map id (w @ h)) (map id inp)" for w h
    using subseq_map [of w inp nl_to_sp] cut [OF that] by simp
  show ?thesis
  proof (cases type)
    case minify_html
    show ?thesis unfolding minify_html entry_of
      by (rule wp_weaken [OF ut_html.file_loop_ok [OF zero_ctx_idle(1)]])
         (use zero id in \<open>auto simp del: map_append list.map_id\<close>)
  next
    case minify_css
    show ?thesis unfolding minify_css entry_of
      by (rule wp_weaken [OF ut_css.file_loop_ok [OF zero_ctx_idle(2)]])
         (use zero id in \<open>auto simp del: map_append list.map_id\<close>)
  next
    case minify_js
    show ?thesis unfolding minify_js entry_of
      by (rule wp_weaken [OF ut_js.file_loop_ok [OF zero_ctx_idle(3)]])
         (use zero cut in \<open>auto simp del: map_append list.map_id\<close>)
  qed (use assms in simp)
qed

text \<open>
  C9: minifying a file ends. For every file, read in pieces of 128 bytes, the program returns (the
  HTML minifier may also overflow a tag-name cache); it changes no file but the one it writes. If
  the two files are different and both can be opened, the file written holds the bytes of the file
  read with bytes deleted, up to line breaks that became spaces.
\<close>

theorem minify_file_ends:
  assumes "type \<noteq> minify_none"
  shows "(\<exists>r ls fs'. ngx_minify_file creat file wfile type fs = ret (r, ls, fs') \<and>
      (\<forall>f. f \<noteq> wfile \<longrightarrow> fs' f = fs f) \<and>
      (creat wfile \<and> file \<noteq> wfile \<and> fs file \<noteq> None \<longrightarrow> r = 0 \<and>
        (\<exists>w. fs' wfile = Some w \<and> subseq (map nl_to_sp w) (map nl_to_sp (the (fs file)))))) \<or>
    type = minify_html \<and>
    (\<exists>f \<in> {TagCacheBounds, TagEndCacheBounds}. ngx_minify_file creat file wfile type fs = fail f)"
proof -
  let ?F = "if type = minify_html then tag_faults else {}"
  let ?Q = "\<lambda>(r, ls, fs'). (\<forall>f. f \<noteq> wfile \<longrightarrow> fs' f = fs f) \<and>
      (creat wfile \<and> file \<noteq> wfile \<and> fs file \<noteq> None \<longrightarrow> r = (0 :: int) \<and>
        (\<exists>w. fs' wfile = Some w \<and> subseq (map nl_to_sp w) (map nl_to_sp (the (fs file)))))"
  have "wp ?F (ngx_minify_file creat file wfile type fs) ?Q"
  proof (cases "fs file = None \<or> \<not> creat wfile")
    case True
    then show ?thesis by (auto simp: ngx_minify_file_def)
  next
    case False
    let ?inp = "if file = wfile then [] else the (fs file)"
    have inp: "the ((fs(wfile \<mapsto> [])) file) = ?inp" by simp
    have "wp ?F (file_loop (entry_fn (case_entry ! type_index type)) ?inp [] 0 0 zero_ctx)
      (\<lambda>r. wp ?F (case r of (w, m, n, c) \<Rightarrow> ret (0, [ut_ok m n], (fs(wfile \<mapsto> []))(wfile \<mapsto> w))) ?Q)"
      by (rule wp_mono [OF read_loop_ends [OF assms]]) auto
    with False show ?thesis
      unfolding ngx_minify_file_def Let_def by (auto simp: inp simp del: fun_upd_apply)
  qed
  then show ?thesis
    by (cases rule: wp_cases) (auto split: if_splits)
qed

theorem minify_file_ends_witness:
  "\<exists>r ls fs'. ngx_minify_file (\<lambda>_. True) ''a.css'' ''b.css'' minify_css [''a.css'' \<mapsto> ''p  q''] = ret (r, ls, fs') \<and>
    r = 0 \<and> (\<exists>w. fs' ''b.css'' = Some w \<and> subseq (map nl_to_sp w) ''p  q'')"
  using minify_file_ends [of minify_css "\<lambda>_. True" "''a.css''" "''b.css''" "[''a.css'' \<mapsto> ''p  q'']"]
  by (auto simp: nl_to_sp_def)

lemma suite_control:
  assumes "\<And>i s. \<exists>ls. ngx_minify_ut (entry_fn (case_entry ! type_index t)) i (entry_p (case_entry ! type_index t)) s =
      ret (Go (s\<lparr>printed := printed s @ ls, case_num := case_num s + of_nat n,
        case_success_num := case_success_num s + of_nat n\<rparr>)) \<and> list_all ut_clean ls"
  shows "\<exists>ls. run_suite t (Go \<lparr>printed = l0, case_num = k, case_success_num = k\<rparr>) =
      ret (Go \<lparr>printed = l0 @ ls, case_num = k + of_nat n, case_success_num = k + of_nat n\<rparr>) \<and> list_all ut_clean ls"
proof -
  obtain ls where "ngx_minify_ut (entry_fn (case_entry ! type_index t)) 0 (entry_p (case_entry ! type_index t))
      \<lparr>printed = l0 @ [ut_suite t], case_num = k, case_success_num = k\<rparr> =
    ret (Go \<lparr>printed = (l0 @ [ut_suite t]) @ ls, case_num = k + of_nat n, case_success_num = k + of_nat n\<rparr>)"
    "list_all ut_clean ls"
    using assms [of 0 "\<lparr>printed = l0 @ [ut_suite t], case_num = k, case_success_num = k\<rparr>"] by auto
  then show ?thesis by (intro exI [of _ "ut_suite t # ls"]) (simp add: run_suite_def Let_def)
qed

text \<open>
  C10: the test program passes. Run without files, it ends with the exit status zero, all 62 of its
  cases are counted as passed, and it reports no failure and no stack that is not back at its start.
\<close>

theorem ut_all_pass:
  "\<exists>ls. ut_main creat [prog] fs = ret (0, ls @ [ut_finish 62 62], fs) \<and> list_all ut_clean ls"
proof -
  have h: "\<exists>ls. ngx_minify_ut ngx_minify_html_process i html_ut_data s =
      ret (Go (s\<lparr>printed := printed s @ ls, case_num := case_num s + of_nat 26,
        case_success_num := case_success_num s + of_nat 26\<rparr>)) \<and> list_all ut_clean ls" for i s
    using ut_html.suite_run [OF zero_ctx_idle(1) html_suite_runs] unfolding html_suite_length .
  have c: "\<exists>ls. ngx_minify_ut ngx_minify_css_process i css_ut_data s =
      ret (Go (s\<lparr>printed := printed s @ ls, case_num := case_num s + of_nat 18,
        case_success_num := case_success_num s + of_nat 18\<rparr>)) \<and> list_all ut_clean ls" for i s
    using ut_css.suite_run [OF zero_ctx_idle(2) css_suite_runs] unfolding suite_lengths .
  have j: "\<exists>ls. ngx_minify_ut ngx_minify_js_process i js_ut_data s =
      ret (Go (s\<lparr>printed := printed s @ ls, case_num := case_num s + of_nat 18,
        case_success_num := case_success_num s + of_nat 18\<rparr>)) \<and> list_all ut_clean ls" for i s
    using ut_js.suite_run [OF zero_ctx_idle(3) js_suite_runs] unfolding suite_lengths .
  obtain l1 where 1: "run_suite minify_html (Go \<lparr>printed = [], case_num = 0, case_success_num = 0\<rparr>) =
      ret (Go \<lparr>printed = l1, case_num = 26, case_success_num = 26\<rparr>)" "list_all ut_clean l1"
    using suite_control [of minify_html 26 "[]" 0] h unfolding entry_of by auto
  obtain l2 where 2: "run_suite minify_css (Go \<lparr>printed = l1, case_num = 26, case_success_num = 26\<rparr>) =
      ret (Go \<lparr>printed = l1 @ l2, case_num = 44, case_success_num = 44\<rparr>)" "list_all ut_clean l2"
    using suite_control [of minify_css 18 l1 26] c unfolding entry_of by auto
  obtain l3 where 3: "run_suite minify_js (Go \<lparr>printed = l1 @ l2, case_num = 44, case_success_num = 44\<rparr>) =
      ret (Go \<lparr>printed = (l1 @ l2) @ l3, case_num = 62, case_success_num = 62\<rparr>)" "list_all ut_clean l3"
    using suite_control [of minify_js 18 "l1 @ l2" 44] j unfolding entry_of by auto
  show ?thesis
    by (rule exI [of _ "l1 @ l2 @ l3"]) (use 1 2 3 in \<open>simp add: ut_main_def\<close>)
qed

text \<open>
  The file written is truncated before the file read is looked at: minifying a file in place
  leaves it empty.
\<close>

lemma minify_file_in_place:
  assumes "creat f" "fs f = Some inp"
  shows "ngx_minify_file creat f f type fs = ret (0, [ut_ok 0 0], fs(f \<mapsto> []))"
  using assms by (simp add: ngx_minify_file_def file_loop.simps [of _ "[]"])

text \<open>
  The type of a file is found by comparing the suffix with each name over the length of the name:
  a suffix that only begins with the name counts, and a file without a dot is a null pointer.
\<close>

lemma get_type_by_prefix:
  "ngx_minify_ut_get_type ''a.json'' = ret minify_js"
  "ngx_minify_ut_get_type ''Makefile'' = fail NullPointer"
  by code_simp+

text \<open>
  The tests compare as many bytes as the minifier wrote: a minifier that writes nothing passes
  every test. In the first test for JavaScript the result lacks the line break that is expected.
\<close>

lemma silent_minifier_passes:
  assumes "list_all (\<lambda>p. length (concat (ut_data p)) \<le> 4096) ps"
  shows "\<exists>ls. ngx_minify_ut (\<lambda>b c. ret ([], c\<lparr>dstlen := 0, mem := b\<rparr>)) i ps s =
      ret (Go (s\<lparr>printed := printed s @ ls, case_num := case_num s + of_nat (length ps),
        case_success_num := case_success_num s + of_nat (length ps)\<rparr>)) \<and> list_all ut_clean ls"
proof -
  let ?fn = "\<lambda>b c. ret ([], c\<lparr>dstlen := 0, mem := b\<rparr>) :: (string \<times> ngx_minify_ctx) outcome"
  let ?inv = "\<lambda>c. ctype c = ut_type \<and> idle_ok c \<and> cachelen c = 0 \<and> sspos c = 0"
  have w: "minify_writer ?fn ?inv ut_type id {}"
    by unfold_locales (auto simp: idle_ok_def buf_ok_def zero_ctx_def held_def)
  have run: "\<exists>d. ut_run ?fn ds c = ret ([], d) \<and> ?inv d" if "?inv c" for ds c
    using that
  proof (induction ds arbitrary: c)
    case (Cons b ds)
    have "?inv (c\<lparr>cachelen := 0, dstlen := 0, mem := held c @ b\<rparr>)"
      using Cons.prems by (simp add: idle_ok_def buf_ok_def)
    from Cons.IH [OF this] show ?case by auto
  qed simp
  have zero: "?inv zero_ctx" by (simp add: idle_ok_zero_ctx) (simp add: zero_ctx_def)
  have "\<exists>o' d. ut_run ?fn (ut_data p) zero_ctx = ret (o', d) \<and> prefix o' (ut_result p) \<and> sspos d = 0" for p
    using run [OF zero, of "ut_data p"] by (metis Nil_prefix)
  moreover have "length (concat (ut_data p)) \<le> 4096" if "p \<in> set ps" for p
    using assms that by (simp add: list_all_iff)
  ultimately show ?thesis
    by (intro minify_writer.suite_run [OF w zero]) blast
qed

lemma first_js_test_short:
  "\<exists>d. ut_run ngx_minify_js_process (ut_data (hd js_ut_data)) zero_ctx =
      ret (''var me = this;var me = that;var me = this;'', d) \<and>
    ut_result (hd js_ut_data) = ''var me = this;var me = that;var me = this;'' @ [NL]"
proof -
  have run: "scan_run js_step js_leave (JText NUL) [] (ut_data (hd js_ut_data)) =
      (''var me = this;var me = that;var me = this;'', JText NL, [])"
    and exp: "ut_result (hd js_ut_data) = ''var me = this;var me = that;var me = this;'' @ [NL]"
    and short: "length (concat (ut_data (hd js_ut_data))) \<le> 4096"
    by code_simp+
  have "held zero_ctx = []" by (simp add: held_def)
  then show ?thesis
    using ut_js_scan.ut_run_scan [OF zero_ctx_idle(3) short_buffers [OF short]] run exp
    by (auto simp: zero_ctx_abs)
qed

end
