(* ===== verification/Strip_Module.thy ===== *)
theory Strip_Module
  imports Ngx_Core
begin

text \<open>
  The strip module, \<open>src/modules/mod_strip/ngx_http_strip_filter_module.c\<close>: an automaton
  over the bytes of an HTML page that drops white space between tags and inside them, rewriting
  each buffer in place. Its state is the only thing kept between buffers. First the code, one
  definition for each group of cases of the \<open>switch\<close>; then the in-place loop is shown to be a
  run of the automaton over a list, and the properties are proved of runs.
\<close>

section \<open>The automaton\<close>

datatype ngx_http_strip_state_e =
    strip_state_text
  | strip_state_text_whitespace
  | strip_state_tag
  | strip_state_tag_name
  | strip_state_tag_whitespace
  | strip_state_tag_attribute_name
  | strip_state_tag_attribute_equals
  | strip_state_tag_attribute_value
  | strip_state_tag_attribute_value_double_quote
  | strip_state_tag_attribute_value_single_quote
  | strip_state_end_tag
  | strip_state_end_tag_name
  | strip_state_comment
  | strip_state_comment_dash
  | strip_state_comment_dash_dash
  | strip_state_tag_bang
  | strip_state_tag_bang_dash
  | strip_state_tag_bang_stuff
  | strip_state_tag_bang_bracket
  | strip_state_tag_bang_bracket_c
  | strip_state_tag_bang_bracket_cd
  | strip_state_tag_bang_bracket_cda
  | strip_state_tag_bang_bracket_cdat
  | strip_state_tag_bang_bracket_cdata
  | strip_state_cdata
  | strip_state_cdata_bracket
  | strip_state_cdata_bracket_bracket
  | strip_state_tag_name_p
  | strip_state_tag_name_pr
  | strip_state_tag_name_pre
  | strip_state_preformatted
  | strip_state_preformatted_angle
  | strip_state_preformatted_angle_slash
  | strip_state_preformatted_angle_slash_p
  | strip_state_preformatted_angle_slash_pr
  | strip_state_preformatted_angle_slash_pre
  | strip_state_abort

text \<open>
  What one case does with the byte under the reader: \<open>Continue\<close> (the byte is dropped), or a
  new state, with the byte \<open>*reader\<close> holds after the case, which is copied.
\<close>

datatype strip_action = Continue | Copy ngx_http_strip_state_e char

definition strip_case_text :: "char \<Rightarrow> strip_action" where
  "strip_case_text ch =
     (if ch = CR \<or> ch = NL \<or> ch = TAB then Continue
      else if ch = CHR ''<'' then Copy strip_state_tag ch
      else if ch = SP then Copy strip_state_text_whitespace ch
      else Copy strip_state_text ch)"

definition is_letter :: "char \<Rightarrow> bool" where
  "is_letter ch =
     ((of_char CHR ''a'' :: nat) \<le> of_char ch \<and> (of_char ch :: nat) \<le> of_char CHR ''z'' \<or>
      (of_char CHR ''A'' :: nat) \<le> of_char ch \<and> (of_char ch :: nat) \<le> of_char CHR ''Z'')"

definition strip_case_tag :: "char \<Rightarrow> strip_action" where
  "strip_case_tag ch =
     (if ch = CHR ''!'' then Copy strip_state_tag_bang ch
      else if ch = CHR ''/'' then Copy strip_state_end_tag ch
      else if ch = CHR ''p'' \<or> ch = CHR ''P'' then Copy strip_state_tag_name_p ch
      else if ch = SP then Copy strip_state_tag ch
      else if is_letter ch then Copy strip_state_tag_name ch
      else Copy strip_state_abort ch)"

definition strip_case_tag_name :: "ngx_http_strip_state_e \<Rightarrow> char \<Rightarrow> strip_action" where
  "strip_case_tag_name st ch =
     (if st = strip_state_tag_name then
        (if ch = CHR ''>'' then Copy strip_state_text ch
         else if ch = SP then Copy strip_state_tag_whitespace ch
         else Copy st ch)
      else if st = strip_state_tag_name_p then
        (if ch = CHR ''r'' \<or> ch = CHR ''R'' then Copy strip_state_tag_name_pr ch
         else if ch = SP then Copy strip_state_tag_whitespace ch
         else if ch = CHR ''>'' then Copy strip_state_text ch
         else Copy strip_state_tag_name ch)
      else if st = strip_state_tag_name_pr then
        (if ch = CHR ''e'' \<or> ch = CHR ''E'' then Copy strip_state_tag_name_pre ch
         else if ch = SP then Copy strip_state_tag_whitespace ch
         else if ch = CHR ''>'' then Copy strip_state_text ch
         else Copy strip_state_tag_name ch)
      else
        (if ch = SP \<or> ch = CHR ''>'' then Copy strip_state_preformatted ch
         else Copy strip_state_tag_name ch))"

definition strip_case_preformatted :: "ngx_http_strip_state_e \<Rightarrow> char \<Rightarrow> strip_action" where
  "strip_case_preformatted st ch =
     (if st = strip_state_preformatted then
        (if ch = CHR ''<'' then Copy strip_state_preformatted_angle ch else Copy st ch)
      else if st = strip_state_preformatted_angle then
        (if ch = CHR ''/'' then Copy strip_state_preformatted_angle_slash ch
         else Copy strip_state_preformatted ch)
      else if st = strip_state_preformatted_angle_slash then
        (if ch = CHR ''p'' \<or> ch = CHR ''P'' then Copy strip_state_preformatted_angle_slash_p ch
         else Copy strip_state_preformatted ch)
      else if st = strip_state_preformatted_angle_slash_p then
        (if ch = CHR ''r'' \<or> ch = CHR ''R'' then Copy strip_state_preformatted_angle_slash_pr ch
         else Copy strip_state_preformatted ch)
      else if st = strip_state_preformatted_angle_slash_pr then
        (if ch = CHR ''e'' \<or> ch = CHR ''E'' then Copy strip_state_preformatted_angle_slash_pre ch
         else Copy strip_state_preformatted ch)
      else
        (if ch = CHR ''>'' then Copy strip_state_text ch else Copy strip_state_preformatted ch))"

text \<open>\<open>case '['\<close> has no \<open>break\<close>: the state it sets is overwritten by the default's.\<close>

definition strip_case_tag_bang :: "char \<Rightarrow> strip_action" where
  "strip_case_tag_bang ch =
     (if ch = CHR ''-'' then Copy strip_state_tag_bang_dash ch else Copy strip_state_tag_bang_stuff ch)"

definition strip_case_bracket :: "ngx_http_strip_state_e \<Rightarrow> char \<Rightarrow> strip_action" where
  "strip_case_bracket st ch =
     (let (expected, then_to) =
        (if st = strip_state_tag_bang_bracket then (CHR ''C'', strip_state_tag_bang_bracket_c)
         else if st = strip_state_tag_bang_bracket_c then (CHR ''D'', strip_state_tag_bang_bracket_cd)
         else if st = strip_state_tag_bang_bracket_cd then (CHR ''A'', strip_state_tag_bang_bracket_cda)
         else if st = strip_state_tag_bang_bracket_cda then (CHR ''T'', strip_state_tag_bang_bracket_cdat)
         else if st = strip_state_tag_bang_bracket_cdat then (CHR ''A'', strip_state_tag_bang_bracket_cdata)
         else (CHR ''['', strip_state_cdata))
      in Copy (if ch = expected then then_to else strip_state_tag_bang_stuff) ch)"

text \<open>In the last case \<open>*reader = '>'\<close> is an assignment: it overwrites the byte and is true.\<close>

definition strip_case_cdata :: "ngx_http_strip_state_e \<Rightarrow> char \<Rightarrow> strip_action" where
  "strip_case_cdata st ch =
     (if st = strip_state_cdata then
        Copy (if ch = CHR '']'' then strip_state_cdata_bracket else strip_state_cdata) ch
      else if st = strip_state_cdata_bracket then
        Copy (if ch = CHR '']'' then strip_state_cdata_bracket_bracket else strip_state_cdata) ch
      else Copy strip_state_text (CHR ''>''))"

definition strip_case_bang_rest :: "ngx_http_strip_state_e \<Rightarrow> char \<Rightarrow> strip_action" where
  "strip_case_bang_rest st ch =
     (if st = strip_state_tag_bang_dash then
        (if ch = CHR ''-'' then Copy strip_state_comment ch else Copy strip_state_tag_bang_stuff ch)
      else
        (if ch = CHR ''>'' then Copy strip_state_text ch else Copy st ch))"

definition strip_case_comment :: "ngx_http_strip_state_e \<Rightarrow> char \<Rightarrow> strip_action" where
  "strip_case_comment st ch =
     (if st = strip_state_comment then
        (if ch = CHR ''-'' then Copy strip_state_comment_dash ch else Copy st ch)
      else if st = strip_state_comment_dash then
        (if ch = CHR ''-'' then Copy strip_state_comment_dash_dash ch else Copy strip_state_comment ch)
      else
        (if ch = CHR ''>'' then Copy strip_state_text ch else Copy strip_state_comment ch))"

definition strip_case_end_tag :: "ngx_http_strip_state_e \<Rightarrow> char \<Rightarrow> strip_action" where
  "strip_case_end_tag st ch =
     (if st = strip_state_end_tag then
        (if ch = SP then Continue else Copy strip_state_end_tag_name ch)
      else
        (if ch = CHR ''>'' then Copy strip_state_text ch else Copy st ch))"

definition strip_case_attribute :: "ngx_http_strip_state_e \<Rightarrow> char \<Rightarrow> strip_action" where
  "strip_case_attribute st ch =
     (if st = strip_state_tag_whitespace then
        (if ch = SP then Continue
         else if ch = CHR ''>'' then Copy strip_state_text ch
         else Copy strip_state_tag_attribute_name ch)
      else if st = strip_state_tag_attribute_name then
        (if ch = CHR ''='' then Copy strip_state_tag_attribute_equals ch
         else if ch = CHR ''>'' then Copy strip_state_text ch
         else if ch = SP then Copy strip_state_tag_whitespace ch
         else Copy st ch)
      else if st = strip_state_tag_attribute_equals then
        (if ch = DQ then Copy strip_state_tag_attribute_value_double_quote ch
         else if ch = SQ then Copy strip_state_tag_attribute_value_single_quote ch
         else Copy strip_state_tag_attribute_value ch)
      else if st = strip_state_tag_attribute_value then
        (if ch = CHR ''>'' then Copy strip_state_text ch
         else if ch = SP then Copy strip_state_tag_whitespace ch
         else Copy st ch)
      else if st = strip_state_tag_attribute_value_double_quote then
        (if ch = DQ then Copy strip_state_tag_attribute_value ch else Copy st ch)
      else
        (if ch = SQ then Copy strip_state_tag_attribute_value ch else Copy st ch))"

definition strip_case_text_whitespace :: "char \<Rightarrow> strip_action" where
  "strip_case_text_whitespace ch =
     (if ch = CR \<or> ch = NL \<or> ch = TAB \<or> ch = SP then Continue
      else if ch = CHR ''<'' then Copy strip_state_tag ch
      else Copy strip_state_text ch)"

definition strip_switch :: "ngx_http_strip_state_e \<Rightarrow> char \<Rightarrow> strip_action" where
  "strip_switch st ch =
     (case st of
        strip_state_abort \<Rightarrow> Copy st ch
      | strip_state_text \<Rightarrow> strip_case_text ch
      | strip_state_text_whitespace \<Rightarrow> strip_case_text_whitespace ch
      | strip_state_tag \<Rightarrow> strip_case_tag ch
      | strip_state_tag_name \<Rightarrow> strip_case_tag_name st ch
      | strip_state_tag_name_p \<Rightarrow> strip_case_tag_name st ch
      | strip_state_tag_name_pr \<Rightarrow> strip_case_tag_name st ch
      | strip_state_tag_name_pre \<Rightarrow> strip_case_tag_name st ch
      | strip_state_preformatted \<Rightarrow> strip_case_preformatted st ch
      | strip_state_preformatted_angle \<Rightarrow> strip_case_preformatted st ch
      | strip_state_preformatted_angle_slash \<Rightarrow> strip_case_preformatted st ch
      | strip_state_preformatted_angle_slash_p \<Rightarrow> strip_case_preformatted st ch
      | strip_state_preformatted_angle_slash_pr \<Rightarrow> strip_case_preformatted st ch
      | strip_state_preformatted_angle_slash_pre \<Rightarrow> strip_case_preformatted st ch
      | strip_state_tag_bang \<Rightarrow> strip_case_tag_bang ch
      | strip_state_tag_bang_bracket \<Rightarrow> strip_case_bracket st ch
      | strip_state_tag_bang_bracket_c \<Rightarrow> strip_case_bracket st ch
      | strip_state_tag_bang_bracket_cd \<Rightarrow> strip_case_bracket st ch
      | strip_state_tag_bang_bracket_cda \<Rightarrow> strip_case_bracket st ch
      | strip_state_tag_bang_bracket_cdat \<Rightarrow> strip_case_bracket st ch
      | strip_state_tag_bang_bracket_cdata \<Rightarrow> strip_case_bracket st ch
      | strip_state_cdata \<Rightarrow> strip_case_cdata st ch
      | strip_state_cdata_bracket \<Rightarrow> strip_case_cdata st ch
      | strip_state_cdata_bracket_bracket \<Rightarrow> strip_case_cdata st ch
      | strip_state_tag_bang_dash \<Rightarrow> strip_case_bang_rest st ch
      | strip_state_tag_bang_stuff \<Rightarrow> strip_case_bang_rest st ch
      | strip_state_comment \<Rightarrow> strip_case_comment st ch
      | strip_state_comment_dash \<Rightarrow> strip_case_comment st ch
      | strip_state_comment_dash_dash \<Rightarrow> strip_case_comment st ch
      | strip_state_end_tag \<Rightarrow> strip_case_end_tag st ch
      | strip_state_end_tag_name \<Rightarrow> strip_case_end_tag st ch
      | strip_state_tag_whitespace \<Rightarrow> strip_case_attribute st ch
      | strip_state_tag_attribute_name \<Rightarrow> strip_case_attribute st ch
      | strip_state_tag_attribute_equals \<Rightarrow> strip_case_attribute st ch
      | strip_state_tag_attribute_value \<Rightarrow> strip_case_attribute st ch
      | strip_state_tag_attribute_value_double_quote \<Rightarrow> strip_case_attribute st ch
      | strip_state_tag_attribute_value_single_quote \<Rightarrow> strip_case_attribute st ch)"

section \<open>The loop over a buffer\<close>

text \<open>
  \<open>strip_loop n r w st m\<close>: \<open>n\<close> bytes from the offset \<open>r\<close> on are still to be read, \<open>w\<close> is
  the offset of the writer. The result is the final offset of the writer, the state and the memory.
\<close>

primrec strip_loop ::
  "nat \<Rightarrow> nat \<Rightarrow> nat \<Rightarrow> ngx_http_strip_state_e \<Rightarrow> char list \<Rightarrow> nat \<times> ngx_http_strip_state_e \<times> char list" where
  "strip_loop 0 r w st m = (w, st, m)"
| "strip_loop (Suc n) r w st m =
     (case strip_switch st (m ! r) of
        Continue \<Rightarrow> strip_loop n (Suc r) w st m
      | Copy st' ch \<Rightarrow> strip_loop n (Suc r) (Suc w) st' ((m[r := ch])[w := ch]))"

text \<open>The buffer is the bytes from \<open>pos\<close> to \<open>last\<close>; the writer becomes the new \<open>last\<close>.\<close>

definition ngx_http_strip_process_buffer ::
  "char list \<Rightarrow> ngx_http_strip_state_e \<Rightarrow> char list \<times> ngx_http_strip_state_e" where
  "ngx_http_strip_process_buffer b st =
     (let (w, st', m) = strip_loop (length b) 0 0 st b in (take w m, st'))"

text \<open>The run of the automaton over a list of bytes: what it writes, and the state it ends in.\<close>

fun strip_run :: "ngx_http_strip_state_e \<Rightarrow> char list \<Rightarrow> char list \<times> ngx_http_strip_state_e" where
  "strip_run st [] = ([], st)"
| "strip_run st (x # xs) =
     (case strip_switch st x of
        Continue \<Rightarrow> strip_run st xs
      | Copy st' ch \<Rightarrow> (let (ys, st'') = strip_run st' xs in (ch # ys, st'')))"

lemma strip_loop_run:
  "w \<le> r \<Longrightarrow> r + n = length m \<Longrightarrow>
   (let (w', st', m') = strip_loop n r w st m in (take w' m', st')) =
   (let (ys, st') = strip_run st (drop r m) in (take w m @ ys, st'))"
proof (induction n arbitrary: r w st m)
  case 0
  then show ?case by simp
next
  case (Suc n)
  then have r: "r < length m" by simp
  then have d: "drop r m = m ! r # drop (Suc r) m" by (simp add: Cons_nth_drop_Suc)
  show ?case
  proof (cases "strip_switch st (m ! r)")
    case Continue
    with Suc d show ?thesis by simp
  next
    case (Copy st' ch)
    let ?m = "(m[r := ch])[w := ch]"
    have "take (Suc w) ?m = take w m @ [ch]"
      using Suc.prems r by (simp add: take_Suc_conv_app_nth)
    moreover have "drop (Suc r) ?m = drop (Suc r) m" using Suc.prems by simp
    ultimately show ?thesis
      using Copy d Suc.IH [of "Suc w" "Suc r" ?m st'] Suc.prems by (simp add: case_prod_unfold Let_def)
  qed
qed

lemma strip_process_run: "ngx_http_strip_process_buffer b st = strip_run st b"
  using strip_loop_run [of 0 0 "length b" b st]
  by (simp add: ngx_http_strip_process_buffer_def case_prod_unfold Let_def)

section \<open>The filters and the configuration\<close>

record ngx_strip_request = ngx_http_request +
  strip_ctx :: "ngx_http_strip_state_e option"

definition strip_passes_by :: "int \<Rightarrow> ngx_strip_request \<Rightarrow> bool" where
  "strip_passes_by enable r =
     (enable = 0 \<or>
      status r \<noteq> NGX_HTTP_OK \<and> status r \<noteq> NGX_HTTP_FORBIDDEN \<and> status r \<noteq> NGX_HTTP_NOT_FOUND \<or>
      header_only r \<or> length (content_type r) = 0 \<or>
      (case content_encoding r of Some v \<Rightarrow> length v \<noteq> 0 | None \<Rightarrow> False))"

text \<open>
  \<open>sizeof("text/html" - 1)\<close> is the size of a pointer, eight bytes. A zeroed context is in the
  state of number zero.
\<close>

abbreviation sizeof_pointer :: nat where "sizeof_pointer \<equiv> 8"

definition ngx_http_strip_header_filter ::
  "(string \<Rightarrow> string \<Rightarrow> nat \<Rightarrow> int) \<Rightarrow> bool \<Rightarrow> (ngx_strip_request \<Rightarrow> ngx_strip_request) \<Rightarrow>
   (ngx_strip_request \<Rightarrow> ngx_strip_request) \<Rightarrow> (ngx_strip_request \<Rightarrow> int) \<Rightarrow> int \<Rightarrow>
   ngx_strip_request \<Rightarrow> int \<times> ngx_strip_request" where
  "ngx_http_strip_header_filter ngx_strncasecmp pcalloc clear_content_length clear_accept_ranges
     next_header_filter enable r =
     (if strip_passes_by enable r then (next_header_filter r, r)
      else if ngx_strncasecmp (content_type r) ''text/html'' sizeof_pointer \<noteq> 0
      then (next_header_filter r, r)
      else if \<not> pcalloc then (NGX_ERROR, r)
      else
        (let r1 = r\<lparr>strip_ctx := Some strip_state_text\<rparr>;
             r2 = clear_accept_ranges (clear_content_length r1);
             r3 = r2\<lparr>main_filter_need_in_memory := True\<rparr>
         in (next_header_filter r3, r3)))"

fun strip_chain ::
  "ngx_buf list \<Rightarrow> ngx_http_strip_state_e \<Rightarrow> ngx_buf list \<times> ngx_http_strip_state_e" where
  "strip_chain [] st = ([], st)"
| "strip_chain (b # bs) st =
     (let (o', st') = ngx_http_strip_process_buffer (bytes b) st;
          (bs', st'') = strip_chain bs st'
      in (b\<lparr>bytes := o', in_file := False\<rparr> # bs', st''))"

definition ngx_http_strip_body_filter ::
  "(ngx_strip_request \<Rightarrow> ngx_buf list \<Rightarrow> 'r) \<Rightarrow> ngx_strip_request \<Rightarrow> ngx_buf list \<Rightarrow> 'r \<times> ngx_strip_request" where
  "ngx_http_strip_body_filter next_body_filter r chain =
     (case strip_ctx r of
        None \<Rightarrow> (next_body_filter r chain, r)
      | Some st \<Rightarrow>
          (let (chain', st') = strip_chain chain st;
               r' = r\<lparr>strip_ctx := Some st'\<rparr>
           in (next_body_filter r' chain', r')))"

definition ngx_http_strip_filter_init ::
  "'hf \<Rightarrow> 'bf \<Rightarrow> ('hf, 'bf) ngx_filter_chains \<Rightarrow> int \<times> ('hf, 'bf) ngx_filter_chains" where
  "ngx_http_strip_filter_init header_filter body_filter g =
     (NGX_OK,
      (let g = g\<lparr>ngx_http_next_header_filter := ngx_http_top_header_filter g\<rparr>;
           g = g\<lparr>ngx_http_top_header_filter := header_filter\<rparr>;
           g = g\<lparr>ngx_http_next_body_filter := ngx_http_top_body_filter g\<rparr>
       in g\<lparr>ngx_http_top_body_filter := body_filter\<rparr>))"

text \<open>The configuration is the flag. Without memory the pointer to it is \<open>NGX_CONF_ERROR\<close>.\<close>

definition ngx_http_strip_create_conf :: "bool \<Rightarrow> int conf_ptr" where
  "ngx_http_strip_create_conf pcalloc = (if \<not> pcalloc then conf_invalid else conf_at NGX_CONF_UNSET)"

definition ngx_http_strip_merge_conf :: "(int \<Rightarrow> int \<Rightarrow> int \<Rightarrow> int) \<Rightarrow> int \<Rightarrow> int \<Rightarrow> conf_rc \<times> int" where
  "ngx_http_strip_merge_conf merge_value prev conf = (NGX_CONF_OK, merge_value conf prev 0)"

section \<open>Runs\<close>

lemmas strip_cases =
  strip_case_text_def strip_case_tag_def strip_case_tag_name_def strip_case_preformatted_def
  strip_case_tag_bang_def strip_case_bracket_def strip_case_cdata_def strip_case_bang_rest_def
  strip_case_comment_def strip_case_end_tag_def strip_case_attribute_def
  strip_case_text_whitespace_def

text \<open>Only white space is dropped, and the state stays; what is copied is the byte read.\<close>

definition strip_white :: "char \<Rightarrow> bool" where
  "strip_white ch = (ch = SP \<or> ch = CR \<or> ch = NL \<or> ch = TAB)"

lemma strip_switch_Continue: "strip_switch st x = Continue \<Longrightarrow> strip_white x"
  by (cases st) (auto simp: strip_switch_def strip_cases strip_white_def Let_def split: if_splits)

lemma strip_switch_Copy:
  "strip_switch st x = Copy st' y \<Longrightarrow> st \<noteq> strip_state_cdata_bracket_bracket \<Longrightarrow> y = x"
  by (cases st) (auto simp: strip_switch_def strip_cases Let_def split: if_splits)

lemma strip_switch_again: "strip_switch st x = Copy st' y \<Longrightarrow> strip_switch st y = Copy st' y"
  using strip_switch_Copy [of st x st' y]
  by (cases "st = strip_state_cdata_bracket_bracket")
     (simp_all add: strip_switch_def strip_case_cdata_def)

lemma strip_run_append:
  "strip_run st (a @ b) =
     (let (ya, st') = strip_run st a; (yb, st'') = strip_run st' b in (ya @ yb, st''))"
  by (induction st a rule: strip_run.induct) (auto simp: Let_def split: strip_action.splits prod.splits)

lemma strip_run_append_out:
  "fst (strip_run st (a @ b)) = fst (strip_run st a) @ fst (strip_run (snd (strip_run st a)) b)"
  by (simp add: strip_run_append case_prod_unfold Let_def)

lemma strip_run_append_state:
  "snd (strip_run st (a @ b)) = snd (strip_run (snd (strip_run st a)) b)"
  by (simp add: strip_run_append case_prod_unfold Let_def)

section \<open>The states that are reached\<close>

text \<open>
  Starting from the text state of a fresh context. The states of a CDATA section are not
  among them.
\<close>

inductive strip_reach :: "ngx_http_strip_state_e \<Rightarrow> bool" where
  start: "strip_reach strip_state_text"
| step: "strip_reach st \<Longrightarrow> strip_switch st x = Copy st' y \<Longrightarrow> strip_reach st'"

definition strip_cdata_states :: "ngx_http_strip_state_e set" where
  "strip_cdata_states =
     {strip_state_tag_bang_bracket, strip_state_tag_bang_bracket_c, strip_state_tag_bang_bracket_cd,
      strip_state_tag_bang_bracket_cda, strip_state_tag_bang_bracket_cdat,
      strip_state_tag_bang_bracket_cdata, strip_state_cdata, strip_state_cdata_bracket,
      strip_state_cdata_bracket_bracket}"

lemma strip_switch_not_cdata:
  "strip_switch st x = Copy st' y \<Longrightarrow> st \<notin> strip_cdata_states \<Longrightarrow> st' \<notin> strip_cdata_states"
  by (cases st) (auto simp: strip_cdata_states_def strip_switch_def strip_cases Let_def split: if_splits)

lemma strip_reach_not_cdata: "strip_reach st \<Longrightarrow> st \<notin> strip_cdata_states"
  by (induction rule: strip_reach.induct)
     (auto simp: strip_cdata_states_def dest: strip_switch_not_cdata [unfolded strip_cdata_states_def])

lemma strip_reach_run: "strip_reach st \<Longrightarrow> strip_reach (snd (strip_run st b))"
  by (induction st b rule: strip_run.induct)
     (auto simp: Let_def case_prod_unfold split: strip_action.splits intro: strip_reach.step)

lemma strip_reach_Copy:
  "strip_reach st \<Longrightarrow> strip_switch st x = Copy st' y \<Longrightarrow> y = x"
  using strip_switch_Copy strip_reach_not_cdata by (fastforce simp: strip_cdata_states_def)

lemma strip_run_white:
  "strip_reach st \<Longrightarrow>
   filter (\<lambda>x. \<not> strip_white x) (fst (strip_run st b)) = filter (\<lambda>x. \<not> strip_white x) b"
  by (induction st b rule: strip_run.induct)
     (auto simp: Let_def case_prod_unfold split: strip_action.splits
       dest: strip_switch_Continue strip_reach_Copy intro: strip_reach.step)

lemma strip_run_subseq: "strip_reach st \<Longrightarrow> subseq (fst (strip_run st b)) b"
  by (induction st b rule: strip_run.induct)
     (auto simp: Let_def case_prod_unfold split: strip_action.splits
       dest: strip_reach_Copy intro: strip_reach.step)

text \<open>A second run over the output follows the same states and drops nothing more.\<close>

lemma strip_run_twice: "strip_run st (fst (strip_run st b)) = strip_run st b"
  by (induction st b rule: strip_run.induct)
     (auto simp: Let_def case_prod_unfold strip_switch_again split: strip_action.splits)

text \<open>Chains of buffers.\<close>

lemma strip_chain_run:
  "strip_chain bs st = (bs', st') \<Longrightarrow>
   (chain_bytes bs', st') = strip_run st (chain_bytes bs) \<and>
   map last_buf bs' = map last_buf bs \<and> length bs' = length bs"
proof (induction bs arbitrary: st bs' st')
  case Nil
  then show ?case by simp
next
  case (Cons b bs)
  then show ?case
    by (auto simp: strip_process_run strip_run_append Let_def case_prod_unfold)
       (metis prod.collapse fst_conv snd_conv)+
qed

text \<open>Bytes that lead from every state but that of errors to the text state.\<close>

definition strip_sync :: string where
  "strip_sync = ''/-->'' @ [DQ, SQ] @ ''</pre>''"

definition strip_live_states :: "ngx_http_strip_state_e list" where
  "strip_live_states =
     [strip_state_text, strip_state_text_whitespace, strip_state_tag, strip_state_tag_name,
      strip_state_tag_whitespace, strip_state_tag_attribute_name, strip_state_tag_attribute_equals,
      strip_state_tag_attribute_value, strip_state_tag_attribute_value_double_quote,
      strip_state_tag_attribute_value_single_quote, strip_state_end_tag, strip_state_end_tag_name,
      strip_state_comment, strip_state_comment_dash, strip_state_comment_dash_dash, strip_state_tag_bang,
      strip_state_tag_bang_dash, strip_state_tag_bang_stuff, strip_state_tag_name_p, strip_state_tag_name_pr,
      strip_state_tag_name_pre, strip_state_preformatted, strip_state_preformatted_angle,
      strip_state_preformatted_angle_slash, strip_state_preformatted_angle_slash_p,
      strip_state_preformatted_angle_slash_pr, strip_state_preformatted_angle_slash_pre]"

lemma strip_live_sync: "list_all (\<lambda>st. snd (strip_run st strip_sync) = strip_state_text) strip_live_states"
  by code_simp

lemma strip_run_sync:
  assumes "strip_reach st" "st \<noteq> strip_state_abort"
  shows "snd (strip_run st strip_sync) = strip_state_text"
proof -
  have "st \<in> set strip_live_states"
    using strip_reach_not_cdata [OF assms(1)] assms(2)
    by (cases st) (simp_all add: strip_cdata_states_def strip_live_states_def)
  then show ?thesis using strip_live_sync by (simp add: list_all_iff)
qed

section \<open>Text, and preformatted text\<close>

fun squeeze_spaces :: "char list \<Rightarrow> char list" where
  "squeeze_spaces (x # y # zs) =
     (if x = SP \<and> y = SP then squeeze_spaces (y # zs) else x # squeeze_spaces (y # zs))"
| "squeeze_spaces xs = xs"

definition text_bytes :: "char list \<Rightarrow> char list" where
  "text_bytes = filter (\<lambda>x. x \<notin> {CR, NL, TAB})"

lemma squeeze_Cons: "x \<noteq> SP \<Longrightarrow> squeeze_spaces (x # xs) = x # squeeze_spaces xs"
  by (cases xs) simp_all

lemma squeeze_space: "x \<noteq> SP \<Longrightarrow> squeeze_spaces (SP # x # xs) = SP # x # squeeze_spaces xs"
  by (simp add: squeeze_Cons)

lemma strip_run_text:
  "CHR ''<'' \<notin> set xs \<Longrightarrow>
   fst (strip_run strip_state_text xs) = squeeze_spaces (text_bytes xs) \<and>
   SP # fst (strip_run strip_state_text_whitespace xs) = squeeze_spaces (SP # text_bytes xs)"
  by (induction xs)
     (auto simp: strip_switch_def strip_case_text_def strip_case_text_whitespace_def text_bytes_def
       squeeze_Cons squeeze_space Let_def case_prod_unfold)

text \<open>The states of a preformatted element, each with the bytes it has just seen.\<close>

fun pre_seen :: "ngx_http_strip_state_e \<Rightarrow> string option" where
  "pre_seen strip_state_preformatted = Some []"
| "pre_seen strip_state_preformatted_angle = Some ''<''"
| "pre_seen strip_state_preformatted_angle_slash = Some ''</''"
| "pre_seen strip_state_preformatted_angle_slash_p = Some ''</p''"
| "pre_seen strip_state_preformatted_angle_slash_pr = Some ''</pr''"
| "pre_seen strip_state_preformatted_angle_slash_pre = Some ''</pre''"
| "pre_seen _ = None"

definition closes_pre :: "char list \<Rightarrow> bool" where
  "closes_pre xs = suffix ''</pre>'' (map tolower_c xs)"

lemma strip_pre_step:
  assumes "pre_seen st = Some seen" "strip_switch st x = Copy st' y"
  shows "y = x \<and> ((\<exists>seen'. pre_seen st' = Some seen' \<and> suffix seen' (seen @ [tolower_c x])) \<or>
    st' = strip_state_text \<and> seen @ [tolower_c x] = ''</pre>'')"
proof -
  have "tolower_c CHR ''P'' = CHR ''p''" "tolower_c CHR ''R'' = CHR ''r''"
    "tolower_c CHR ''E'' = CHR ''e''" "tolower_c CHR ''p'' = CHR ''p''"
    "tolower_c CHR ''r'' = CHR ''r''" "tolower_c CHR ''e'' = CHR ''e''"
    "tolower_c CHR ''<'' = CHR ''<''" "tolower_c CHR ''/'' = CHR ''/''"
    "tolower_c CHR ''>'' = CHR ''>''" by code_simp+
  with assms show ?thesis
    by (cases st) (auto simp: strip_switch_def strip_case_preformatted_def suffix_def split: if_splits)
qed

lemma strip_pre_copies: "pre_seen st = Some seen \<Longrightarrow> strip_switch st x \<noteq> Continue"
  by (cases st) (auto simp: strip_switch_def strip_case_preformatted_def split: if_splits)

lemma strip_run_pre:
  assumes "\<forall>u. prefix u xs \<longrightarrow> \<not> closes_pre u"
  shows "fst (strip_run strip_state_preformatted xs) = xs \<and>
    (\<exists>seen. pre_seen (snd (strip_run strip_state_preformatted xs)) = Some seen \<and>
      suffix seen (map tolower_c xs))"
  using assms
proof (induction xs rule: rev_induct)
  case Nil
  then show ?case by simp
next
  case (snoc x xs)
  then have "\<forall>u. prefix u xs \<longrightarrow> \<not> closes_pre u" by (auto dest: prefix_prefix)
  with snoc.IH obtain seen where IH: "fst (strip_run strip_state_preformatted xs) = xs"
    "pre_seen (snd (strip_run strip_state_preformatted xs)) = Some seen" "suffix seen (map tolower_c xs)"
    by blast
  let ?st = "snd (strip_run strip_state_preformatted xs)"
  obtain st' y where sw: "strip_switch ?st x = Copy st' y"
    using strip_pre_copies [OF IH(2), of x] by (cases "strip_switch ?st x") auto
  have "\<not> closes_pre (xs @ [x])" using snoc.prems by blast
  then have "seen @ [tolower_c x] \<noteq> ''</pre>''"
    using IH(3) by (auto simp: closes_pre_def suffix_def)
  with strip_pre_step [OF IH(2) sw] obtain seen' where "y = x" "pre_seen st' = Some seen'"
    "suffix seen' (seen @ [tolower_c x])" by blast
  moreover have "suffix (seen @ [tolower_c x]) (map tolower_c (xs @ [x]))"
    using IH(3) by (auto simp: suffix_def)
  ultimately show ?case
    using sw IH(1) by (auto simp: strip_run_append case_prod_unfold Let_def intro: suffix_order.trans)
qed

section \<open>A whole response\<close>

text \<open>The body filter is called once for each chain; the next filter keeps what it is given.\<close>

fun strip_calls :: "ngx_strip_request \<Rightarrow> ngx_buf list list \<Rightarrow> ngx_buf list list \<times> ngx_strip_request" where
  "strip_calls r [] = ([], r)"
| "strip_calls r (ch # chs) =
     (let (ch', r') = ngx_http_strip_body_filter (\<lambda>_ c. c) r ch;
          (chs', r'') = strip_calls r' chs
      in (ch' # chs', r''))"

lemma strip_calls_run:
  "strip_ctx r = Some st \<Longrightarrow> strip_calls r chs = (chs', r') \<Longrightarrow>
   strip_ctx r' = Some (snd (strip_run st (chain_bytes (concat chs)))) \<and>
   chain_bytes (concat chs') = fst (strip_run st (chain_bytes (concat chs))) \<and>
   map (map last_buf) chs' = map (map last_buf) chs"
proof (induction chs arbitrary: r st chs' r')
  case Nil
  then show ?case by simp
next
  case (Cons ch chs)
  obtain ch' st' where ch: "strip_chain ch st = (ch', st')" by fastforce
  let ?r = "r\<lparr>strip_ctx := Some st'\<rparr>"
  obtain cs r2 where cs: "strip_calls ?r chs = (cs, r2)" by fastforce
  have eq: "chs' = ch' # cs" "r' = r2"
    using Cons.prems ch cs by (simp_all add: ngx_http_strip_body_filter_def Let_def)
  have run: "chain_bytes ch' = fst (strip_run st (chain_bytes ch))"
    "st' = snd (strip_run st (chain_bytes ch))" "map last_buf ch' = map last_buf ch"
    using strip_chain_run [OF ch] by (metis fst_conv snd_conv)+
  have "strip_ctx ?r = Some st'" by simp
  from Cons.IH [OF this cs] show ?case
    unfolding eq by (simp add: run strip_run_append_out strip_run_append_state)
qed

definition keeps_strip :: "(ngx_strip_request \<Rightarrow> ngx_strip_request) \<Rightarrow> bool" where
  "keeps_strip f = (\<forall>r. strip_ctx (f r) = strip_ctx r)"

lemma strip_header_ctx:
  assumes "keeps_strip clear_cl" "keeps_strip clear_ar" "strip_ctx r = None"
    "ngx_http_strip_header_filter cmp pcalloc clear_cl clear_ar next_hf enable r = (rc, r1)"
  shows "strip_ctx r1 =
    (if strip_passes_by enable r \<or> cmp (content_type r) ''text/html'' sizeof_pointer \<noteq> 0 \<or> \<not> pcalloc
     then None else Some strip_state_text)"
  using assms by (auto simp: ngx_http_strip_header_filter_def keeps_strip_def Let_def split: if_splits)

section \<open>Properties\<close>

text \<open>
  C20: in place is as good as out of place. Rewriting a buffer where it stands, with the writer
  never ahead of the reader, gives the bytes and the state of a run of the automaton over the
  buffer's original bytes.
\<close>

theorem strip_in_place: "ngx_http_strip_process_buffer b st = strip_run st b"
  by (rule strip_process_run)

text \<open>
  C3: only white space goes. For a page the header filter takes on, however it is cut into buffers
  and chains, the bytes sent are the bytes received with some spaces, tabs and line ends deleted:
  every other byte is sent, in order, and the flag that ends the response stays in its buffer.
\<close>

theorem strip_page:
  assumes "keeps_strip clear_cl" "keeps_strip clear_ar" "strip_ctx r = None"
    and "ngx_http_strip_header_filter cmp pcalloc clear_cl clear_ar next_hf enable r = (rc, r1)"
    and "strip_ctx r1 = Some st" "strip_calls r1 chs = (chs', r2)"
  shows "filter (\<lambda>x. \<not> strip_white x) (chain_bytes (concat chs')) =
      filter (\<lambda>x. \<not> strip_white x) (chain_bytes (concat chs)) \<and>
    subseq (chain_bytes (concat chs')) (chain_bytes (concat chs)) \<and>
    map (map last_buf) chs' = map (map last_buf) chs"
proof -
  have "st = strip_state_text"
    using strip_header_ctx [OF assms(1-4)] assms(5) by (simp split: if_splits)
  then have "strip_reach st" by (simp add: strip_reach.start)
  then show ?thesis
    using strip_calls_run [OF assms(5,6)] by (simp add: strip_run_white strip_run_subseq)
qed

definition strip_demo :: ngx_strip_request where
  "strip_demo =
     \<lparr>status = 200, header_only = False, content_type = ''text/html'', content_encoding = None,
      filter_need_in_memory = False, main_filter_need_in_memory = False, strip_ctx = None\<rparr>"

theorem strip_page_witness:
  "let chs = [[\<lparr>bytes = ''<p>a  b'', in_file = False, last_buf = True\<rparr>]];
       (chs', r2) = strip_calls (strip_demo\<lparr>strip_ctx := Some strip_state_text,
         main_filter_need_in_memory := True\<rparr>) chs
   in subseq (chain_bytes (concat chs')) (chain_bytes (concat chs))"
proof -
  have h: "ngx_http_strip_header_filter strncasecmp_at True id id (\<lambda>_. NGX_OK) 1 strip_demo =
    (NGX_OK, strip_demo\<lparr>strip_ctx := Some strip_state_text, main_filter_need_in_memory := True\<rparr>)"
    by (simp add: ngx_http_strip_header_filter_def strip_passes_by_def strip_demo_def
        strncasecmp_at_def Let_def)
  show ?thesis
    unfolding Let_def case_prod_unfold
    by (rule strip_page [OF _ _ _ h _ surjective_pairing, THEN conjunct2, THEN conjunct1])
       (simp_all add: keeps_strip_def strip_demo_def)
qed

text \<open>
  C16: the way a page is cut does not matter. Two sequences of chains with the same bytes, sent
  through the body filter from the same context, give the same bytes and leave the same state.
\<close>

theorem strip_any_cut:
  assumes "strip_ctx r = Some st" "chain_bytes (concat chs1) = chain_bytes (concat chs2)"
  shows "chain_bytes (concat (fst (strip_calls r chs1))) = chain_bytes (concat (fst (strip_calls r chs2))) \<and>
    strip_ctx (snd (strip_calls r chs1)) = strip_ctx (snd (strip_calls r chs2))"
  using strip_calls_run [OF assms(1), of chs1] strip_calls_run [OF assms(1), of chs2] assms(2)
  by (metis prod.collapse)

theorem strip_any_cut_witness:
  "chain_bytes (concat (fst (strip_calls (strip_demo\<lparr>strip_ctx := Some strip_state_text\<rparr>)
      [[\<lparr>bytes = ''<p cl'', in_file = False, last_buf = False\<rparr>,
        \<lparr>bytes = ''ass=1>'', in_file = False, last_buf = True\<rparr>]]))) =
   chain_bytes (concat (fst (strip_calls (strip_demo\<lparr>strip_ctx := Some strip_state_text\<rparr>)
      [[\<lparr>bytes = ''<p class=1>'', in_file = False, last_buf = True\<rparr>]])))"
  by (rule strip_any_cut [THEN conjunct1]) simp_all

text \<open>
  C32: the automaton recovers. After any page, unless the automaton has given up in its state of
  errors, the twelve bytes \<open>strip_sync\<close>, however they are cut into buffers, bring it back to the text state:
  no tag, attribute, comment or preformatted text holds it for good.
\<close>

theorem strip_recovers:
  assumes "strip_ctx r = Some strip_state_text"
    and "strip_ctx (snd (strip_calls r chs)) \<noteq> Some strip_state_abort"
    and "chain_bytes (concat tail) = strip_sync"
  shows "strip_ctx (snd (strip_calls r (chs @ tail))) = Some strip_state_text"
proof -
  let ?b = "chain_bytes (concat chs)" and ?st = "\<lambda>b. snd (strip_run strip_state_text b)"
  have run: "strip_ctx (snd (strip_calls r xs)) = Some (?st (chain_bytes (concat xs)))" for xs
    using strip_calls_run [OF assms(1), of xs] by (metis prod.collapse snd_conv)
  have "strip_reach (?st ?b)" by (intro strip_reach_run strip_reach.start)
  moreover have "?st ?b \<noteq> strip_state_abort" using assms(2) run [of chs] by simp
  ultimately have "snd (strip_run (?st ?b) strip_sync) = strip_state_text" by (rule strip_run_sync)
  moreover have "chain_bytes (concat (chs @ tail)) = ?b @ strip_sync"
    using assms(3) by (simp add: chain_bytes_def)
  ultimately show ?thesis using run [of "chs @ tail"] by (simp add: strip_run_append_state)
qed

theorem strip_recovers_witness:
  "strip_ctx (snd (strip_calls (strip_demo\<lparr>strip_ctx := Some strip_state_text\<rparr>)
      ([[\<lparr>bytes = ''<a b='' @ [DQ], in_file = False, last_buf = False\<rparr>]] @
       [[\<lparr>bytes = strip_sync, in_file = False, last_buf = False\<rparr>]]))) = Some strip_state_text"
proof (rule strip_recovers)
  show "strip_ctx (snd (strip_calls (strip_demo\<lparr>strip_ctx := Some strip_state_text\<rparr>)
      [[\<lparr>bytes = ''<a b='' @ [DQ], in_file = False, last_buf = False\<rparr>]])) \<noteq> Some strip_state_abort"
    by code_simp
qed (simp_all add: chain_bytes_def)

text \<open>The state of errors is not left: a bracket before a digit in a text ends the stripping of the page.\<close>

lemma strip_aborted:
  "ngx_http_strip_process_buffer (''1 < 2'' @ b) strip_state_text = (''1 < 2'' @ b, strip_state_abort)"
proof -
  have "strip_run strip_state_abort b = (b, strip_state_abort)" for b
    by (induction b) (simp_all add: strip_switch_def)
  then show ?thesis
    by (simp add: strip_process_run strip_switch_def strip_cases Let_def is_letter_def)
qed

text \<open>
  Stripping is idempotent. The output of a buffer, run from the same state again, is copied
  as it is, and the state at the end is the same.
\<close>

lemma strip_idempotent:
  "ngx_http_strip_process_buffer (fst (ngx_http_strip_process_buffer b st)) st =
   ngx_http_strip_process_buffer b st"
  by (simp add: strip_process_run strip_run_twice)

text \<open>
  C34: text. Text without a tag loses its carriage returns, line feeds and tabs, and each run of
  spaces of what is left becomes one space. A line end is not turned into a space: words that
  only a line end separates are joined.
\<close>

theorem strip_text:
  assumes "CHR ''<'' \<notin> set b"
  shows "fst (ngx_http_strip_process_buffer b strip_state_text) = squeeze_spaces (text_bytes b)"
  using strip_run_text [OF assms] by (simp add: strip_process_run)

theorem strip_text_witness:
  "fst (ngx_http_strip_process_buffer (''a '' @ [NL] @ '' b'' @ [NL] @ ''c'') strip_state_text) = ''a bc''"
  by (subst strip_text) (simp_all add: text_bytes_def)

text \<open>
  C35: preformatted text. From the opening tag of a \<open>pre\<close> element on, with or without attributes,
  every byte is copied as long as no closing tag \<open></pre>\<close> (in any case) has been read.
\<close>

theorem strip_preformatted:
  assumes "p \<in> {''<pre>'', ''<pre '', ''<PRE>'', ''<PRE ''}"
    and "\<forall>u. prefix u xs \<longrightarrow> \<not> closes_pre u"
  shows "fst (ngx_http_strip_process_buffer (p @ xs) strip_state_text) = p @ xs"
proof -
  have "strip_run strip_state_text p = (p, strip_state_preformatted)"
    using assms(1) by (auto simp: strip_switch_def strip_cases Let_def)
  then show ?thesis
    using strip_run_pre [OF assms(2)] by (simp add: strip_process_run strip_run_append_out)
qed

theorem strip_preformatted_witness:
  "fst (ngx_http_strip_process_buffer (''<pre>'' @ ''a  b'') strip_state_text) = ''<pre>a  b''"
proof -
  have "\<forall>u. prefix u ''a  b'' \<longrightarrow> \<not> closes_pre u"
    by (auto simp: closes_pre_def tolower_c_def prefix_Cons suffix_def)
  then have "fst (ngx_http_strip_process_buffer (''<pre>'' @ ''a  b'') strip_state_text)
      = ''<pre>'' @ ''a  b''"
    by (intro strip_preformatted) simp_all
  then show ?thesis by simp
qed

text \<open>
  CDATA sections are not recognised. No input leads from the text state to one of the nine
  states of a CDATA section, since the case that should enter them falls through to the next one;
  a section is treated as a declaration that ends at the first closing bracket, and spaces after that are
  squeezed.
\<close>

lemma strip_no_cdata:
  "snd (ngx_http_strip_process_buffer b strip_state_text) \<notin> strip_cdata_states \<and>
   fst (ngx_http_strip_process_buffer ''<![CDATA[a>  b]]>'' strip_state_text) = ''<![CDATA[a> b]]>''"
proof
  show "snd (ngx_http_strip_process_buffer b strip_state_text) \<notin> strip_cdata_states"
    by (simp add: strip_process_run strip_reach_not_cdata strip_reach_run strip_reach.start)
  show "fst (ngx_http_strip_process_buffer ''<![CDATA[a>  b]]>'' strip_state_text) = ''<![CDATA[a> b]]>''"
    by (simp add: strip_process_run strip_switch_def strip_cases Let_def)
qed

text \<open>
  The test of the content type. For a response the module may touch, the page is stripped
  exactly when the first eight bytes of its content type are those of \<open>text/htm\<close> up to case: the
  length that the comparison is given is the size of a pointer, not that of the string.
\<close>

lemma strip_content_type:
  assumes "strncasecmp_spec cmp" "keeps_strip clear_cl" "keeps_strip clear_ar" "strip_ctx r = None"
    and "\<not> strip_passes_by enable r" "8 \<le> length (content_type r)" "NUL \<notin> set (content_type r)"
  shows "(strip_ctx (snd (ngx_http_strip_header_filter cmp True clear_cl clear_ar next_hf enable r)) \<noteq> None) =
    (map tolower_c (take 8 (content_type r)) = ''text/htm'')"
proof -
  have lit: "map tolower_c (take 8 ''text/html'') = ''text/htm''" by code_simp
  have "(cmp (content_type r) ''text/html'' 8 = 0) = (map tolower_c (take 8 (content_type r)) = ''text/htm'')"
    using strncasecmp_no_nul [OF assms(1), of 8 "content_type r" "''text/html''"] assms(6,7) lit
    by (simp add: ci_eq_def)
  then show ?thesis
    using strip_header_ctx [OF assms(2-4), where pcalloc = True, OF surjective_pairing] assms(5) by auto
qed

lemma strip_content_type_witness:
  "strip_ctx (snd (ngx_http_strip_header_filter strncasecmp_at True id id (\<lambda>_. NGX_OK) 1
     (strip_demo\<lparr>content_type := ''text/htmx''\<rparr>))) \<noteq> None"
proof -
  have "map tolower_c (take 8 ''text/htmx'') = ''text/htm''" by code_simp
  then show ?thesis
    by (subst strip_content_type) (simp_all add: keeps_strip_def strip_demo_def strip_passes_by_def)
qed

end
