(* ===== verification/Headers_List.thy ===== *)
theory Headers_List
  imports Ngx_Core
begin

text \<open>
  The list of headers of a request, as the headers_more module reads and cuts it: an
  \<open>ngx_list_t\<close>, a chain of parts, each an array of header elements. The parts and the elements live
  in memory, since the module keeps pointers to elements while it removes others; removing a
  header moves the start of a part, shortens it, splits it in two or takes it out of the chain
  (\<open>src/modules/mod_headers_more/src/ngx_http_headers_more_util.c\<close>). Then: what a list is, as a
  list of addresses, and what each operation does to it.
\<close>

section \<open>Lists in memory\<close>

text \<open>
  A header is sent when its \<open>hash\<close> is not zero. Memory that has not been written yet shows in
  \<open>h_lowcase_key\<close>, which is \<open>None\<close> for a null pointer.
\<close>

record ngx_table_elt =
  h_hash :: nat
  h_key :: string
  h_value :: string
  h_lowcase_key :: "string option"

text \<open>\<open>elts\<close> is the address of the first element; the others follow it.\<close>

record ngx_list_part =
  elts :: nat
  nelts :: nat
  next_part :: "nat option"

text \<open>
  A list together with the memory its elements and parts live in. \<open>l_part\<close> is the address of the
  first part, which is inside the list itself; \<open>nalloc\<close> is the room of the last part.
\<close>

record ngx_list =
  elt :: "nat \<Rightarrow> ngx_table_elt"
  prt :: "nat \<Rightarrow> ngx_list_part"
  l_part :: nat
  l_last :: nat
  nalloc :: nat

definition set_elt :: "nat \<Rightarrow> (ngx_table_elt \<Rightarrow> ngx_table_elt) \<Rightarrow> ngx_list \<Rightarrow> ngx_list" where
  "set_elt a f l = l\<lparr>elt := (elt l)(a := f (elt l a))\<rparr>"

definition set_part :: "nat \<Rightarrow> (ngx_list_part \<Rightarrow> ngx_list_part) \<Rightarrow> ngx_list \<Rightarrow> ngx_list" where
  "set_part p f l = l\<lparr>prt := (prt l)(p := f (prt l p))\<rparr>"

lemma set_elt_simps [simp]:
  "elt (set_elt a f l) = (elt l)(a := f (elt l a))"  "prt (set_elt a f l) = prt l"
  "l_part (set_elt a f l) = l_part l"  "l_last (set_elt a f l) = l_last l"
  "nalloc (set_elt a f l) = nalloc l"
  by (simp_all add: set_elt_def)

lemma set_part_simps [simp]:
  "elt (set_part p g l) = elt l"  "prt (set_part p g l) = (prt l)(p := g (prt l p))"
  "l_part (set_part p g l) = l_part l"  "l_last (set_part p g l) = l_last l"
  "nalloc (set_part p g l) = nalloc l"
  by (simp_all add: set_part_def)

section \<open>Walking a list\<close>

text \<open>
  The loop all walks share: \<open>i\<close> runs over a part; behind its end the walk goes to the next part,
  or ends. The body may leave the loop.
\<close>

definition next_elt :: "ngx_list \<Rightarrow> nat \<Rightarrow> nat \<Rightarrow> (nat \<times> nat) option" where
  "next_elt l p i =
     (if nelts (prt l p) \<le> i then
        (case next_part (prt l p) of None \<Rightarrow> None | Some q \<Rightarrow> Some (q, 0))
      else Some (p, i))"

definition list_walk ::
  "('s \<Rightarrow> ngx_list) \<Rightarrow> (nat \<Rightarrow> nat \<Rightarrow> 's \<Rightarrow> 's flow outcome) \<Rightarrow> 's \<Rightarrow> 's outcome" where
  "list_walk get body s =
     bindO
       (loop (\<lambda>_. True)
         (\<lambda>(p, i, s).
           case next_elt (get s) p i of
             None \<Rightarrow> ret (Break (p, i, s))
           | Some (q, j) \<Rightarrow>
               bindO (body q j s) (\<lambda>w.
                 case w of
                   Next s' \<Rightarrow> ret (Next (q, Suc j, s'))
                 | Break s' \<Rightarrow> ret (Break (q, j, s'))))
         (l_part (get s), 0, s))
       (\<lambda>(p, i, s'). ret s')"

text \<open>The element \<open>j\<close> of a part; reading an element the part does not have is a fault.\<close>

definition elt_addr :: "ngx_list \<Rightarrow> nat \<Rightarrow> nat \<Rightarrow> (nat \<Rightarrow> 'a outcome) \<Rightarrow> 'a outcome" where
  "elt_addr l p j k =
     (if j < nelts (prt l p) then k (elts (prt l p) + j) else fail OutOfBounds)"

section \<open>Removing a header\<close>

text \<open>
  \<open>while (part->next != cur)\<close>: the part before \<open>cur\<close>, or \<open>None\<close> where the loop meets the end of
  the chain and the function returns \<open>NGX_ERROR\<close>.
\<close>

definition find_prev :: "nat \<Rightarrow> ngx_list \<Rightarrow> nat option outcome" where
  "find_prev cur l =
     loop (\<lambda>s. case s of None \<Rightarrow> False | Some p \<Rightarrow> next_part (prt l p) \<noteq> Some cur)
       (\<lambda>s. case s of
              None \<Rightarrow> ret (Break None)
            | Some p \<Rightarrow>
                (case next_part (prt l p) of
                   None \<Rightarrow> ret (Break None)
                 | Some q \<Rightarrow> ret (Next (Some q))))
       (Some (l_part l))"

text \<open>
  \<open>new\<close> is what \<open>ngx_palloc\<close> returns for a new part. The callers pass an element of the part;
  anything else is a fault here.
\<close>

definition ngx_http_headers_more_rm_header_helper ::
  "nat option \<Rightarrow> ngx_list \<Rightarrow> nat \<Rightarrow> nat \<Rightarrow> (int \<times> ngx_list) outcome" where
  "ngx_http_headers_more_rm_header_helper new l0 cur i =
     (if \<not> i < nelts (prt l0 cur) then fail OutOfBounds
      else if i = 0 then
        (let l = set_part cur (\<lambda>p. p\<lparr>elts := elts p + 1, nelts := nelts p - 1\<rparr>) l0 in
         if cur = l_last l then
           (if nelts (prt l cur) = 0 then
              bindO (find_prev cur l) (\<lambda>r.
                case r of
                  None \<Rightarrow> ret (NGX_ERROR, l)
                | Some p \<Rightarrow>
                    ret (NGX_OK, (set_part p (\<lambda>q. q\<lparr>next_part := None\<rparr>) l)
                                   \<lparr>l_last := p, nalloc := nelts (prt l p)\<rparr>))
            else ret (NGX_OK, l\<lparr>nalloc := nelts (prt l cur)\<rparr>))
         else if nelts (prt l cur) = 0 then
           bindO (find_prev cur l) (\<lambda>r.
             case r of
               None \<Rightarrow> ret (NGX_ERROR, l)
             | Some p \<Rightarrow>
                 ret (NGX_OK, set_part p (\<lambda>q. q\<lparr>next_part := next_part (prt l cur)\<rparr>) l))
         else ret (NGX_OK, l))
      else if i = nelts (prt l0 cur) - 1 then
        (let l = set_part cur (\<lambda>p. p\<lparr>nelts := nelts p - 1\<rparr>) l0 in
         ret (NGX_OK, if cur = l_last l then l\<lparr>nalloc := nelts (prt l cur)\<rparr> else l))
      else
        (case new of
           None \<Rightarrow> ret (NGX_ERROR, l0)
         | Some n \<Rightarrow>
             (let c = prt l0 cur;
                  l = set_part n (\<lambda>p. \<lparr>elts = elts c + i + 1, nelts = nelts c - i - 1,
                                       next_part = next_part c\<rparr>) l0;
                  l = set_part cur (\<lambda>p. p\<lparr>nelts := i, next_part := Some n\<rparr>) l
              in ret (NGX_OK,
                      if cur = l_last l then l\<lparr>l_last := n, nalloc := nelts (prt l n)\<rparr> else l))))"

text \<open>
  \<open>ngx_http_headers_more_rm_header\<close> walks the list for the element \<open>h\<close>. Where it goes to another
  part it also assigns \<open>h\<close> the first element of that part.
\<close>

definition ngx_http_headers_more_rm_header ::
  "nat option \<Rightarrow> ngx_list \<Rightarrow> nat \<Rightarrow> (int \<times> ngx_list) outcome" where
  "ngx_http_headers_more_rm_header new l h =
     bindO
       (loop (\<lambda>_. True)
         (\<lambda>(p, i, h, r).
           case next_elt l p i of
             None \<Rightarrow> ret (Break (p, i, h, (NGX_ERROR, l)))
           | Some (q, j) \<Rightarrow>
               (let h' = (if nelts (prt l p) \<le> i then elts (prt l q) else h) in
                if elts (prt l q) + j = h' then
                  bindO (ngx_http_headers_more_rm_header_helper new l q j)
                    (\<lambda>r'. ret (Break (q, j, h', r')))
                else ret (Next (q, Suc j, h', r))))
         (l_part l, 0, h, (NGX_ERROR, l)))
       (\<lambda>(p, i, h', r). ret r)"

section \<open>What a list is\<close>

text \<open>A chain of parts between two pointers.\<close>

primrec part_path :: "(nat \<Rightarrow> ngx_list_part) \<Rightarrow> nat option \<Rightarrow> nat list \<Rightarrow> nat option \<Rightarrow> bool" where
  "part_path f x [] y = (x = y)"
| "part_path f x (p # ps) y = (x = Some p \<and> part_path f (next_part (f p)) ps y)"

lemma part_path_append [simp]:
  "part_path f x (ps @ qs) y = (\<exists>z. part_path f x ps z \<and> part_path f z qs y)"
  by (induction ps arbitrary: x) auto

lemma part_path_cong:
  assumes "\<And>p. p \<in> set ps \<Longrightarrow> next_part (f p) = next_part (g p)"
  shows "part_path f x ps y = part_path g x ps y"
  using assms by (induction ps arbitrary: x) simp_all

definition part_addrs :: "ngx_list_part \<Rightarrow> nat list" where
  "part_addrs p = [elts p..<elts p + nelts p]"

definition addrs :: "(nat \<Rightarrow> ngx_list_part) \<Rightarrow> nat list \<Rightarrow> nat list" where
  "addrs f ps = concat (map (\<lambda>p. part_addrs (f p)) ps)"

lemma addrs_simps [simp]:
  "addrs f [] = []"  "addrs f (p # ps) = part_addrs (f p) @ addrs f ps"
  "addrs f (ps @ qs) = addrs f ps @ addrs f qs"
  by (simp_all add: addrs_def)

lemma addrs_cong:
  assumes "\<And>p. p \<in> set ps \<Longrightarrow> elts (f p) = elts (g p) \<and> nelts (f p) = nelts (g p)"
  shows "addrs f ps = addrs g ps"
  using assms by (induction ps) (simp_all add: part_addrs_def)

text \<open>The slots behind the last element that the last part may still use.\<close>

definition free_slots :: "ngx_list \<Rightarrow> nat set" where
  "free_slots l =
     {elts (prt l (l_last l)) + nelts (prt l (l_last l))..<elts (prt l (l_last l)) + nalloc l}"

text \<open>
  A list with the parts \<open>ps\<close>: the chain ends, the last part is the one the list knows of, only the
  first part may be empty, no slot belongs to two elements, and the free slots are free.
\<close>

definition wf_list :: "ngx_list \<Rightarrow> nat list \<Rightarrow> bool" where
  "wf_list l ps =
     (part_path (prt l) (Some (l_part l)) ps None \<and> distinct ps \<and> last ps = l_last l \<and>
      list_all (\<lambda>p. nelts (prt l p) \<noteq> 0) (tl ps) \<and> distinct (addrs (prt l) ps) \<and>
      free_slots l \<inter> set (addrs (prt l) ps) = {})"

text \<open>The headers of a list, in order.\<close>

definition headers_of :: "ngx_list \<Rightarrow> nat list \<Rightarrow> ngx_table_elt list" where
  "headers_of l ps = map (elt l) (addrs (prt l) ps)"

lemma wf_list_hd: "wf_list l ps \<Longrightarrow> ps \<noteq> [] \<and> hd ps = l_part l"
  by (cases ps) (auto simp: wf_list_def)

section \<open>A walk is a walk over the elements\<close>

definition slots :: "(nat \<Rightarrow> ngx_list_part) \<Rightarrow> nat list \<Rightarrow> (nat \<times> nat \<times> nat) list" where
  "slots f ps = concat (map (\<lambda>p. map (\<lambda>i. (p, i, elts (f p) + i)) [0..<nelts (f p)]) ps)"

lemma slots_simps [simp]:
  "slots f [] = []"
  "slots f (p # ps) = map (\<lambda>i. (p, i, elts (f p) + i)) [0..<nelts (f p)] @ slots f ps"
  by (simp_all add: slots_def)

lemma map_add_upt_from: "map (\<lambda>i. a + i) [0..<n] = [a..<a + n]"
  by (induction n) simp_all

lemma slots_addrs: "map (\<lambda>(p, i, a). a) (slots f ps) = addrs f ps"
  by (induction ps) (simp_all add: part_addrs_def comp_def map_add_upt_from)

primrec walk_all ::
  "(nat \<Rightarrow> nat \<Rightarrow> nat \<Rightarrow> 's \<Rightarrow> 's flow outcome) \<Rightarrow> (nat \<times> nat \<times> nat) list \<Rightarrow> 's \<Rightarrow> 's outcome" where
  "walk_all g [] s = ret s"
| "walk_all g (x # xs) s =
     (case x of (p, i, a) \<Rightarrow>
       bindO (g p i a s) (\<lambda>w. case w of Next s' \<Rightarrow> walk_all g xs s' | Break s' \<Rightarrow> ret s'))"

definition walk_step ::
  "('s \<Rightarrow> ngx_list) \<Rightarrow> (nat \<Rightarrow> nat \<Rightarrow> nat \<Rightarrow> 's \<Rightarrow> 's flow outcome) \<Rightarrow> nat \<times> nat \<times> 's \<Rightarrow>
   (nat \<times> nat \<times> 's) flow outcome" where
  "walk_step get g =
     (\<lambda>(p, i, s).
       case next_elt (get s) p i of
         None \<Rightarrow> ret (Break (p, i, s))
       | Some (q, j) \<Rightarrow>
           bindO (elt_addr (get s) q j (\<lambda>a. g q j a s)) (\<lambda>w.
             case w of
               Next s' \<Rightarrow> ret (Next (q, Suc j, s'))
             | Break s' \<Rightarrow> ret (Break (q, j, s'))))"

lemma walk_loop:
  assumes stable: "\<And>p i a s s'. g p i a s = ret (Next s') \<Longrightarrow> prt (get s') = prt (get s)"
    and "part_path (prt (get s)) (next_part (prt (get s) p)) qs None"
    and "list_all (\<lambda>p. nelts (prt (get s) p) \<noteq> 0) qs"
    and "xs = map (\<lambda>j. (p, j, elts (prt (get s) p) + j)) [i..<nelts (prt (get s) p)] @
      slots (prt (get s)) qs"
  shows "bindO (loop (\<lambda>_. True) (walk_step get g) (p, i, s)) (\<lambda>(p, i, s'). ret s') = walk_all g xs s"
  using assms(2-4)
proof (induction xs arbitrary: p i qs s)
  case Nil
  then have "nelts (prt (get s) p) \<le> i" by auto
  moreover have "qs = []" using Nil.prems by (cases qs) simp_all
  ultimately have "walk_step get g (p, i, s) = ret (Break (p, i, s))"
    using Nil.prems(1) by (simp add: walk_step_def next_elt_def)
  then show ?case by (simp add: loop.simps)
next
  case (Cons x xs)
  obtain q j rs where x: "x = (q, j, elts (prt (get s) q) + j)"
    and j: "j < nelts (prt (get s) q)" "next_elt (get s) p i = Some (q, j)"
    and rs: "part_path (prt (get s)) (next_part (prt (get s) q)) rs None"
      "list_all (\<lambda>p. nelts (prt (get s) p) \<noteq> 0) rs"
      "xs = map (\<lambda>j. (q, j, elts (prt (get s) q) + j)) [Suc j..<nelts (prt (get s) q)] @
        slots (prt (get s)) rs"
  proof (cases "i < nelts (prt (get s) p)")
    case True
    with Cons.prems show thesis
      by (intro that [of p i qs]) (simp_all add: next_elt_def upt_conv_Cons)
  next
    case False
    then obtain q rs where q: "qs = q # rs" using Cons.prems(3) by (cases qs) simp_all
    with False Cons.prems show thesis
      by (intro that [of q 0 rs]) (simp_all add: next_elt_def upt_conv_Cons)
  qed
  have step: "walk_step get g (p, i, s) =
    bindO (g q j (elts (prt (get s) q) + j) s) (\<lambda>w.
      case w of Next s' \<Rightarrow> ret (Next (q, Suc j, s')) | Break s' \<Rightarrow> ret (Break (q, j, s')))"
    using j by (simp add: walk_step_def elt_addr_def)
  show ?case
  proof (cases "g q j (elts (prt (get s) q) + j) s")
    case None
    then show ?thesis using x step by (simp add: loop.simps)
  next
    case (Some r)
    show ?thesis
    proof (cases r)
      case (Inl f)
      then show ?thesis using x step Some by (simp add: loop.simps)
    next
      case (Inr w)
      show ?thesis
      proof (cases w)
        case (Break s')
        then show ?thesis using x step Some Inr by (simp add: loop.simps)
      next
        case (Next s')
        then have eq: "prt (get s') = prt (get s)" using stable Some Inr by blast
        have "bindO (loop (\<lambda>_. True) (walk_step get g) (q, Suc j, s')) (\<lambda>(p, i, s'). ret s') =
          walk_all g xs s'"
          by (rule Cons.IH) (use rs in \<open>simp_all add: eq\<close>)
        then show ?thesis
          using x step Some Inr Next by (simp add: loop.simps [of _ _ "(p, i, s)"])
      qed
    qed
  qed
qed

lemma list_walk_all:
  assumes "wf_list (get s) ps"
    and "\<And>p i a s s'. g p i a s = ret (Next s') \<Longrightarrow> prt (get s') = prt (get s)"
  shows "list_walk get (\<lambda>p i s. elt_addr (get s) p i (\<lambda>a. g p i a s)) s =
    walk_all g (slots (prt (get s)) ps) s"
proof -
  from wf_list_hd [OF assms(1)] obtain qs where ps: "ps = l_part (get s) # qs" by (cases ps) auto
  show ?thesis
    unfolding list_walk_def walk_step_def [symmetric]
    by (rule walk_loop [OF assms(2)]) (use assms(1) ps in \<open>simp_all add: wf_list_def\<close>)
qed

text \<open>A body that never leaves the loop and only looks at addresses is a fold.\<close>

lemma walk_all_fold:
  assumes "\<And>p i a s. g p i a s = ret (Next (h a s))"
  shows "walk_all g xs s = ret (fold h (map (\<lambda>(p, i, a). a) xs) s)"
  by (induction xs arbitrary: s) (auto simp: assms)

lemma list_walk_fold:
  assumes "wf_list (get s) ps" "\<And>a s. prt (get (h a s)) = prt (get s)"
  shows "list_walk get (\<lambda>p i s. elt_addr (get s) p i (\<lambda>a. ret (Next (h a s)))) s =
    ret (fold h (addrs (prt (get s)) ps) s)"
proof -
  have "list_walk get (\<lambda>p i s. elt_addr (get s) p i (\<lambda>a. ret (Next (h a s)))) s =
    walk_all (\<lambda>p i a s. ret (Next (h a s))) (slots (prt (get s)) ps) s"
    by (rule list_walk_all [where get = get, OF assms(1)]) (use assms(2) in auto)
  then show ?thesis by (simp add: walk_all_fold slots_addrs)
qed

section \<open>What removal does\<close>

lemma find_prev_loop:
  assumes "part_path (prt l) (Some p) (us @ [q]) (Some cur)" "cur \<notin> set (us @ [q])"
  shows "loop (\<lambda>s. case s of None \<Rightarrow> False | Some p \<Rightarrow> next_part (prt l p) \<noteq> Some cur)
       (\<lambda>s. case s of
              None \<Rightarrow> ret (Break None)
            | Some p \<Rightarrow>
                (case next_part (prt l p) of
                   None \<Rightarrow> ret (Break None)
                 | Some q \<Rightarrow> ret (Next (Some q)))) (Some p) = ret (Some q)"
  using assms
proof (induction us arbitrary: p)
  case Nil
  then show ?case by (simp add: loop.simps)
next
  case (Cons u us)
  obtain v where v: "next_part (prt l p) = Some v" "v \<noteq> cur" "part_path (prt l) (Some v) (us @ [q]) (Some cur)"
    using Cons.prems by (cases us) auto
  show ?case using v Cons by (subst loop.simps) simp
qed

lemma find_prev_end:
  assumes "part_path (prt l) (Some p) (p # ps) None" "cur \<notin> set ps"
  shows "loop (\<lambda>s. case s of None \<Rightarrow> False | Some p \<Rightarrow> next_part (prt l p) \<noteq> Some cur)
       (\<lambda>s. case s of
              None \<Rightarrow> ret (Break None)
            | Some p \<Rightarrow>
                (case next_part (prt l p) of
                   None \<Rightarrow> ret (Break None)
                 | Some q \<Rightarrow> ret (Next (Some q)))) (Some p) = ret None"
  using assms
proof (induction ps arbitrary: p)
  case Nil
  then show ?case by (simp add: loop.simps)
next
  case (Cons v ps)
  show ?case using Cons by (subst loop.simps) simp
qed

lemma find_prev_Some:
  assumes "part_path (prt l) (Some (l_part l)) (us @ q # cur # vs) None" "distinct (us @ q # cur # vs)"
  shows "find_prev cur l = ret (Some q)"
  unfolding find_prev_def by (rule find_prev_loop) (use assms in auto)

lemma find_prev_None:
  assumes "part_path (prt l) (Some (l_part l)) (cur # vs) None" "distinct (cur # vs)"
  shows "find_prev cur l = ret None"
  unfolding find_prev_def by (rule find_prev_end) (use assms in auto)

text \<open>Taking an address out of a run of addresses.\<close>

lemma remove1_run:
  assumes "i < n" "distinct (us @ [e..<e + n] @ vs)"
  shows "remove1 (e + i) (us @ [e..<e + n] @ vs) = us @ [e..<e + i] @ [e + i + 1..<e + n] @ vs"
proof -
  have "[e..<e + n] = [e..<e + i] @ (e + i) # [e + i + 1..<e + n]"
    using assms(1) upt_add_eq_append [of e "e + i" "n - i"] by (simp add: upt_conv_Cons)
  then show ?thesis using assms(2) by (auto simp: remove1_append)
qed

text \<open>
  The result of a removal: the element at address \<open>a\<close> is out of the list, all others stay as and
  where they were, in a list that is well formed again and claims no more room than before.
\<close>

definition removed :: "nat \<Rightarrow> ngx_list \<Rightarrow> nat list \<Rightarrow> ngx_list \<Rightarrow> nat list \<Rightarrow> bool" where
  "removed a l ps l' ps' =
     (wf_list l' ps' \<and> addrs (prt l') ps' = remove1 a (addrs (prt l) ps) \<and> elt l' = elt l \<and>
      l_part l' = l_part l)"

text \<open>A list that was changed in its parts only, given the new chain and the new addresses.\<close>

lemma removedI:
  assumes "wf_list l ps" "part_path (prt l') (Some (l_part l)) ps' None" "distinct ps'"
    "last ps' = l_last l'" "list_all (\<lambda>p. nelts (prt l' p) \<noteq> 0) (tl ps')"
    "addrs (prt l') ps' = remove1 a (addrs (prt l) ps)" "elt l' = elt l" "l_part l' = l_part l"
    "free_slots l' \<subseteq> free_slots l"
  shows "removed a l ps l' ps'"
  using assms set_remove1_subset [of a "addrs (prt l) ps"]
  unfolding removed_def wf_list_def by (auto simp: distinct_remove1)

text \<open>The addresses that are left, in a list that agrees with the old one on the other parts.\<close>

lemma addrs_removed:
  assumes "wf_list l ps" "ps = us @ cur # vs" "i < nelts (prt l cur)"
    and "\<And>p. p \<in> set us \<union> set vs \<Longrightarrow> elts (f p) = elts (prt l p) \<and> nelts (f p) = nelts (prt l p)"
  shows "remove1 (elts (prt l cur) + i) (addrs (prt l) ps) =
    addrs f us @ [elts (prt l cur)..<elts (prt l cur) + i] @
    [elts (prt l cur) + i + 1..<elts (prt l cur) + nelts (prt l cur)] @ addrs f vs"
proof -
  have "addrs f us = addrs (prt l) us" "addrs f vs = addrs (prt l) vs"
    using assms(4) by (auto intro!: addrs_cong)
  then show ?thesis
    using remove1_run [OF assms(3), of "addrs (prt l) us" "elts (prt l cur)" "addrs (prt l) vs"] assms(1,2)
    by (simp add: wf_list_def part_addrs_def)
qed

text \<open>The first element of a part that has more.\<close>

lemma rm_helper_first:
  assumes wf: "wf_list l ps" and ps: "ps = us @ cur # vs" and n: "1 < nelts (prt l cur)"
  shows "\<exists>l'. ngx_http_headers_more_rm_header_helper new l cur 0 = ret (NGX_OK, l') \<and>
    removed (elts (prt l cur)) l ps l' ps \<and> free_slots l' \<subseteq> free_slots l"
proof -
  define l' where "l' = (let l1 = set_part cur (\<lambda>p. p\<lparr>elts := elts p + 1, nelts := nelts p - 1\<rparr>) l
    in if cur = l_last l then l1\<lparr>nalloc := nelts (prt l1 cur)\<rparr> else l1)"
  have l': "prt l' = (prt l)(cur := (prt l cur)\<lparr>elts := elts (prt l cur) + 1, nelts := nelts (prt l cur) - 1\<rparr>)"
    "l_part l' = l_part l" "l_last l' = l_last l" "elt l' = elt l"
    "nalloc l' = (if cur = l_last l then nelts (prt l cur) - 1 else nalloc l)"
    by (simp_all add: l'_def Let_def)
  have d: "cur \<notin> set us" "cur \<notin> set vs" using wf ps by (auto simp: wf_list_def)
  have path: "part_path (prt l') (Some (l_part l)) ps None"
    using wf part_path_cong [of ps "prt l'" "prt l"] by (simp add: wf_list_def l')
  have ad: "addrs (prt l') ps = remove1 (elts (prt l cur)) (addrs (prt l) ps)"
  proof -
    have "remove1 (elts (prt l cur) + 0) (addrs (prt l) ps) = addrs (prt l') ps"
      by (subst addrs_removed [OF wf ps, of 0 "prt l'"]) (use n d in \<open>auto simp: ps part_addrs_def l'\<close>)
    then show ?thesis by simp
  qed
  have fs: "free_slots l' \<subseteq> free_slots l" by (auto simp: free_slots_def l')
  have "removed (elts (prt l cur)) l ps l' ps"
    by (rule removedI [OF wf path _ _ _ ad _ _ fs]) (use wf n in \<open>auto simp: wf_list_def list_all_iff l'\<close>)
  moreover have "ngx_http_headers_more_rm_header_helper new l cur 0 = ret (NGX_OK, l')"
    using n by (auto simp: ngx_http_headers_more_rm_header_helper_def Let_def l'_def)
  ultimately show ?thesis using fs by blast
qed

text \<open>The last element of a part that has more.\<close>

lemma rm_helper_last:
  assumes wf: "wf_list l ps" and ps: "ps = us @ cur # vs" and n: "1 < nelts (prt l cur)"
    "i = nelts (prt l cur) - 1"
  shows "\<exists>l'. ngx_http_headers_more_rm_header_helper new l cur i = ret (NGX_OK, l') \<and>
    removed (elts (prt l cur) + i) l ps l' ps \<and> free_slots l' \<subseteq> free_slots l"
proof -
  define l' where "l' = (let l1 = set_part cur (\<lambda>p. p\<lparr>nelts := nelts p - 1\<rparr>) l
    in if cur = l_last l then l1\<lparr>nalloc := nelts (prt l1 cur)\<rparr> else l1)"
  have l': "prt l' = (prt l)(cur := (prt l cur)\<lparr>nelts := nelts (prt l cur) - 1\<rparr>)"
    "l_part l' = l_part l" "l_last l' = l_last l" "elt l' = elt l"
    "nalloc l' = (if cur = l_last l then nelts (prt l cur) - 1 else nalloc l)"
    by (simp_all add: l'_def Let_def)
  have d: "cur \<notin> set us" "cur \<notin> set vs" using wf ps by (auto simp: wf_list_def)
  have path: "part_path (prt l') (Some (l_part l)) ps None"
    using wf part_path_cong [of ps "prt l'" "prt l"] by (simp add: wf_list_def l')
  have ad: "addrs (prt l') ps = remove1 (elts (prt l cur) + i) (addrs (prt l) ps)"
    by (subst addrs_removed [OF wf ps, of i "prt l'"]) (use n d in \<open>auto simp: ps part_addrs_def l'\<close>)
  have fs: "free_slots l' \<subseteq> free_slots l" by (auto simp: free_slots_def l')
  have "removed (elts (prt l cur) + i) l ps l' ps"
    by (rule removedI [OF wf path _ _ _ ad _ _ fs]) (use wf n in \<open>auto simp: wf_list_def list_all_iff l'\<close>)
  moreover have "ngx_http_headers_more_rm_header_helper new l cur i = ret (NGX_OK, l')"
    using n by (auto simp: ngx_http_headers_more_rm_header_helper_def Let_def l'_def)
  ultimately show ?thesis using fs by blast
qed

text \<open>An element in the middle: the part is split at it.\<close>

lemma rm_helper_split:
  assumes wf: "wf_list l ps" and ps: "ps = us @ cur # vs" and i: "0 < i" "i < nelts (prt l cur) - 1"
    and n: "n \<notin> set ps"
  shows "\<exists>l'. ngx_http_headers_more_rm_header_helper (Some n) l cur i = ret (NGX_OK, l') \<and>
    removed (elts (prt l cur) + i) l ps l' (us @ cur # n # vs) \<and> free_slots l' \<subseteq> free_slots l"
proof -
  define l' where "l' = (let c = prt l cur;
                  l1 = set_part n (\<lambda>p. \<lparr>elts = elts c + i + 1, nelts = nelts c - i - 1,
                                       next_part = next_part c\<rparr>) l;
                  l1 = set_part cur (\<lambda>p. p\<lparr>nelts := i, next_part := Some n\<rparr>) l1
              in if cur = l_last l1 then l1\<lparr>l_last := n, nalloc := nelts (prt l1 n)\<rparr> else l1)"
  let ?c = "prt l cur"
  have d: "cur \<notin> set us" "cur \<notin> set vs" "n \<noteq> cur" "n \<notin> set us" "n \<notin> set vs" "distinct us" "distinct vs"
    "set us \<inter> set vs = {}"
    using wf ps n by (auto simp: wf_list_def)
  have l': "prt l' cur = ?c\<lparr>nelts := i, next_part := Some n\<rparr>"
    "prt l' n = \<lparr>elts = elts ?c + i + 1, nelts = nelts ?c - i - 1, next_part = next_part ?c\<rparr>"
    "l_part l' = l_part l" "l_last l' = (if cur = l_last l then n else l_last l)" "elt l' = elt l"
    "nalloc l' = (if cur = l_last l then nelts ?c - i - 1 else nalloc l)"
    using d by (simp_all add: l'_def Let_def)
  have same: "prt l' p = prt l p" if "p \<in> set us \<union> set vs" for p
    using d that by (auto simp: l'_def Let_def)
  have "part_path (prt l) (Some (l_part l)) us (Some cur)" "part_path (prt l) (next_part ?c) vs None"
    using wf ps by (auto simp: wf_list_def)
  then have path: "part_path (prt l') (Some (l_part l)) (us @ cur # n # vs) None"
    using part_path_cong [of us "prt l'" "prt l"] part_path_cong [of vs "prt l'" "prt l"] same
    by (simp add: l')
  have ad: "addrs (prt l') (us @ cur # n # vs) = remove1 (elts ?c + i) (addrs (prt l) ps)"
  proof -
    have "part_addrs (prt l' n) = [elts ?c + i + 1..<elts ?c + nelts ?c]"
    proof -
      have "elts ?c + i + 1 + (nelts ?c - i - 1) = elts ?c + nelts ?c" using i by simp
      then show ?thesis by (simp only: part_addrs_def l' ngx_list_part.simps)
    qed
    moreover have "part_addrs (prt l' cur) = [elts ?c..<elts ?c + i]" by (simp add: part_addrs_def l')
    moreover have "i < nelts ?c" using i by simp
    ultimately show ?thesis
      by (subst addrs_removed [OF wf ps, of i "prt l'"]) (simp_all add: ps same)
  qed
  have last: "last vs = l_last l" if "vs \<noteq> []" using wf ps that by (auto simp: wf_list_def)
  have fs: "free_slots l' \<subseteq> free_slots l"
  proof (cases "cur = l_last l")
    case True
    then show ?thesis by (auto simp: free_slots_def l')
  next
    case False
    then have "vs \<noteq> []" using wf ps by (auto simp: wf_list_def)
    then have "l_last l \<in> set vs" using last by (metis last_in_set)
    then show ?thesis using False same by (simp add: free_slots_def l')
  qed
  have nz: "list_all (\<lambda>p. nelts (prt l' p) \<noteq> 0) (tl (us @ cur # n # vs))"
    using wf ps i d same by (cases us) (auto simp: wf_list_def list_all_iff l')
  have ls: "last (us @ cur # n # vs) = l_last l'"
    using wf ps d last_in_set [of vs] by (cases "vs = []") (auto simp: wf_list_def l')
  have "removed (elts ?c + i) l ps l' (us @ cur # n # vs)"
    by (rule removedI [OF wf path _ ls nz ad _ _ fs]) (use d in \<open>auto simp: l'\<close>)
  moreover have "ngx_http_headers_more_rm_header_helper (Some n) l cur i = ret (NGX_OK, l')"
    using i by (simp add: ngx_http_headers_more_rm_header_helper_def Let_def l'_def)
  ultimately show ?thesis using fs by blast
qed

text \<open>The only element of a part that is not the first: the part goes.\<close>

lemma rm_helper_part:
  assumes wf: "wf_list l ps" and ps: "ps = us @ p # cur # vs" and n: "nelts (prt l cur) = 1"
  shows "\<exists>l'. ngx_http_headers_more_rm_header_helper new l cur 0 = ret (NGX_OK, l') \<and>
    removed (elts (prt l cur)) l ps l' (us @ p # vs) \<and> free_slots l' \<subseteq> free_slots l"
proof -
  define l1 where "l1 = set_part cur (\<lambda>p. p\<lparr>elts := elts p + 1, nelts := nelts p - 1\<rparr>) l"
  have l1: "nelts (prt l1 cur) = 0" "l_last l1 = l_last l" using n by (simp_all add: l1_def)
  define l' where "l' = (if cur = l_last l then (set_part p (\<lambda>q. q\<lparr>next_part := None\<rparr>) l1)
      \<lparr>l_last := p, nalloc := nelts (prt l1 p)\<rparr>
    else set_part p (\<lambda>q. q\<lparr>next_part := next_part (prt l1 cur)\<rparr>) l1)"
  have d: "cur \<notin> set us" "cur \<notin> set vs" "p \<noteq> cur" "p \<notin> set us" "p \<notin> set vs" "distinct us" "distinct vs"
    "set us \<inter> set vs = {}"
    using wf ps by (auto simp: wf_list_def)
  have path_l: "part_path (prt l) (Some (l_part l)) us (Some p)" "next_part (prt l p) = Some cur"
    "part_path (prt l) (next_part (prt l cur)) vs None"
    and last: "(if vs = [] then cur else last vs) = l_last l"
    using wf ps by (auto simp: wf_list_def)
  have end_l: "next_part (prt l cur) = None" if "cur = l_last l"
  proof -
    have "vs = []" using last that d(2) by (metis last_in_set)
    then show ?thesis using path_l(3) by simp
  qed
  have l': "prt l' p = (prt l p)\<lparr>next_part := next_part (prt l cur)\<rparr>"
    "l_part l' = l_part l" "l_last l' = (if cur = l_last l then p else l_last l)" "elt l' = elt l"
    "nalloc l' = (if cur = l_last l then nelts (prt l p) else nalloc l)"
    using d end_l by (simp_all add: l'_def l1_def)
  have same: "prt l' q = prt l q" if "q \<in> set us \<union> set vs" for q
    using d that by (auto simp: l'_def l1_def)
  have path: "part_path (prt l') (Some (l_part l)) (us @ p # vs) None"
    using path_l part_path_cong [of us "prt l'" "prt l"] part_path_cong [of vs "prt l'" "prt l"] same
    by (simp add: l')
  have ad: "addrs (prt l') (us @ p # vs) = remove1 (elts (prt l cur)) (addrs (prt l) ps)"
  proof -
    have ps': "ps = (us @ [p]) @ cur # vs" using ps by simp
    have "remove1 (elts (prt l cur) + 0) (addrs (prt l) ps) = addrs (prt l') (us @ p # vs)"
      by (subst addrs_removed [OF wf ps', of 0 "prt l'"]) (use n same in \<open>auto simp: part_addrs_def l'\<close>)
    then show ?thesis by simp
  qed
  have fs: "free_slots l' \<subseteq> free_slots l"
  proof (cases "cur = l_last l")
    case False
    then have "l_last l \<in> set vs" using last by (metis last_in_set)
    then show ?thesis using False same by (simp add: free_slots_def l')
  qed (simp add: free_slots_def l')
  have nz: "list_all (\<lambda>p. nelts (prt l' p) \<noteq> 0) (tl (us @ p # vs))"
    using wf ps d same by (cases us) (auto simp: wf_list_def list_all_iff l')
  have ls: "last (us @ p # vs) = l_last l'"
    using last d last_in_set [of vs] by (cases "vs = []") (auto simp: l')
  have "removed (elts (prt l cur)) l ps l' (us @ p # vs)"
    by (rule removedI [OF wf path _ ls nz ad _ _ fs]) (use d in \<open>auto simp: l'\<close>)
  moreover have "find_prev cur l1 = ret (Some p)"
    by (rule find_prev_Some [of l1 us p cur vs])
      (use wf ps part_path_cong [of ps "prt l1" "prt l"] in \<open>auto simp: wf_list_def l1_def\<close>)
  then have "ngx_http_headers_more_rm_header_helper new l cur 0 = ret (NGX_OK, l')"
    unfolding ngx_http_headers_more_rm_header_helper_def Let_def l1_def [symmetric]
    using n l1 by (cases "cur = l_last l") (auto simp: l'_def)
  ultimately show ?thesis using fs by blast
qed

text \<open>
  The only element of the first part. The element is taken out, but there is no part before the
  first, and the function reports an error.
\<close>

lemma rm_helper_head:
  assumes wf: "wf_list l ps" and ps: "ps = cur # vs" and n: "nelts (prt l cur) = 1"
  shows "\<exists>l'. ngx_http_headers_more_rm_header_helper new l cur 0 = ret (NGX_ERROR, l') \<and>
    removed (elts (prt l cur)) l ps l' ps \<and>
    l' = set_part cur (\<lambda>p. p\<lparr>elts := elts p + 1, nelts := 0\<rparr>) l"
proof -
  define l' where "l' = set_part cur (\<lambda>p. p\<lparr>elts := elts p + 1, nelts := nelts p - 1\<rparr>) l"
  have l': "l' = set_part cur (\<lambda>p. p\<lparr>elts := elts p + 1, nelts := 0\<rparr>) l"
    using n by (simp add: l'_def set_part_def)
  have d: "cur \<notin> set vs" using wf ps by (auto simp: wf_list_def)
  have path: "part_path (prt l') (Some (l_part l)) ps None"
    using wf part_path_cong [of ps "prt l'" "prt l"] by (simp add: wf_list_def l')
  have ad: "addrs (prt l') ps = remove1 (elts (prt l cur)) (addrs (prt l) ps)"
  proof -
    have ps': "ps = [] @ cur # vs" using ps by simp
    have "remove1 (elts (prt l cur) + 0) (addrs (prt l) ps) = addrs (prt l') ps"
      by (subst addrs_removed [OF wf ps', of 0 "prt l'"])
        (use n d in \<open>auto simp: ps part_addrs_def l'\<close>)
    then show ?thesis by simp
  qed
  have "wf_list l' ps"
    unfolding wf_list_def ad
  proof (intro conjI)
    show "free_slots l' \<inter> set (remove1 (elts (prt l cur)) (addrs (prt l) ps)) = {}"
    proof (cases "cur = l_last l")
      case True
      moreover have "vs = [] \<or> last vs \<in> set vs" using last_in_set by blast
      ultimately have "vs = []" using wf ps d by (auto simp: wf_list_def split: if_splits)
      then show ?thesis using ps n by (simp add: part_addrs_def)
    next
      case False
      then have "free_slots l' = free_slots l" by (simp add: free_slots_def l')
      then show ?thesis using wf set_remove1_subset [of "elts (prt l cur)" "addrs (prt l) ps"]
        by (auto simp: wf_list_def)
    qed
  qed (use wf ps d path in \<open>auto simp: wf_list_def l' list_all_iff distinct_remove1\<close>)
  then have "removed (elts (prt l cur)) l ps l' ps"
    using ad by (simp add: removed_def l')
  moreover have "find_prev cur l' = ret None"
    by (rule find_prev_None [of l' cur vs]) (use wf ps path in \<open>auto simp: wf_list_def l'\<close>)
  then have "ngx_http_headers_more_rm_header_helper new l cur 0 = ret (NGX_ERROR, l')"
    unfolding ngx_http_headers_more_rm_header_helper_def Let_def l'_def [symmetric]
    using n by (cases "cur = l_last l") (auto simp: l')
  ultimately show ?thesis using l' by blast
qed

text \<open>
  Removing any element of a list: \<open>NGX_OK\<close> and the element is out; or \<open>NGX_ERROR\<close>, because the
  pool has no memory for a split, or because the element was the only one of the first part.
\<close>

definition needs_split :: "ngx_list \<Rightarrow> nat \<Rightarrow> nat \<Rightarrow> bool" where
  "needs_split l cur i = (0 < i \<and> i < nelts (prt l cur) - 1)"

definition sole_of_first :: "ngx_list \<Rightarrow> nat \<Rightarrow> bool" where
  "sole_of_first l cur = (cur = l_part l \<and> nelts (prt l cur) = 1)"

lemma rm_helper_ok:
  assumes wf: "wf_list l ps" and cur: "cur \<in> set ps" and i: "i < nelts (prt l cur)"
    and new: "\<And>n. new = Some n \<Longrightarrow> n \<notin> set ps" and ok: "needs_split l cur i \<Longrightarrow> new \<noteq> None"
    "\<not> sole_of_first l cur"
  shows "\<exists>l' ps'. ngx_http_headers_more_rm_header_helper new l cur i = ret (NGX_OK, l') \<and>
    removed (elts (prt l cur) + i) l ps l' ps' \<and> free_slots l' \<subseteq> free_slots l"
proof -
  obtain us vs where ps: "ps = us @ cur # vs" using cur by (meson split_list)
  consider (first) "i = 0" "1 < nelts (prt l cur)" | (last) "1 < nelts (prt l cur)" "i = nelts (prt l cur) - 1"
    | (split) "0 < i" "i < nelts (prt l cur) - 1" | (part) "i = 0" "nelts (prt l cur) = 1"
    using i by linarith
  then show ?thesis
  proof cases
    case first
    then show ?thesis using rm_helper_first [OF wf ps first(2), of new] by fastforce
  next
    case last
    then show ?thesis using rm_helper_last [OF wf ps last] by blast
  next
    case split
    then obtain n where "new = Some n" "n \<notin> set ps" using new ok(1) by (auto simp: needs_split_def)
    then show ?thesis using rm_helper_split [OF wf ps split] by blast
  next
    case part
    have "us \<noteq> []"
      using wf_list_hd [OF wf] ok(2) part(2) ps by (auto simp: sole_of_first_def)
    then obtain us' p where "us = us' @ [p]" by (cases us rule: rev_cases) auto
    then show ?thesis using rm_helper_part [OF wf _ part(2), of us' p vs new] ps part(1) by auto
  qed
qed

section \<open>Finding the header to remove\<close>

definition rm_step ::
  "nat option \<Rightarrow> ngx_list \<Rightarrow> nat \<times> nat \<times> nat \<times> (int \<times> ngx_list) \<Rightarrow>
   (nat \<times> nat \<times> nat \<times> (int \<times> ngx_list)) flow outcome" where
  "rm_step new l =
     (\<lambda>(p, i, h, r).
       case next_elt l p i of
         None \<Rightarrow> ret (Break (p, i, h, (NGX_ERROR, l)))
       | Some (q, j) \<Rightarrow>
           (let h' = (if nelts (prt l p) \<le> i then elts (prt l q) else h) in
            if elts (prt l q) + j = h' then
              bindO (ngx_http_headers_more_rm_header_helper new l q j)
                (\<lambda>r'. ret (Break (q, j, h', r')))
            else ret (Next (q, Suc j, h', r))))"

lemma rm_header_step:
  "ngx_http_headers_more_rm_header new l h =
   bindO (loop (\<lambda>_. True) (rm_step new l) (l_part l, 0, h, (NGX_ERROR, l))) (\<lambda>(p, i, h', r). ret r)"
  by (simp add: ngx_http_headers_more_rm_header_def rm_step_def)

lemma rm_loop_skip:
  assumes "i \<le> k" "k \<le> nelts (prt l p)" "\<And>j. i \<le> j \<Longrightarrow> j < k \<Longrightarrow> elts (prt l p) + j \<noteq> h"
  shows "loop (\<lambda>_. True) (rm_step new l) (p, i, h, r) = loop (\<lambda>_. True) (rm_step new l) (p, k, h, r)"
  using assms
proof (induction "k - i" arbitrary: i)
  case (Suc n)
  have "i < k" using Suc.hyps(2) by simp
  then have "rm_step new l (p, i, h, r) = ret (Next (p, Suc i, h, r))"
    using Suc.prems by (simp add: rm_step_def next_elt_def Let_def)
  then have "loop (\<lambda>_. True) (rm_step new l) (p, i, h, r) =
    loop (\<lambda>_. True) (rm_step new l) (p, Suc i, h, r)"
    by (simp add: loop.simps [of _ _ "(p, i, h, r)"])
  also have "\<dots> = loop (\<lambda>_. True) (rm_step new l) (p, k, h, r)"
    by (rule Suc.hyps(1)) (use Suc in auto)
  finally show ?case .
qed simp

lemma rm_header_found:
  assumes "i < nelts (prt l (l_part l))"
  shows "ngx_http_headers_more_rm_header new l (elts (prt l (l_part l)) + i) =
    ngx_http_headers_more_rm_header_helper new l (l_part l) i"
proof -
  let ?h = "elts (prt l (l_part l)) + i"
  have "loop (\<lambda>_. True) (rm_step new l) (l_part l, 0, ?h, NGX_ERROR, l) =
    loop (\<lambda>_. True) (rm_step new l) (l_part l, i, ?h, NGX_ERROR, l)"
    by (rule rm_loop_skip) (use assms in auto)
  moreover have "rm_step new l (l_part l, i, ?h, NGX_ERROR, l) =
    bindO (ngx_http_headers_more_rm_header_helper new l (l_part l) i)
      (\<lambda>r'. ret (Break (l_part l, i, ?h, r')))"
    using assms by (simp add: rm_step_def next_elt_def Let_def)
  ultimately show ?thesis
    by (cases "ngx_http_headers_more_rm_header_helper new l (l_part l) i")
      (auto simp: rm_header_step loop.simps [of _ _ "(l_part l, i, _)"] bindO_def split: sum.splits)
qed

lemma rm_header_not_found:
  assumes "h \<notin> set (part_addrs (prt l (l_part l)))"
  shows "ngx_http_headers_more_rm_header new l h =
    (case next_part (prt l (l_part l)) of
       None \<Rightarrow> ret (NGX_ERROR, l)
     | Some q \<Rightarrow> ngx_http_headers_more_rm_header_helper new l q 0)"
proof -
  let ?n = "nelts (prt l (l_part l))"
  have "loop (\<lambda>_. True) (rm_step new l) (l_part l, 0, h, NGX_ERROR, l) =
    loop (\<lambda>_. True) (rm_step new l) (l_part l, ?n, h, NGX_ERROR, l)"
    by (rule rm_loop_skip) (use assms in \<open>auto simp: part_addrs_def\<close>)
  moreover have "rm_step new l (l_part l, ?n, h, NGX_ERROR, l) =
    (case next_part (prt l (l_part l)) of
       None \<Rightarrow> ret (Break (l_part l, ?n, h, (NGX_ERROR, l)))
     | Some q \<Rightarrow> bindO (ngx_http_headers_more_rm_header_helper new l q 0)
      (\<lambda>r'. ret (Break (q, 0, elts (prt l q), r'))))"
    by (simp add: rm_step_def next_elt_def Let_def split: option.splits)
  ultimately show ?thesis
    by (cases "next_part (prt l (l_part l))")
      (auto simp: rm_header_step loop.simps [of _ _ "(l_part l, ?n, _)"] bindO_def
        split: sum.splits option.splits)
qed

section \<open>Properties\<close>

text \<open>Two parts: three headers with room for one more in the first block, two in the second, which is full.\<close>

definition demo_elt :: "nat \<Rightarrow> ngx_table_elt" where
  "demo_elt a = \<lparr>h_hash = a, h_key = ''X'', h_value = ''v'', h_lowcase_key = Some ''x''\<rparr>"

definition demo_list :: ngx_list where
  "demo_list =
     \<lparr>elt = demo_elt,
      prt = (\<lambda>p. if p = 0 then \<lparr>elts = 10, nelts = 3, next_part = Some 1\<rparr>
                 else \<lparr>elts = 20, nelts = 2, next_part = None\<rparr>),
      l_part = 0, l_last = 1, nalloc = 2\<rparr>"

lemma demo_list_wf: "wf_list demo_list [0, 1]"
  by (simp add: wf_list_def demo_list_def free_slots_def part_addrs_def)

text \<open>
  C12: removing a header. Unless the header is the only one of the first part, or a split is needed
  and the pool has no memory, \<open>NGX_OK\<close> is returned and the list holds the other headers in their
  order, each at the address where it was (so pointers to them stay valid); the list is well
  formed again and does not claim memory it did not own.
\<close>

theorem rm_header_helper_removes:
  assumes "wf_list l ps" "cur \<in> set ps" "i < nelts (prt l cur)"
    and "\<And>n. new = Some n \<Longrightarrow> n \<notin> set ps" "needs_split l cur i \<Longrightarrow> new \<noteq> None"
    "\<not> sole_of_first l cur"
  shows "wp {} (ngx_http_headers_more_rm_header_helper new l cur i)
    (\<lambda>(rc, l'). rc = NGX_OK \<and> elt l' = elt l \<and> free_slots l' \<subseteq> free_slots l \<and>
      (\<exists>ps'. wf_list l' ps' \<and> addrs (prt l') ps' = remove1 (elts (prt l cur) + i) (addrs (prt l) ps)))"
  using rm_helper_ok [OF assms] by (auto simp: removed_def)

theorem rm_header_helper_removes_witness:
  "wp {} (ngx_http_headers_more_rm_header_helper (Some 7) demo_list 0 1)
    (\<lambda>(rc, l'). rc = NGX_OK \<and> elt l' = elt demo_list \<and> free_slots l' \<subseteq> free_slots demo_list \<and>
      (\<exists>ps'. wf_list l' ps' \<and> addrs (prt l') ps' = [10, 12, 20, 21]))"
  using rm_header_helper_removes [OF demo_list_wf, of 0 1 "Some 7"]
  by (simp add: demo_list_def sole_of_first_def part_addrs_def upt_rec)

text \<open>
  The header that is the only one of the first part is taken out, yet \<open>NGX_ERROR\<close> is returned;
  and where the list has no other part, the slot behind the end of the block counts as free from
  then on.
\<close>

lemma rm_header_helper_sole:
  assumes "wf_list l (cur # ps)" "nelts (prt l cur) = 1"
  shows "wp {} (ngx_http_headers_more_rm_header_helper new l cur 0)
    (\<lambda>(rc, l'). rc = NGX_ERROR \<and> wf_list l' (cur # ps) \<and>
      addrs (prt l') (cur # ps) = tl (addrs (prt l) (cur # ps)) \<and>
      (ps = [] \<longrightarrow> 1 \<le> nalloc l \<longrightarrow>
        elts (prt l cur) + nalloc l \<notin> free_slots l \<and> elts (prt l cur) + nalloc l \<in> free_slots l'))"
proof -
  obtain l' where run: "ngx_http_headers_more_rm_header_helper new l cur 0 = ret (NGX_ERROR, l')"
    and rm: "removed (elts (prt l cur)) l (cur # ps) l' (cur # ps)"
    and l': "l' = set_part cur (\<lambda>p. p\<lparr>elts := elts p + 1, nelts := 0\<rparr>) l"
    using rm_helper_head [OF assms(1) refl assms(2)] by blast
  have "addrs (prt l) (cur # ps) = elts (prt l cur) # addrs (prt l) ps"
    using assms(2) by (simp add: part_addrs_def)
  moreover have "l_last l = cur" if "ps = []" using assms(1) that by (simp add: wf_list_def)
  ultimately show ?thesis using run rm by (auto simp: removed_def free_slots_def l')
qed

definition sole_list :: ngx_list where
  "sole_list =
     \<lparr>elt = demo_elt, prt = (\<lambda>p. \<lparr>elts = 10, nelts = 1, next_part = None\<rparr>), l_part = 0,
      l_last = 0, nalloc = 4\<rparr>"

lemma rm_header_helper_sole_witness:
  "wp {} (ngx_http_headers_more_rm_header_helper None sole_list 0 0)
    (\<lambda>(rc, l'). rc = NGX_ERROR \<and> 14 \<notin> free_slots sole_list \<and> 14 \<in> free_slots l')"
  by (rule wp_mono [OF rm_header_helper_sole [of sole_list 0 "[]" None]])
    (auto simp: sole_list_def wf_list_def part_addrs_def free_slots_def)

text \<open>
  \<open>ngx_http_headers_more_rm_header\<close> finds a header of the first part, at any place; for any other
  header it removes the first header of the second part instead.
\<close>

lemma rm_header_wrong_part:
  "(i < nelts (prt l (l_part l)) \<longrightarrow>
    ngx_http_headers_more_rm_header new l (elts (prt l (l_part l)) + i) =
    ngx_http_headers_more_rm_header_helper new l (l_part l) i) \<and>
   (h \<notin> set (part_addrs (prt l (l_part l))) \<longrightarrow> next_part (prt l (l_part l)) = Some q \<longrightarrow>
    ngx_http_headers_more_rm_header new l h = ngx_http_headers_more_rm_header_helper new l q 0)"
  by (simp add: rm_header_found rm_header_not_found)

lemma rm_header_wrong_part_witness:
  "ngx_http_headers_more_rm_header None demo_list 21 =
   ngx_http_headers_more_rm_header_helper None demo_list 1 0"
  by (rule rm_header_wrong_part [THEN conjunct2, rule_format]) (simp_all add: demo_list_def part_addrs_def)

end
