(* ===== verification/Headers_Util.thy ===== *)
theory Headers_Util
  imports Headers_List
begin

text \<open>
  The data of the headers_more module and what its directives share: the command and header records
  of \<open>ngx_http_headers_more_filter_module.h\<close>, and the parsers of
  \<open>ngx_http_headers_more_util.c\<close> for a header argument, a list of status codes, a list of types.
  The parsers work on cursors over the text of an argument; they are shown to compute the words of
  the text, the key and the value.
\<close>

section \<open>Data\<close>

datatype ngx_http_headers_more_opcode_t =
    ngx_http_headers_more_opcode_set
  | ngx_http_headers_more_opcode_clear

text \<open>
  The function that sets a header: those of \<open>headers_out.c\<close> and those of \<open>headers_in.c\<close>, which have
  the same names there.
\<close>

datatype ngx_http_headers_more_set_header_pt =
    out_set_header
  | out_set_builtin_header
  | out_set_accept_ranges_header
  | out_set_content_length_header
  | out_set_content_type_header
  | out_set_builtin_multi_header
  | in_set_header
  | in_set_builtin_header
  | in_set_host_header
  | in_set_content_length_header

text \<open>
  \<open>offsetof\<close> of a field in the headers of a request: the pointer to a header that nginx knows of.
  \<open>no_offset\<close> is the number 0.
\<close>

datatype header_offset =
    no_offset
  | out_server | out_date | out_content_encoding | out_location | out_refresh
  | out_last_modified | out_content_range | out_accept_ranges | out_www_authenticate
  | out_expires | out_etag | out_content_length | out_cache_control
  | in_accept_encoding | in_host | in_connection | in_if_modified_since | in_user_agent
  | in_referer | in_content_type | in_range | in_if_range | in_transfer_encoding | in_expect
  | in_authorization | in_keep_alive | in_content_length

record ngx_http_headers_more_set_header_t =
  sh_name :: string
  sh_offset :: header_offset
  sh_handler :: "ngx_http_headers_more_set_header_pt option"

text \<open>\<open>'v\<close> is a compiled value, an \<open>ngx_http_complex_value_t\<close> of nginx.\<close>

record 'v ngx_http_headers_more_header_val_t =
  hv_value :: 'v
  hv_hash :: nat
  hv_key :: string
  hv_handler :: "ngx_http_headers_more_set_header_pt option"
  hv_offset :: header_offset
  hv_replace :: bool
  hv_wildcard :: bool

text \<open>The arrays of a command; \<open>None\<close> is a null pointer.\<close>

record 'v ngx_http_headers_more_cmd_t =
  cmd_types :: "string list option"
  cmd_statuses :: "64 word list option"
  cmd_headers :: "'v ngx_http_headers_more_header_val_t list option"
  is_input :: bool

section \<open>The parsers\<close>

text \<open>
  The loop of \<open>ngx_http_headers_more_parse_header\<close>: \<open>klen\<close> is \<open>key.len\<close>, \<open>vlen\<close> is
  \<open>value.len\<close>, and \<open>vpos\<close> the index \<open>value.data\<close> points to.
\<close>

fun header_loop :: "nat \<Rightarrow> string \<Rightarrow> nat \<times> bool \<times> nat \<times> nat \<Rightarrow> nat \<times> bool \<times> nat \<times> nat" where
  "header_loop i [] s = s"
| "header_loop i (ch # chs) (klen, seen, vpos, vlen) =
     (if klen = 0 then
        (if isspace_c ch then header_loop (Suc i) chs (klen, seen, vpos, vlen)
         else header_loop (Suc i) chs (1, seen, vpos, vlen))
      else if \<not> seen then
        (if ch = CHR '':'' \<or> isspace_c ch then header_loop (Suc i) chs (klen, True, vpos, vlen)
         else header_loop (Suc i) chs (klen + 1, seen, vpos, vlen))
      else if vlen = 0 then
        (if ch = CHR '':'' \<or> isspace_c ch then header_loop (Suc i) chs (klen, seen, vpos, vlen)
         else header_loop (Suc i) chs (klen, seen, i, 1))
      else header_loop (Suc i) chs (klen, seen, vpos, vlen + 1))"

text \<open>The search of the table of handlers, which ends with an entry that has no name.\<close>

fun find_handler ::
  "(string \<Rightarrow> string \<Rightarrow> nat \<Rightarrow> int) \<Rightarrow> ngx_http_headers_more_set_header_t list \<Rightarrow>
   'v ngx_http_headers_more_header_val_t \<Rightarrow> 'v ngx_http_headers_more_header_val_t outcome" where
  "find_handler cmp [] hv = fail OutOfBounds"
| "find_handler cmp (e # es) hv =
     (if length (sh_name e) = 0 then
        (if sh_handler e \<noteq> None
         then ret (hv\<lparr>hv_offset := sh_offset e, hv_handler := sh_handler e\<rparr>) else ret hv)
      else if length (hv_key hv) \<noteq> length (sh_name e) \<or>
              cmp (hv_key hv) (sh_name e) (length (sh_name e)) \<noteq> 0
      then find_handler cmp es hv
      else ret (hv\<lparr>hv_offset := sh_offset e, hv_handler := sh_handler e\<rparr>))"

text \<open>
  \<open>push\<close> and \<open>palloc\<close> tell whether the pool has memory, \<open>hv0\<close> is what the memory of the
  new array element holds, \<open>zeroed\<close> a compiled value of zero bytes, \<open>compile\<close> the
  compiler of values of nginx, \<open>hash_lc\<close> its hash function.
\<close>

definition ngx_http_headers_more_parse_header ::
  "(string \<Rightarrow> string \<Rightarrow> nat \<Rightarrow> int) \<Rightarrow> (string \<Rightarrow> nat) \<Rightarrow> (string \<Rightarrow> 'v option) \<Rightarrow> 'v \<Rightarrow> bool \<Rightarrow> bool \<Rightarrow>
   'v ngx_http_headers_more_header_val_t \<Rightarrow> string \<Rightarrow> 'v ngx_http_headers_more_header_val_t list \<Rightarrow>
   ngx_http_headers_more_opcode_t \<Rightarrow> ngx_http_headers_more_set_header_t list \<Rightarrow>
   (int \<times> 'v ngx_http_headers_more_header_val_t list) outcome" where
  "ngx_http_headers_more_parse_header cmp hash_lc compile zeroed push palloc hv0 raw headers opcode handlers =
     (if \<not> push then ret (NGX_ERROR, headers)
      else
        (let (klen, seen, vpos, vlen) = header_loop 0 raw (0, False, 0, 0); key = take klen raw in
         if klen = 0 then ret (NGX_ERROR, headers @ [hv0])
         else
           (let hv = hv0\<lparr>hv_wildcard := (key ! (klen - 1) = CHR ''*'')\<rparr> in
            if hv_wildcard hv \<and> klen < 2 then ret (NGX_ERROR, headers @ [hv])
            else
              (let hv = hv\<lparr>hv_hash := hash_lc key, hv_key := key, hv_offset := no_offset\<rparr> in
               bindO (find_handler cmp handlers hv) (\<lambda>hv.
                 let vlen = (if opcode = ngx_http_headers_more_opcode_clear then 0 else vlen) in
                 if vlen = 0 then ret (NGX_OK, headers @ [hv\<lparr>hv_value := zeroed\<rparr>])
                 else if \<not> palloc then ret (NGX_ERROR, headers @ [hv])
                 else
                   (case compile (take vlen (drop vpos raw) @ [NUL]) of
                      None \<Rightarrow> ret (NGX_ERROR, headers @ [hv])
                    | Some v \<Rightarrow> ret (NGX_OK, headers @ [hv\<lparr>hv_value := v\<rparr>])))))))"

text \<open>
  \<open>push n\<close> tells whether the array can grow beyond \<open>n\<close> elements. \<open>s\<close>, the pointer to the code
  being read, points to the last element of the array, or is null (\<open>open = False\<close>). Where a
  code does not begin with a digit the new element stays as it was, \<open>new\<close>.
\<close>

fun ngx_http_headers_more_parse_statuses ::
  "(nat \<Rightarrow> bool) \<Rightarrow> 64 word \<Rightarrow> bool \<Rightarrow> string \<Rightarrow> 64 word list \<Rightarrow> int \<times> 64 word list" where
  "ngx_http_headers_more_parse_statuses push new opened [] statuses = (NGX_OK, statuses)"
| "ngx_http_headers_more_parse_statuses push new opened (ch # chs) statuses =
     (if \<not> opened then
        (if isspace_c ch then ngx_http_headers_more_parse_statuses push new opened chs statuses
         else if \<not> push (length statuses) then (NGX_ERROR, statuses)
         else if is_digit ch then
           ngx_http_headers_more_parse_statuses push new True chs (statuses @ [of_nat (digit_of ch)])
         else (NGX_ERROR, statuses @ [new]))
      else if isspace_c ch then ngx_http_headers_more_parse_statuses push new False chs statuses
      else if is_digit ch then
        ngx_http_headers_more_parse_statuses push new opened chs
          (statuses[length statuses - 1 := last statuses * 10 + of_nat (digit_of ch)])
      else (NGX_ERROR, statuses))"

text \<open>The types: the last element of the array grows by the byte under the cursor.\<close>

fun ngx_http_headers_more_parse_types ::
  "(nat \<Rightarrow> bool) \<Rightarrow> bool \<Rightarrow> string \<Rightarrow> string list \<Rightarrow> int \<times> string list" where
  "ngx_http_headers_more_parse_types push opened [] types = (NGX_OK, types)"
| "ngx_http_headers_more_parse_types push opened (ch # chs) types =
     (if \<not> opened then
        (if isspace_c ch then ngx_http_headers_more_parse_types push opened chs types
         else if \<not> push (length types) then (NGX_ERROR, types)
         else ngx_http_headers_more_parse_types push True chs (types @ [[ch]]))
      else if isspace_c ch then ngx_http_headers_more_parse_types push False chs types
      else ngx_http_headers_more_parse_types push opened chs
             (types[length types - 1 := last types @ [ch]]))"

section \<open>Words\<close>

text \<open>The words of a text, separated by white space.\<close>

function c_words :: "string \<Rightarrow> string list" where
  "c_words s =
     (case dropWhile isspace_c s of
        [] \<Rightarrow> []
      | ch # chs \<Rightarrow>
          (ch # takeWhile (\<lambda>c. \<not> isspace_c c) chs) # c_words (dropWhile (\<lambda>c. \<not> isspace_c c) chs))"
  by pat_completeness auto
termination
proof (relation "measure length", goal_cases)
  case (2 s ch chs)
  have "length (dropWhile (\<lambda>c. \<not> isspace_c c) chs) \<le> length chs" by (rule length_dropWhile_le)
  also have "length chs < length (dropWhile isspace_c s)" using 2 by simp
  also have "\<dots> \<le> length s" by (rule length_dropWhile_le)
  finally show ?case by simp
qed simp

declare c_words.simps [simp del]

lemma c_words_simps [simp]:
  "c_words [] = []"
  "isspace_c ch \<Longrightarrow> c_words (ch # chs) = c_words chs"
  "\<not> isspace_c ch \<Longrightarrow> c_words (ch # chs) =
    (ch # takeWhile (\<lambda>c. \<not> isspace_c c) chs) # c_words (dropWhile (\<lambda>c. \<not> isspace_c c) chs)"
  by (subst c_words.simps, simp)
    (subst c_words.simps, subst (2) c_words.simps, simp, subst c_words.simps, simp)

section \<open>The parsers compute words\<close>

lemma parse_types_opened:
  "ngx_http_headers_more_parse_types push True chs (ts @ [w]) =
   ngx_http_headers_more_parse_types push False (dropWhile (\<lambda>c. \<not> isspace_c c) chs)
     (ts @ [w @ takeWhile (\<lambda>c. \<not> isspace_c c) chs])"
  by (induction chs arbitrary: w) simp_all

lemma parse_types_words:
  assumes "\<And>n. n < length ts + length (c_words s) \<Longrightarrow> push n"
  shows "ngx_http_headers_more_parse_types push False s ts = (NGX_OK, ts @ c_words s)"
  using assms
proof (induction s arbitrary: ts rule: length_induct)
  case (1 s)
  show ?case
  proof (cases s)
    case (Cons ch chs)
    show ?thesis
    proof (cases "isspace_c ch")
      case False
      have "length (dropWhile (\<lambda>c. \<not> isspace_c c) chs) < length s"
        using Cons by (simp add: length_dropWhile_le le_imp_less_Suc)
      then show ?thesis
        using 1 Cons False by (simp add: parse_types_opened [of _ _ ts "[ch]", simplified])
    qed (use 1 Cons in simp)
  qed simp
qed

definition word_value :: "string \<Rightarrow> 64 word" where
  "word_value w = foldl (\<lambda>n c. n * 10 + of_nat (digit_of c)) 0 w"

lemma parse_statuses_opened:
  "list_all is_digit (takeWhile (\<lambda>c. \<not> isspace_c c) chs) \<Longrightarrow>
   ngx_http_headers_more_parse_statuses push new True chs (ss @ [n]) =
   ngx_http_headers_more_parse_statuses push new False (dropWhile (\<lambda>c. \<not> isspace_c c) chs)
     (ss @ [foldl (\<lambda>n c. n * 10 + of_nat (digit_of c)) n (takeWhile (\<lambda>c. \<not> isspace_c c) chs)])"
  by (induction chs arbitrary: n) (simp_all split: if_splits)

lemma parse_statuses_opened_bad:
  "\<not> list_all is_digit (takeWhile (\<lambda>c. \<not> isspace_c c) chs) \<Longrightarrow>
   fst (ngx_http_headers_more_parse_statuses push new True chs ss) = NGX_ERROR"
  by (induction chs arbitrary: ss) (simp_all split: if_splits)

lemma parse_statuses_words:
  assumes "\<And>n. n < length ss + length (c_words s) \<Longrightarrow> push n" "list_all (list_all is_digit) (c_words s)"
  shows "ngx_http_headers_more_parse_statuses push new False s ss =
    (NGX_OK, ss @ map word_value (c_words s))"
  using assms
proof (induction s arbitrary: ss rule: length_induct)
  case (1 s)
  show ?case
  proof (cases s)
    case (Cons ch chs)
    show ?thesis
    proof (cases "isspace_c ch")
      case False
      have "length (dropWhile (\<lambda>c. \<not> isspace_c c) chs) < length s"
        using Cons by (simp add: length_dropWhile_le le_imp_less_Suc)
      then show ?thesis
        using 1 Cons False
        by (simp add: parse_statuses_opened [of _ _ _ ss, simplified] word_value_def)
    qed (use 1 Cons in simp)
  qed simp
qed

lemma parse_statuses_bad:
  assumes "\<not> list_all (list_all is_digit) (c_words s)"
  shows "fst (ngx_http_headers_more_parse_statuses push new False s ss) = NGX_ERROR"
  using assms
proof (induction s arbitrary: ss rule: length_induct)
  case (1 s)
  show ?case
  proof (cases s)
    case (Cons ch chs)
    show ?thesis
    proof (cases "isspace_c ch")
      case False
      have len: "length (dropWhile (\<lambda>c. \<not> isspace_c c) chs) < length s"
        using Cons by (simp add: length_dropWhile_le le_imp_less_Suc)
      show ?thesis
      proof (cases "list_all is_digit (takeWhile (\<lambda>c. \<not> isspace_c c) chs)")
        case True
        then show ?thesis
          using 1 Cons False len
          by (simp add: parse_statuses_opened [of _ _ _ ss, simplified])
      next
        case bad: False
        then show ?thesis
          using Cons False by (simp add: parse_statuses_opened_bad)
      qed
    qed (use 1 Cons in simp)
  qed (use 1 in simp)
qed

section \<open>Key and value\<close>

definition is_sep :: "char \<Rightarrow> bool" where
  "is_sep ch = (ch = CHR '':'' \<or> isspace_c ch)"

text \<open>The loop, phase by phase: inside the value, before it, inside the key, before it.\<close>

lemma header_loop_value:
  "0 < k \<Longrightarrow> 0 < n \<Longrightarrow> header_loop i chs (k, True, v, n) = (k, True, v, n + length chs)"
  by (induction chs arbitrary: i n) simp_all

lemma header_loop_gap:
  "0 < k \<Longrightarrow> header_loop i chs (k, True, v, 0) =
    (if dropWhile is_sep chs = [] then (k, True, v, 0)
     else (k, True, i + length (takeWhile is_sep chs), length (dropWhile is_sep chs)))"
  by (induction chs arbitrary: i) (auto simp: is_sep_def header_loop_value)

lemma header_loop_key_step:
  "0 < k \<Longrightarrow> header_loop i (ch # chs) (k, False, v, 0) =
    (if is_sep ch then header_loop (Suc i) chs (k, True, v, 0)
     else header_loop (Suc i) chs (Suc k, False, v, 0))"
  by (simp add: is_sep_def)

lemma header_loop_key:
  "0 < k \<Longrightarrow> header_loop i chs (k, False, v, 0) =
    (case dropWhile (\<lambda>c. \<not> is_sep c) chs of
       [] \<Rightarrow> (k + length chs, False, v, 0)
     | c # rest \<Rightarrow>
         header_loop (Suc i + length (takeWhile (\<lambda>c. \<not> is_sep c) chs)) rest
           (k + length (takeWhile (\<lambda>c. \<not> is_sep c) chs), True, v, 0))"
proof (induction chs arbitrary: i k)
  case (Cons ch chs)
  then show ?case
    by (cases "dropWhile (\<lambda>c. \<not> is_sep c) chs")
      (simp_all add: header_loop_key_step del: header_loop.simps dropWhile_eq_Nil_conv)
qed simp

lemma header_loop_spaces:
  "list_all isspace_c sps \<Longrightarrow>
   header_loop i (sps @ chs) (0, False, v, 0) = header_loop (i + length sps) chs (0, False, v, 0)"
  by (induction sps arbitrary: i) simp_all

text \<open>An argument of the form: white space, a key, separators, a value.\<close>

lemma header_loop_parts:
  assumes "list_all isspace_c sps" "k \<noteq> []" "\<not> isspace_c (hd k)" "list_all (\<lambda>c. \<not> is_sep c) (tl k)"
    "seps \<noteq> []" "list_all is_sep seps" "v = [] \<or> \<not> is_sep (hd v)"
  shows "header_loop 0 (sps @ k @ seps @ v) (0, False, 0, 0) =
    (length k, True, if v = [] then 0 else length sps + length k + length seps, length v)"
proof -
  obtain c ks where k: "k = c # ks" using assms(2) by (cases k) auto
  obtain d ds where seps: "seps = d # ds" using assms(5) by (cases seps) auto
  have ks: "takeWhile (\<lambda>c. \<not> is_sep c) (ks @ d # ds @ v) = ks"
    "dropWhile (\<lambda>c. \<not> is_sep c) (ks @ d # ds @ v) = d # ds @ v"
    using assms(4,6) k seps by (auto simp: list_all_iff takeWhile_append2 dropWhile_append2)
  have ds: "dropWhile is_sep (ds @ v) = v" "takeWhile is_sep (ds @ v) = ds"
    using assms(6,7) seps by (cases v; auto simp: list_all_iff takeWhile_append2 dropWhile_append2)+
  have gap: "header_loop i (ds @ v) (n, True, 0, 0) =
    (if v = [] then (n, True, 0, 0) else (n, True, i + length ds, length v))" if "0 < n" for i n
    using header_loop_gap [OF that, of i "ds @ v" 0] by (simp only: ds)
  show ?thesis
    using assms(1,3) k
    by (simp add: header_loop_spaces seps header_loop_key ks gap)
qed

section \<open>The table\<close>

text \<open>The entry of a table for a key: the first whose name is the key up to case, or the last entry.\<close>

definition names_ok :: "ngx_http_headers_more_set_header_t list \<Rightarrow> bool" where
  "names_ok es =
     (es \<noteq> [] \<and> sh_name (last es) = [] \<and> sh_handler (last es) \<noteq> None \<and>
      list_all (\<lambda>e. sh_name e \<noteq> [] \<and> NUL \<notin> set (sh_name e)) (butlast es))"

definition entry_for ::
  "ngx_http_headers_more_set_header_t list \<Rightarrow> string \<Rightarrow> ngx_http_headers_more_set_header_t" where
  "entry_for es k =
     (case filter (\<lambda>e. ci_eq k (sh_name e)) (butlast es) of [] \<Rightarrow> last es | e # _ \<Rightarrow> e)"

lemma tolower_nul: "(tolower_c ch = NUL) = (ch = NUL)"
proof
  assume low: "tolower_c ch = NUL"
  show "ch = NUL"
  proof (rule ccontr)
    assume "ch \<noteq> NUL"
    then have "65 \<le> (of_char ch :: nat)" "(of_char ch :: nat) \<le> 90" "char_of (of_char ch + 32 :: nat) = NUL"
      using low by (auto simp: tolower_c_def split: if_splits)
    moreover have "of_char (char_of (of_char ch + 32 :: nat) :: char) = (of_char ch + 32 :: nat) mod 256"
      by (rule of_char_of)
    ultimately show False by simp
  qed
qed (simp add: tolower_c_def)

lemma c_prefix_ci_eq:
  assumes "length k = length m" "NUL \<notin> set m"
  shows "ci_eq (c_prefix (length m) k) (c_prefix (length m) m) = ci_eq k m"
proof (cases "NUL \<in> set k")
  case True
  have "length (takeWhile (\<lambda>ch. ch \<noteq> NUL) k) < length k"
  proof -
    obtain a b where "k = a @ NUL # b" "NUL \<notin> set a" using True by (metis in_set_conv_decomp_first)
    then show ?thesis by (auto simp: takeWhile_append)
  qed
  moreover have "\<not> ci_eq k m"
  proof
    assume "ci_eq k m"
    then have "tolower_c ` set k = tolower_c ` set m" unfolding ci_eq_def by (metis image_set)
    then show False using True assms(2) tolower_nul by (metis imageE imageI)
  qed
  ultimately show ?thesis
    using assms by (auto simp: c_prefix_no_nul c_prefix_def dest: ci_eq_length)
qed (use assms in \<open>simp add: c_prefix_no_nul\<close>)

lemma find_handler_entry:
  assumes "strncasecmp_spec cmp" "names_ok es"
  shows "find_handler cmp es hv =
    ret (hv\<lparr>hv_offset := sh_offset (entry_for es (hv_key hv)),
            hv_handler := sh_handler (entry_for es (hv_key hv))\<rparr>)"
  using assms(2)
proof (induction es)
  case Nil
  then show ?case by (simp add: names_ok_def)
next
  case (Cons e es)
  show ?case
  proof (cases "es = []")
    case True
    then show ?thesis using Cons.prems by (simp add: names_ok_def entry_for_def)
  next
    case False
    have e: "sh_name e \<noteq> []" "NUL \<notin> set (sh_name e)" "names_ok es"
      using Cons.prems False by (simp_all add: names_ok_def)
    have "(length (hv_key hv) \<noteq> length (sh_name e) \<or>
        cmp (hv_key hv) (sh_name e) (length (sh_name e)) \<noteq> 0) = (\<not> ci_eq (hv_key hv) (sh_name e))"
      using assms(1) c_prefix_ci_eq [OF _ e(2), of "hv_key hv"]
      by (auto simp: strncasecmp_spec_def dest: ci_eq_length)
    moreover have "entry_for (e # es) (hv_key hv) =
        (if ci_eq (hv_key hv) (sh_name e) then e else entry_for es (hv_key hv))"
      using False by (simp add: entry_for_def split: list.split)
    ultimately show ?thesis using e Cons.IH by simp
  qed
qed
section \<open>A header argument\<close>

lemma parse_header_parts:
  assumes "strncasecmp_spec cmp" "names_ok table"
    and "list_all isspace_c sps" "k \<noteq> []" "\<not> isspace_c (hd k)" "list_all (\<lambda>c. \<not> is_sep c) (tl k)"
    and "seps \<noteq> []" "list_all is_sep seps" "v = [] \<or> \<not> is_sep (hd v)"
    and "key = take (length k) (sps @ k @ seps @ v)" "last key \<noteq> CHR ''*'' \<or> 2 \<le> length key"
  shows "ngx_http_headers_more_parse_header cmp hash_lc compile zeroed True True hv0 (sps @ k @ seps @ v)
      headers opcode table =
    (let hv = \<lparr>hv_value = hv_value hv0, hv_hash = hash_lc key, hv_key = key,
       hv_handler = sh_handler (entry_for table key), hv_offset = sh_offset (entry_for table key),
       hv_replace = hv_replace hv0, hv_wildcard = (last key = CHR ''*'')\<rparr>
     in if v = [] \<or> opcode = ngx_http_headers_more_opcode_clear
        then ret (NGX_OK, headers @ [hv\<lparr>hv_value := zeroed\<rparr>])
        else case compile (v @ [NUL]) of
          None \<Rightarrow> ret (NGX_ERROR, headers @ [hv])
        | Some c \<Rightarrow> ret (NGX_OK, headers @ [hv\<lparr>hv_value := c\<rparr>]))"
proof -
  have len: "length key = length k" using assms(10) by simp
  then have "key \<noteq> []" using assms(4) by auto
  then have last: "key ! (length k - 1) = last key" using len by (simp add: last_conv_nth)
  have loop: "header_loop 0 (sps @ k @ seps @ v) (0, False, 0, 0) =
    (length k, True, if v = [] then 0 else length sps + length k + length seps, length v)"
    by (rule header_loop_parts) (use assms in auto)
  have "take (length v) (drop (length sps + length k + length seps) (sps @ k @ seps @ v)) = v"
    by simp
  moreover have "\<not> (last key = CHR ''*'' \<and> length k < 2)" using assms(11) len by auto
  ultimately show ?thesis
    unfolding ngx_http_headers_more_parse_header_def loop Let_def prod.case assms(10) [symmetric]
    using assms(4) last
    by (auto simp: find_handler_entry [OF assms(1,2)] split: option.splits)
qed

section \<open>Properties\<close>

text \<open>
  C21: the header argument \<open>key: value\<close>. The key is what stands before the separators, the value
  what stands behind them with a NUL byte, the handler that of the first entry of the table with
  the name of the key up to case, or the last entry.
\<close>

theorem parse_header_argument:
  assumes "strncasecmp_spec cmp" "names_ok table"
    and "k \<noteq> []" "\<not> isspace_c (hd k)" "list_all (\<lambda>c. \<not> is_sep c) (tl k)"
    and "seps \<noteq> []" "list_all is_sep seps" "v \<noteq> []" "\<not> is_sep (hd v)"
    and "last k \<noteq> CHR ''*'' \<or> 2 \<le> length k" "compile (v @ [NUL]) = Some c"
  shows "ngx_http_headers_more_parse_header cmp hash_lc compile zeroed True True hv0 (k @ seps @ v)
      headers ngx_http_headers_more_opcode_set table =
    ret (NGX_OK, headers @
      [\<lparr>hv_value = c, hv_hash = hash_lc k, hv_key = k,
        hv_handler = sh_handler (entry_for table k), hv_offset = sh_offset (entry_for table k),
        hv_replace = hv_replace hv0, hv_wildcard = (last k = CHR ''*'')\<rparr>])"
  using parse_header_parts [OF assms(1,2), of "[]" k seps v k hash_lc compile zeroed hv0 headers
      ngx_http_headers_more_opcode_set] assms(3-11)
  by simp

definition demo_table :: "ngx_http_headers_more_set_header_t list" where
  "demo_table =
     [\<lparr>sh_name = ''Server'', sh_offset = out_server, sh_handler = Some out_set_builtin_header\<rparr>,
      \<lparr>sh_name = [], sh_offset = no_offset, sh_handler = Some out_set_header\<rparr>]"

definition demo_hv :: "string ngx_http_headers_more_header_val_t" where
  "demo_hv =
     \<lparr>hv_value = [], hv_hash = 0, hv_key = [], hv_handler = None, hv_offset = no_offset,
      hv_replace = False, hv_wildcard = False\<rparr>"

lemma demo_seps [simp]:
  "is_sep (CHR '':'')"  "is_sep SP"  "\<not> is_sep (CHR ''v'')"  "isspace_c SP"
  by (simp_all add: is_sep_def isspace_c_def)

theorem parse_header_argument_witness:
  "ngx_http_headers_more_parse_header strncasecmp_at length Some [] True True demo_hv ''SERVER: v x''
     [] ngx_http_headers_more_opcode_set demo_table =
   ret (NGX_OK, [demo_hv\<lparr>hv_value := ''v x'' @ [NUL], hv_hash := 6, hv_key := ''SERVER'',
     hv_handler := Some out_set_builtin_header, hv_offset := out_server\<rparr>])"
proof -
  have entry: "entry_for demo_table ''SERVER'' = hd demo_table"
    by code_simp
  have names: "names_ok demo_table" by (simp add: names_ok_def demo_table_def)
  show ?thesis
    using parse_header_argument [OF strncasecmp_at_spec names, of "''SERVER''" "'': ''" "''v x''" Some
        "''v x'' @ [NUL]" length "[]" demo_hv "[]"] entry
    by (simp add: is_sep_def isspace_c_def demo_table_def demo_hv_def)
qed

text \<open>
  White space before the key of a header argument shifts the key. As many bytes are taken as the
  key has, but from the start of the argument, so the key begins with the white space and lacks
  its last bytes.
\<close>

lemma parse_header_leading_space:
  assumes "strncasecmp_spec cmp" "names_ok table" "list_all isspace_c sps" "sps \<noteq> []"
    and "k \<noteq> []" "\<not> isspace_c (hd k)" "list_all (\<lambda>c. \<not> is_sep c) (tl k)"
    and "seps \<noteq> []" "list_all is_sep seps" "last (take (length k) (sps @ k)) \<noteq> CHR ''*''"
  shows "wp {} (ngx_http_headers_more_parse_header cmp hash_lc compile zeroed True True hv0 (sps @ k @ seps)
      headers opcode table)
    (\<lambda>(rc, headers'). rc = NGX_OK \<and> hv_key (last headers') = take (length k) (sps @ k) \<and>
      hv_key (last headers') \<noteq> k)"
proof -
  define key where "key = take (length k) (sps @ k)"
  have "key \<noteq> k"
  proof
    assume "key = k"
    moreover have "hd key = hd sps" using assms(4,5) by (simp add: key_def hd_take)
    ultimately show False using assms(3,4,6) by (cases sps) auto
  qed
  have k': "key = take (length k) (sps @ k @ seps @ [])" by (simp add: key_def)
  have star: "last key \<noteq> CHR ''*'' \<or> 2 \<le> length key" using assms(10) by (simp add: key_def)
  show ?thesis
    using parse_header_parts [OF assms(1-3,5-9) _ k' star, of hash_lc compile zeroed] \<open>key \<noteq> k\<close>
    unfolding key_def [symmetric] by (simp add: Let_def)
qed

lemma parse_header_leading_space_witness:
  "wp {} (ngx_http_headers_more_parse_header strncasecmp_at length Some [] True True demo_hv '' Foo:''
      [] ngx_http_headers_more_opcode_clear demo_table)
    (\<lambda>(rc, hs). rc = NGX_OK \<and> hv_key (last hs) = '' Fo'')"
proof -
  have names: "names_ok demo_table" by (simp add: names_ok_def demo_table_def)
  show ?thesis
    using parse_header_leading_space [OF strncasecmp_at_spec names, of "'' ''" "''Foo''" "'':''" length
        Some "[]" demo_hv "[]" ngx_http_headers_more_opcode_clear]
    by (auto simp: is_sep_def isspace_c_def elim: wp_mono)
qed

text \<open>
  A list of status codes. It is accepted exactly when every word of the text is made of digits,
  and then gives the numbers the words denote, modulo the width of an unsigned integer.
\<close>

lemma parse_statuses_correct:
  assumes "\<And>n. push n"
  shows "(fst (ngx_http_headers_more_parse_statuses push new False s ss) = NGX_OK) =
      list_all (list_all is_digit) (c_words s) \<and>
    (list_all (list_all is_digit) (c_words s) \<longrightarrow>
      snd (ngx_http_headers_more_parse_statuses push new False s ss) = ss @ map word_value (c_words s))"
  using parse_statuses_words [of ss s push new] parse_statuses_bad [of s push new ss] assms by fastforce

lemma parse_statuses_correct_witness:
  "snd (ngx_http_headers_more_parse_statuses (\<lambda>_. True) 0 False '' 200  404'' []) = [200, 404]"
proof -
  have "c_words '' 200  404'' = [''200'', ''404'']" by (simp add: isspace_c_def)
  moreover have "list_all (list_all is_digit) [''200'', ''404'']" by (simp add: is_digit_def)
  moreover have "map word_value [''200'', ''404''] = [200, 404]"
    by (simp add: word_value_def digit_of_def)
  ultimately show ?thesis
    using parse_statuses_correct [of "\<lambda>_. True" 0 "'' 200  404''" "[]"] by simp
qed

lemma digit_char:
  assumes "n < 10"
  shows "is_digit (char_of (48 + n))" "digit_of (char_of (48 + n)) = n" "\<not> isspace_c (char_of (48 + n))"
proof -
  have "(of_char (char_of (48 + n :: nat) :: char) :: nat) = 48 + n" using assms by simp
  then show "is_digit (char_of (48 + n))" "digit_of (char_of (48 + n)) = n" "\<not> isspace_c (char_of (48 + n))"
    using assms by (simp_all add: is_digit_def digit_of_def isspace_c_def)
qed

lemma show_dec_value: "word_value (show_dec n) = of_nat n"
proof (induction n rule: show_dec.induct)
  case (1 n)
  show ?case
  proof (cases "n < 10")
    case True
    then show ?thesis by (simp add: show_dec.simps [of n] word_value_def digit_char)
  next
    case False
    have "(of_nat n :: 64 word) = of_nat (n div 10 * 10 + n mod 10)" by simp
    also have "\<dots> = of_nat (n div 10) * 10 + of_nat (n mod 10)"
      by (simp only: of_nat_add of_nat_mult of_nat_numeral)
    finally show ?thesis
      using 1 False by (simp add: show_dec.simps [of n] word_value_def digit_char)
  qed
qed

lemma show_dec_digits: "list_all is_digit (show_dec n) \<and> list_all (\<lambda>c. \<not> isspace_c c) (show_dec n) \<and> show_dec n \<noteq> []"
  by (induction n rule: show_dec.induct)
    (subst show_dec.simps, subst (2) show_dec.simps, subst (3) show_dec.simps, simp add: digit_char)

lemma c_words_cons:
  assumes "list_all (\<lambda>c. \<not> isspace_c c) w" "w \<noteq> []" "t = [] \<or> isspace_c (hd t)"
  shows "c_words (w @ t) = w # c_words t"
proof -
  obtain ch chs where w: "w = ch # chs" using assms(2) by (cases w) auto
  have "takeWhile (\<lambda>c. \<not> isspace_c c) (chs @ t) = chs" "dropWhile (\<lambda>c. \<not> isspace_c c) (chs @ t) = t"
    using assms(1,3) w by (cases t; auto simp: list_all_iff takeWhile_append2 dropWhile_append2)+
  then show ?thesis using assms(1) w by simp
qed

definition show_statuses :: "64 word list \<Rightarrow> string" where
  "show_statuses ws = concat (map (\<lambda>w. show_dec (unat w) @ [SP]) ws)"

lemma show_statuses_words: "c_words (show_statuses ws) = map (\<lambda>w. show_dec (unat w)) ws"
proof (induction ws)
  case (Cons w ws)
  have "c_words (show_dec (unat w) @ SP # show_statuses ws) = show_dec (unat w) # c_words (SP # show_statuses ws)"
    by (rule c_words_cons) (use show_dec_digits in \<open>auto simp: isspace_c_def\<close>)
  then show ?case using Cons by (simp add: show_statuses_def isspace_c_def)
qed (simp add: show_statuses_def)

text \<open>
  C31: a printed list of status codes is read back.
\<close>

theorem parse_statuses_roundtrip:
  "ngx_http_headers_more_parse_statuses (\<lambda>_. True) new False (show_statuses ws) [] = (NGX_OK, ws)"
proof -
  have "list_all (list_all is_digit) (c_words (show_statuses ws))"
    using show_dec_digits by (simp add: show_statuses_words list_all_iff)
  then have "ngx_http_headers_more_parse_statuses (\<lambda>_. True) new False (show_statuses ws) [] =
      (NGX_OK, map word_value (c_words (show_statuses ws)))"
    by (subst parse_statuses_words) simp_all
  then show ?thesis by (simp add: show_statuses_words comp_def show_dec_value)
qed

text \<open>
  With memory for its words a list of types is split into them.
\<close>

lemma parse_types_correct:
  assumes "\<And>n. n < length ts + length (c_words s) \<Longrightarrow> push n"
  shows "ngx_http_headers_more_parse_types push False s ts = (NGX_OK, ts @ c_words s)"
  by (rule parse_types_words [OF assms])

lemma parse_types_correct_witness:
  "ngx_http_headers_more_parse_types (\<lambda>n. n < 2) False ''text/css  text/html'' [] =
   (NGX_OK, [''text/css'', ''text/html''])"
proof -
  have "c_words ''text/css  text/html'' = [''text/css'', ''text/html'']" by (simp add: isspace_c_def)
  then show ?thesis using parse_types_correct [of "[]" "''text/css  text/html''" "\<lambda>n. n < 2"] by simp
qed

end
