(* ===== verification/Headers_Out.thy ===== *)
theory Headers_Out
  imports Headers_Util
begin

text \<open>
  The directives \<open>more_set_headers\<close> and \<open>more_clear_headers\<close>:
  \<open>src/modules/mod_headers_more/src/ngx_http_headers_more_headers_out.c\<close>. At configuration time the
  arguments become a command; when a response is sent, the command is executed on the headers of
  the response. The functions of nginx that are called are fields of a record of parameters.
\<close>

section \<open>The headers of a response\<close>

text \<open>
  \<open>out_builtin\<close> are the pointers to headers nginx knows of, one for each offset;
  \<open>out_cache_control\<close> is an array of pointers, \<open>None\<close> before its memory is allocated, and an
  entry that was pushed but never set is \<open>None\<close>. The charset is a pointer into a value, seen as
  the bytes from there on, and a length. \<open>allow_ranges\<close> is a flag of the request.
\<close>

record ngx_http_headers_out =
  out_headers :: ngx_list
  out_status :: "64 word"
  out_builtin :: "header_offset \<Rightarrow> nat option"
  out_cache_controls :: "nat option list option"
  out_content_length_n :: int
  out_content_type :: string
  out_content_type_len :: nat
  out_content_type_hash :: nat
  out_content_type_lowcase :: "string option"
  out_charset_len :: "64 word"
  out_charset_data :: string
  allow_ranges :: bool

text \<open>
  What is called of nginx. The allocators say whether there is memory; a list grows by the element
  at a new address, or not.
\<close>

record ngx_header_funs =
  ngx_strncasecmp :: "string \<Rightarrow> string \<Rightarrow> nat \<Rightarrow> int"
  ngx_list_push :: "ngx_list \<Rightarrow> (nat \<times> ngx_list) option"
  ngx_palloc_part :: "ngx_list \<Rightarrow> nat option"
  ngx_pnalloc :: "nat \<Rightarrow> bool"
  ngx_strlow :: "string \<Rightarrow> string"
  ngx_atosz :: "string \<Rightarrow> int"
  ngx_array_init :: bool
  ngx_array_push :: bool

definition upd_headers :: "(ngx_list \<Rightarrow> ngx_list) \<Rightarrow> ngx_http_headers_out \<Rightarrow> ngx_http_headers_out" where
  "upd_headers f ro = ro\<lparr>out_headers := f (out_headers ro)\<rparr>"

lemma upd_headers_simps [simp]:
  "out_headers (upd_headers f ro) = f (out_headers ro)"  "out_builtin (upd_headers f ro) = out_builtin ro"
  "out_cache_controls (upd_headers f ro) = out_cache_controls ro"
  by (simp_all add: upd_headers_def)

text \<open>\<open>*output_header = h\<close>, where \<open>output_header\<close> is not null.\<close>

definition set_output ::
  "header_offset option \<Rightarrow> nat \<Rightarrow> ngx_http_headers_out \<Rightarrow> ngx_http_headers_out" where
  "set_output output_header a ro =
     (case output_header of
        None \<Rightarrow> ro
      | Some off \<Rightarrow> ro\<lparr>out_builtin := (out_builtin ro)(off := Some a)\<rparr>)"

section \<open>Setting a header\<close>

definition out_matches ::
  "ngx_header_funs \<Rightarrow> 'v ngx_http_headers_more_header_val_t \<Rightarrow> ngx_table_elt \<Rightarrow> bool" where
  "out_matches F hv h =
     (\<not> hv_wildcard hv \<and> length (h_key h) = length (hv_key hv) \<and>
        ngx_strncasecmp F (h_key h) (hv_key hv) (length (h_key h)) = 0 \<or>
      hv_wildcard hv \<and> length (hv_key hv) - 1 \<le> length (h_key h) \<and>
        ngx_strncasecmp F (h_key h) (hv_key hv) (length (hv_key hv) - 1) = 0)"

text \<open>One iteration of the loop over the headers, at the element at address \<open>a\<close>.\<close>

definition out_set_step ::
  "ngx_header_funs \<Rightarrow> 'v ngx_http_headers_more_header_val_t \<Rightarrow> string \<Rightarrow> header_offset option \<Rightarrow> nat \<Rightarrow>
   ngx_http_headers_out \<times> bool \<Rightarrow> ngx_http_headers_out \<times> bool" where
  "out_set_step F hv v output_header a =
     (\<lambda>(ro, matched).
       if out_matches F hv (elt (out_headers ro) a) then
         (set_output output_header a
           (if length v = 0 \<or> matched
            then upd_headers (set_elt a (\<lambda>h. h\<lparr>h_value := [], h_hash := 0\<rparr>)) ro
            else upd_headers (set_elt a (\<lambda>h. h\<lparr>h_value := v, h_hash := hv_hash hv\<rparr>)) ro), True)
       else (ro, matched))"

definition ngx_http_set_header_helper_out ::
  "ngx_header_funs \<Rightarrow> 'v ngx_http_headers_more_header_val_t \<Rightarrow> string \<Rightarrow> header_offset option \<Rightarrow> bool \<Rightarrow>
   ngx_http_headers_out \<Rightarrow> (int \<times> ngx_http_headers_out) outcome" where
  "ngx_http_set_header_helper_out F hv v output_header no_create ro0 =
     bindO
       (list_walk (\<lambda>(ro, matched). out_headers ro)
         (\<lambda>p i s. elt_addr (out_headers (fst s)) p i
           (\<lambda>a. ret (Next (out_set_step F hv v output_header a s))))
         (ro0, False))
       (\<lambda>(ro, matched).
         if matched then ret (NGX_OK, ro)
         else if (hv_wildcard hv \<or> no_create) \<and> length v = 0 then ret (NGX_OK, ro)
         else
           (case ngx_list_push F (out_headers ro) of
              None \<Rightarrow> ret (NGX_HTTP_INTERNAL_SERVER_ERROR, ro)
            | Some (a, l) \<Rightarrow>
                (let l = set_elt a (\<lambda>h. h\<lparr>h_hash := (if length v = 0 then 0 else hv_hash hv),
                                         h_key := hv_key hv, h_value := v\<rparr>) l in
                 if \<not> ngx_pnalloc F (length (hv_key hv))
                 then ret (NGX_HTTP_INTERNAL_SERVER_ERROR,
                        ro\<lparr>out_headers := set_elt a (\<lambda>h. h\<lparr>h_lowcase_key := None\<rparr>) l\<rparr>)
                 else ret (NGX_OK, set_output output_header a
                        (ro\<lparr>out_headers :=
                           set_elt a (\<lambda>h. h\<lparr>h_lowcase_key := Some (ngx_strlow F (hv_key hv))\<rparr>) l\<rparr>)))))"

definition ngx_http_set_header_out ::
  "ngx_header_funs \<Rightarrow> 'v ngx_http_headers_more_header_val_t \<Rightarrow> string \<Rightarrow> ngx_http_headers_out \<Rightarrow>
   (int \<times> ngx_http_headers_out) outcome" where
  "ngx_http_set_header_out F hv v = ngx_http_set_header_helper_out F hv v None False"

definition ngx_http_set_builtin_header_out ::
  "ngx_header_funs \<Rightarrow> 'v ngx_http_headers_more_header_val_t \<Rightarrow> string \<Rightarrow> ngx_http_headers_out \<Rightarrow>
   (int \<times> ngx_http_headers_out) outcome" where
  "ngx_http_set_builtin_header_out F hv v ro =
     (let old = (if hv_offset hv \<noteq> no_offset then Some (hv_offset hv) else None) in
      case (case old of None \<Rightarrow> None | Some off \<Rightarrow> out_builtin ro off) of
        None \<Rightarrow> ngx_http_set_header_helper_out F hv v old False ro
      | Some a \<Rightarrow>
          if length v = 0
          then ret (NGX_OK, upd_headers (set_elt a (\<lambda>h. h\<lparr>h_hash := 0, h_value := v\<rparr>)) ro)
          else ret (NGX_OK, upd_headers (set_elt a
                 (\<lambda>h. h\<lparr>h_hash := hv_hash hv, h_key := hv_key hv, h_value := v\<rparr>)) ro))"

text \<open>
  \<open>Cache-Control\<close> has an array of headers. \<open>ph[i]->hash = 0\<close> follows a pointer of the array.
\<close>

fun clear_pointers :: "nat option list \<Rightarrow> ngx_http_headers_out \<Rightarrow> ngx_http_headers_out outcome" where
  "clear_pointers [] ro = ret ro"
| "clear_pointers (p # ps) ro =
     (case p of
        None \<Rightarrow> fail OutOfBounds
      | Some a \<Rightarrow> clear_pointers ps (upd_headers (set_elt a (\<lambda>h. h\<lparr>h_hash := 0, h_value := []\<rparr>)) ro))"

definition ngx_http_set_builtin_multi_header_out ::
  "ngx_header_funs \<Rightarrow> 'v ngx_http_headers_more_header_val_t \<Rightarrow> string \<Rightarrow> ngx_http_headers_out \<Rightarrow>
   (int \<times> ngx_http_headers_out) outcome" where
  "ngx_http_set_builtin_multi_header_out F hv v ro0 =
     (if out_cache_controls ro0 = None \<and> \<not> ngx_array_init F then ret (NGX_ERROR, ro0)
      else
        (let pa = (case out_cache_controls ro0 of None \<Rightarrow> [] | Some pa \<Rightarrow> pa);
             ro = ro0\<lparr>out_cache_controls := Some pa\<rparr> in
         case pa of
           p # ps \<Rightarrow>
             bindO (clear_pointers ps ro) (\<lambda>ro.
               case p of
                 None \<Rightarrow> fail OutOfBounds
               | Some a \<Rightarrow>
                   ret (NGX_OK, upd_headers (set_elt a
                     (\<lambda>h. h\<lparr>h_value := v, h_hash := (if length v = 0 then 0 else hv_hash hv)\<rparr>)) ro))
         | [] \<Rightarrow>
             if \<not> ngx_array_push F then ret (NGX_ERROR, ro)
             else
               (case ngx_list_push F (out_headers ro) of
                  None \<Rightarrow> ret (NGX_ERROR, ro\<lparr>out_cache_controls := Some [None]\<rparr>)
                | Some (a, l) \<Rightarrow>
                    ret (NGX_OK, ro\<lparr>out_cache_controls := Some [Some a],
                      out_headers := set_elt a
                        (\<lambda>h. h\<lparr>h_value := v, h_hash := hv_hash hv, h_key := ''Cache-Control''\<rparr>) l\<rparr>))))"

text \<open>
  The search for a charset in the content type, from position \<open>p\<close>. A value has a NUL byte behind
  its end, which is read where the text ends in a semicolon and spaces.
\<close>

function charset_loop ::
  "ngx_header_funs \<Rightarrow> string \<Rightarrow> nat \<Rightarrow> ngx_http_headers_out \<Rightarrow> ngx_http_headers_out outcome" where
  "charset_loop F v p ro =
     (if p = length v then ret ro
      else if length v < p then fail OutOfBounds
      else if v ! p \<noteq> CHR '';'' then charset_loop F v (p + 1) ro
      else
        (let q = p + 1 + length (takeWhile (\<lambda>ch. ch = SP) (drop (p + 1) v)) in
         if q = length v then ret ro
         else if ngx_strncasecmp F (drop q v @ [NUL]) ''charset='' 8 \<noteq> 0 then charset_loop F v (q + 1) ro
         else if length v < q + 8 then fail OutOfBounds
         else
           (let ro = ro\<lparr>out_content_type_len := p\<rparr>;
                q = (if (v @ [NUL]) ! (q + 8) = DQ then q + 9 else q + 8);
                lst = (if v ! (length v - 1) = DQ then length v - 1 else length v)
            in ret (ro\<lparr>out_charset_len := word_of_int (int lst - int q),
                       out_charset_data := drop q (v @ [NUL])\<rparr>))))"
  by pat_completeness auto
termination
  by (relation "measure (\<lambda>(F, v, p, ro). Suc (length v) - p)") auto

declare charset_loop.simps [simp del]

definition ngx_http_set_content_type_header_out ::
  "ngx_header_funs \<Rightarrow> 'v ngx_http_headers_more_header_val_t \<Rightarrow> string \<Rightarrow> ngx_http_headers_out \<Rightarrow>
   (int \<times> ngx_http_headers_out) outcome" where
  "ngx_http_set_content_type_header_out F hv v ro =
     bindO (charset_loop F v 0
         (ro\<lparr>out_content_type_len := length v, out_content_type := v,
             out_content_type_hash := hv_hash hv, out_content_type_lowcase := None\<rparr>))
       (ngx_http_set_header_helper_out F hv [] None True)"

definition ngx_http_clear_builtin_header_out ::
  "ngx_header_funs \<Rightarrow> 'v ngx_http_headers_more_header_val_t \<Rightarrow> string \<Rightarrow> ngx_http_headers_out \<Rightarrow>
   (int \<times> ngx_http_headers_out) outcome" where
  "ngx_http_clear_builtin_header_out F hv v = ngx_http_set_builtin_header_out F hv []"

definition ngx_http_clear_content_length_header_out ::
  "ngx_header_funs \<Rightarrow> 'v ngx_http_headers_more_header_val_t \<Rightarrow> string \<Rightarrow> ngx_http_headers_out \<Rightarrow>
   (int \<times> ngx_http_headers_out) outcome" where
  "ngx_http_clear_content_length_header_out F hv v ro =
     ngx_http_clear_builtin_header_out F hv v (ro\<lparr>out_content_length_n := -1\<rparr>)"

definition ngx_http_set_content_length_header_out ::
  "ngx_header_funs \<Rightarrow> 'v ngx_http_headers_more_header_val_t \<Rightarrow> string \<Rightarrow> ngx_http_headers_out \<Rightarrow>
   (int \<times> ngx_http_headers_out) outcome" where
  "ngx_http_set_content_length_header_out F hv v ro =
     (if length v = 0 then ngx_http_clear_content_length_header_out F hv v ro
      else if ngx_atosz F v = NGX_ERROR then ret (NGX_ERROR, ro)
      else ngx_http_set_builtin_header_out F hv v (ro\<lparr>out_content_length_n := ngx_atosz F v\<rparr>))"

definition ngx_http_set_accept_ranges_header_out ::
  "ngx_header_funs \<Rightarrow> 'v ngx_http_headers_more_header_val_t \<Rightarrow> string \<Rightarrow> ngx_http_headers_out \<Rightarrow>
   (int \<times> ngx_http_headers_out) outcome" where
  "ngx_http_set_accept_ranges_header_out F hv v ro =
     ngx_http_set_builtin_header_out F hv v (if length v = 0 then ro\<lparr>allow_ranges := False\<rparr> else ro)"

section \<open>Executing a command\<close>

definition ngx_http_headers_more_set_handlers_out :: "ngx_http_headers_more_set_header_t list" where
  "ngx_http_headers_more_set_handlers_out =
     [\<lparr>sh_name = ''Server'', sh_offset = out_server, sh_handler = Some out_set_builtin_header\<rparr>,
      \<lparr>sh_name = ''Date'', sh_offset = out_date, sh_handler = Some out_set_builtin_header\<rparr>,
      \<lparr>sh_name = ''Content-Encoding'', sh_offset = out_content_encoding, sh_handler = Some out_set_builtin_header\<rparr>,
      \<lparr>sh_name = ''Location'', sh_offset = out_location, sh_handler = Some out_set_builtin_header\<rparr>,
      \<lparr>sh_name = ''Refresh'', sh_offset = out_refresh, sh_handler = Some out_set_builtin_header\<rparr>,
      \<lparr>sh_name = ''Last-Modified'', sh_offset = out_last_modified, sh_handler = Some out_set_builtin_header\<rparr>,
      \<lparr>sh_name = ''Content-Range'', sh_offset = out_content_range, sh_handler = Some out_set_builtin_header\<rparr>,
      \<lparr>sh_name = ''Accept-Ranges'', sh_offset = out_accept_ranges, sh_handler = Some out_set_accept_ranges_header\<rparr>,
      \<lparr>sh_name = ''WWW-Authenticate'', sh_offset = out_www_authenticate, sh_handler = Some out_set_builtin_header\<rparr>,
      \<lparr>sh_name = ''Expires'', sh_offset = out_expires, sh_handler = Some out_set_builtin_header\<rparr>,
      \<lparr>sh_name = ''E-Tag'', sh_offset = out_etag, sh_handler = Some out_set_builtin_header\<rparr>,
      \<lparr>sh_name = ''Content-Length'', sh_offset = out_content_length, sh_handler = Some out_set_content_length_header\<rparr>,
      \<lparr>sh_name = ''Content-Type'', sh_offset = no_offset, sh_handler = Some out_set_content_type_header\<rparr>,
      \<lparr>sh_name = ''Cache-Control'', sh_offset = out_cache_control, sh_handler = Some out_set_builtin_multi_header\<rparr>,
      \<lparr>sh_name = [], sh_offset = no_offset, sh_handler = Some out_set_header\<rparr>]"

text \<open>
  The call through \<open>h[i].handler\<close>. A null pointer, or a handler of the other file, which would read
  the headers of the response as those of a request, is a fault.
\<close>

definition out_handler ::
  "ngx_header_funs \<Rightarrow> 'v ngx_http_headers_more_header_val_t \<Rightarrow> string \<Rightarrow> ngx_http_headers_out \<Rightarrow>
   (int \<times> ngx_http_headers_out) outcome" where
  "out_handler F hv v ro =
     (case hv_handler hv of
        Some out_set_header \<Rightarrow> ngx_http_set_header_out F hv v ro
      | Some out_set_builtin_header \<Rightarrow> ngx_http_set_builtin_header_out F hv v ro
      | Some out_set_accept_ranges_header \<Rightarrow> ngx_http_set_accept_ranges_header_out F hv v ro
      | Some out_set_content_length_header \<Rightarrow> ngx_http_set_content_length_header_out F hv v ro
      | Some out_set_content_type_header \<Rightarrow> ngx_http_set_content_type_header_out F hv v ro
      | Some out_set_builtin_multi_header \<Rightarrow> ngx_http_set_builtin_multi_header_out F hv v ro
      | _ \<Rightarrow> fail OutOfBounds)"

text \<open>Equal lengths, and \<open>strncmp\<close> finds no difference.\<close>

definition ngx_str_same :: "string \<Rightarrow> string \<Rightarrow> bool" where
  "ngx_str_same a b = (length a = length b \<and> c_prefix (length b) a = c_prefix (length b) b)"

definition ngx_http_headers_more_check_type_out :: "ngx_http_headers_out \<Rightarrow> string list \<Rightarrow> bool" where
  "ngx_http_headers_more_check_type_out ro types = list_ex (ngx_str_same (out_content_type ro)) types"

definition ngx_http_headers_more_check_status_out ::
  "ngx_http_headers_out \<Rightarrow> 64 word list \<Rightarrow> bool" where
  "ngx_http_headers_more_check_status_out ro statuses = list_ex (\<lambda>s. out_status ro = s) statuses"

text \<open>
  \<open>eval\<close> is \<open>ngx_http_complex_value\<close>, which computes a value for the request, or fails. Its last
  byte is the NUL that \<open>ngx_http_headers_more_parse_header\<close> has put there.
\<close>

fun exec_headers_out ::
  "ngx_header_funs \<Rightarrow> (ngx_http_headers_out \<Rightarrow> 'v \<Rightarrow> string option) \<Rightarrow>
   'v ngx_http_headers_more_header_val_t list \<Rightarrow> ngx_http_headers_out \<Rightarrow>
   (int \<times> ngx_http_headers_out) outcome" where
  "exec_headers_out F eval [] ro = ret (NGX_OK, ro)"
| "exec_headers_out F eval (h # hs) ro =
     (case eval ro (hv_value h) of
        None \<Rightarrow> ret (NGX_ERROR, ro)
      | Some s \<Rightarrow>
          bindO (out_handler F h (butlast s) ro) (\<lambda>(rc, ro).
            if rc \<noteq> NGX_OK then ret (NGX_ERROR, ro) else exec_headers_out F eval hs ro))"

definition ngx_http_headers_more_exec_cmd ::
  "ngx_header_funs \<Rightarrow> (ngx_http_headers_out \<Rightarrow> 'v \<Rightarrow> string option) \<Rightarrow> 'v ngx_http_headers_more_cmd_t \<Rightarrow>
   ngx_http_headers_out \<Rightarrow> (int \<times> ngx_http_headers_out) outcome" where
  "ngx_http_headers_more_exec_cmd F eval cmd ro =
     (case cmd_headers cmd of
        None \<Rightarrow> ret (NGX_OK, ro)
      | Some hs \<Rightarrow>
          if (case cmd_types cmd of None \<Rightarrow> False
              | Some ts \<Rightarrow> \<not> ngx_http_headers_more_check_type_out ro ts)
          then ret (NGX_OK, ro)
          else if (case cmd_statuses cmd of None \<Rightarrow> False
                   | Some ss \<Rightarrow> \<not> ngx_http_headers_more_check_status_out ro ss)
          then ret (NGX_OK, ro)
          else exec_headers_out F eval hs ro)"

section \<open>The directives\<close>

text \<open>
  What a directive gets from nginx: the compiler of values, the hash, and an allocator whose
  answers are indexed by the place of the call: the array of commands, the arrays of a command,
  the elements of an array by its length. \<open>cf_new_hv\<close> and \<open>cf_new_status\<close> are what the memory of
  new array elements holds. \<open>used\<close> is the flag of the module that the directive sets.
\<close>

record 'v conf_funs =
  cf_strncasecmp :: "string \<Rightarrow> string \<Rightarrow> nat \<Rightarrow> int"
  cf_hash_key_lc :: "string \<Rightarrow> nat"
  cf_compile :: "string \<Rightarrow> 'v option"
  cf_zeroed :: 'v
  cf_create_cmds :: bool
  cf_push_cmd :: bool
  cf_create :: "nat \<Rightarrow> bool"
  cf_push_header :: "nat \<Rightarrow> bool"
  cf_palloc :: "nat \<Rightarrow> bool"
  cf_push_type :: "nat \<Rightarrow> bool"
  cf_push_status :: "nat \<Rightarrow> bool"
  cf_new_hv :: "nat \<Rightarrow> 'v ngx_http_headers_more_header_val_t"
  cf_new_status :: "64 word"

type_synonym 'v cmd_arrays =
  "'v ngx_http_headers_more_header_val_t list \<times> string list \<times> 64 word list"

definition conf_parse_header ::
  "'v conf_funs \<Rightarrow> ngx_http_headers_more_set_header_t list \<Rightarrow> ngx_http_headers_more_opcode_t \<Rightarrow> string \<Rightarrow>
   'v ngx_http_headers_more_header_val_t list \<Rightarrow>
   (int \<times> 'v ngx_http_headers_more_header_val_t list) outcome" where
  "conf_parse_header C handlers opcode raw hs =
     ngx_http_headers_more_parse_header (cf_strncasecmp C) (cf_hash_key_lc C) (cf_compile C) (cf_zeroed C)
       (cf_push_header C (length hs)) (cf_palloc C (length hs)) (cf_new_hv C (length hs)) raw hs opcode handlers"

text \<open>
  The loop over the arguments behind the name of the directive. \<open>None\<close> stands for
  \<open>NGX_CONF_ERROR\<close>, on which nginx gives the configuration up.
\<close>

fun parse_args_out ::
  "'v conf_funs \<Rightarrow> ngx_http_headers_more_opcode_t \<Rightarrow> bool \<Rightarrow> string list \<Rightarrow> 'v cmd_arrays \<Rightarrow>
   'v cmd_arrays option outcome" where
  "parse_args_out C opcode ignore_next_arg [] st = ret (Some st)"
| "parse_args_out C opcode ignore_next_arg (arg # args) (hs, ts, ss) =
     (if ignore_next_arg then parse_args_out C opcode False args (hs, ts, ss)
      else if length arg = 0 then parse_args_out C opcode False args (hs, ts, ss)
      else if arg ! 0 \<noteq> CHR ''-'' then
        bindO (conf_parse_header C ngx_http_headers_more_set_handlers_out opcode arg hs) (\<lambda>(rc, hs).
          if rc \<noteq> NGX_OK then ret None else parse_args_out C opcode False args (hs, ts, ss))
      else if length arg = 2 \<and> arg ! 1 = CHR ''t'' then
        (case args of
           [] \<Rightarrow> ret None
         | nxt # _ \<Rightarrow>
             (let (rc, ts) = ngx_http_headers_more_parse_types (cf_push_type C) False nxt ts in
              if rc \<noteq> NGX_OK then ret None else parse_args_out C opcode True args (hs, ts, ss)))
      else if length arg = 2 \<and> arg ! 1 = CHR ''s'' then
        (case args of
           [] \<Rightarrow> ret None
         | nxt # _ \<Rightarrow>
             (let (rc, ss) = ngx_http_headers_more_parse_statuses (cf_push_status C) (cf_new_status C) False nxt ss in
              if rc \<noteq> NGX_OK then ret None else parse_args_out C opcode True args (hs, ts, ss)))
      else ret None)"

definition or_null :: "'a list \<Rightarrow> 'a list option" where
  "or_null xs = (if length xs = 0 then None else Some xs)"

text \<open>
  \<open>cmds\<close> is the array of commands of the location, or \<open>None\<close>. The result is the array with the new
  command and the flag \<open>ngx_http_headers_more_filter_used\<close>.
\<close>

definition ngx_http_headers_more_parse_directive_out ::
  "'v conf_funs \<Rightarrow> string list \<Rightarrow> ngx_http_headers_more_opcode_t \<Rightarrow>
   'v ngx_http_headers_more_cmd_t list option \<Rightarrow> bool \<Rightarrow>
   ('v ngx_http_headers_more_cmd_t list option \<times> bool) option outcome" where
  "ngx_http_headers_more_parse_directive_out C args opcode cmds used =
     (if cmds = None \<and> \<not> cf_create_cmds C then ret None
      else if \<not> cf_push_cmd C then ret None
      else if \<not> cf_create C 0 \<or> \<not> cf_create C 1 \<or> \<not> cf_create C 2 then ret None
      else
        bindO (parse_args_out C opcode False args ([], [], [])) (\<lambda>r.
          case r of
            None \<Rightarrow> ret None
          | Some (hs, ts, ss) \<Rightarrow>
              ret (Some
                (Some ((case cmds of None \<Rightarrow> [] | Some cs \<Rightarrow> cs) @
                   [\<lparr>cmd_types = or_null ts, cmd_statuses = or_null ss, cmd_headers = or_null hs,
                     is_input = False\<rparr>]),
                 True))))"

definition ngx_http_headers_more_set_headers ::
  "'v conf_funs \<Rightarrow> string list \<Rightarrow> 'v ngx_http_headers_more_cmd_t list option \<Rightarrow> bool \<Rightarrow>
   ('v ngx_http_headers_more_cmd_t list option \<times> bool) option outcome" where
  "ngx_http_headers_more_set_headers C args =
     ngx_http_headers_more_parse_directive_out C args ngx_http_headers_more_opcode_set"

definition ngx_http_headers_more_clear_headers ::
  "'v conf_funs \<Rightarrow> string list \<Rightarrow> 'v ngx_http_headers_more_cmd_t list option \<Rightarrow> bool \<Rightarrow>
   ('v ngx_http_headers_more_cmd_t list option \<times> bool) option outcome" where
  "ngx_http_headers_more_clear_headers C args =
     ngx_http_headers_more_parse_directive_out C args ngx_http_headers_more_opcode_clear"

end
