(* ===== verification/Headers_In.thy ===== *)
theory Headers_In
  imports Headers_Out
begin

text \<open>
  The directives \<open>more_set_input_headers\<close> and \<open>more_clear_input_headers\<close>:
  \<open>src/modules/mod_headers_more/src/ngx_http_headers_more_headers_in.c\<close>. A header of a request is
  cleared by taking it out of the list; a pointer to it that nginx keeps is updated, and for a
  subrequest the headers are copied to the requests above it.
\<close>

section \<open>The headers of a request\<close>

text \<open>
  What a request above the current one keeps: its own first part, and the rest of its
  \<open>headers_in\<close>. All requests of a tree share the memory, which is that of \<open>rq_headers\<close>.
\<close>

record in_frame =
  fr_part :: nat
  fr_last :: nat
  fr_nalloc :: nat
  fr_builtin :: "header_offset \<Rightarrow> nat option"
  fr_server :: string
  fr_content_length_n :: int

text \<open>\<open>rq_parents\<close> are the requests from the parent up to the main request.\<close>

record ngx_http_request_in =
  rq_headers :: ngx_list
  rq_builtin :: "header_offset \<Rightarrow> nat option"
  rq_server :: string
  rq_content_length_n :: int
  rq_parents :: "in_frame list"

definition set_output_in ::
  "header_offset option \<Rightarrow> nat option \<Rightarrow> ngx_http_request_in \<Rightarrow> ngx_http_request_in" where
  "set_output_in output_header a r =
     (case output_header of
        None \<Rightarrow> r
      | Some off \<Rightarrow> r\<lparr>rq_builtin := (rq_builtin r)(off := a)\<rparr>)"

definition upd_headers_in :: "(ngx_list \<Rightarrow> ngx_list) \<Rightarrow> ngx_http_request_in \<Rightarrow> ngx_http_request_in" where
  "upd_headers_in f r = r\<lparr>rq_headers := f (rq_headers r)\<rparr>"

text \<open>
  \<open>r->parent->headers_in = r->headers_in\<close>, from request to request: the structure is copied with its
  first part, the parts behind and the elements are shared.
\<close>

definition copy_frame :: "ngx_http_request_in \<Rightarrow> in_frame \<Rightarrow> in_frame" where
  "copy_frame r fr =
     \<lparr>fr_part = fr_part fr, fr_last = l_last (rq_headers r), fr_nalloc = nalloc (rq_headers r),
      fr_builtin = rq_builtin r, fr_server = rq_server r,
      fr_content_length_n = rq_content_length_n r\<rparr>"

definition copy_to_parents :: "ngx_http_request_in \<Rightarrow> ngx_http_request_in" where
  "copy_to_parents r =
     (let first = prt (rq_headers r) (l_part (rq_headers r)) in
      r\<lparr>rq_headers := fold (\<lambda>fr. set_part (fr_part fr) (\<lambda>_. first)) (rq_parents r) (rq_headers r),
        rq_parents := map (copy_frame r) (rq_parents r)\<rparr>)"

section \<open>Setting a header\<close>

definition in_matches ::
  "ngx_header_funs \<Rightarrow> 'v ngx_http_headers_more_header_val_t \<Rightarrow> ngx_table_elt \<Rightarrow> bool" where
  "in_matches F hv h =
     (length (h_key h) = length (hv_key hv) \<and>
      ngx_strncasecmp F (h_key h) (hv_key hv) (length (h_key h)) = 0)"

text \<open>How the walk over the headers goes on: it walks, or has left by \<open>goto retry\<close> or \<open>return\<close>.\<close>

datatype in_walk = Walking | Retry | Returned

definition in_set_step ::
  "ngx_header_funs \<Rightarrow> 'v ngx_http_headers_more_header_val_t \<Rightarrow> string \<Rightarrow> header_offset option \<Rightarrow>
   nat \<Rightarrow> nat \<Rightarrow> nat \<Rightarrow> ngx_http_request_in \<times> in_walk \<Rightarrow>
   (ngx_http_request_in \<times> in_walk) flow outcome" where
  "in_set_step F hv v output_header p i a =
     (\<lambda>(r, w).
       let set_value = (\<lambda>r. ret (Break
             (set_output_in output_header (Some a)
                (upd_headers_in (set_elt a (\<lambda>h. h\<lparr>h_value := v\<rparr>)) r), Returned)))
       in
         if in_matches F hv (elt (rq_headers r) a) then
           (if length v = 0 then
              (let r = upd_headers_in (set_elt a (\<lambda>h. h\<lparr>h_hash := 0\<rparr>)) r in
               bindO (ngx_http_headers_more_rm_header_helper (ngx_palloc_part F (rq_headers r))
                        (rq_headers r) p i)
                 (\<lambda>(rc, l).
                   let r = r\<lparr>rq_headers := l\<rparr> in
                   if rc = NGX_OK then ret (Break (set_output_in output_header None r, Retry))
                   else set_value r))
            else set_value r)
         else ret (Next (r, w)))"

definition in_walk_headers ::
  "ngx_header_funs \<Rightarrow> 'v ngx_http_headers_more_header_val_t \<Rightarrow> string \<Rightarrow> header_offset option \<Rightarrow>
   ngx_http_request_in \<Rightarrow> (ngx_http_request_in \<times> in_walk) outcome" where
  "in_walk_headers F hv v output_header r =
     list_walk (\<lambda>s. rq_headers (fst s))
       (\<lambda>p i s. elt_addr (rq_headers (fst s)) p i (\<lambda>a. in_set_step F hv v output_header p i a s))
       (r, Walking)"

definition ngx_http_set_header_helper_in ::
  "ngx_header_funs \<Rightarrow> 'v ngx_http_headers_more_header_val_t \<Rightarrow> string \<Rightarrow> header_offset option \<Rightarrow>
   ngx_http_request_in \<Rightarrow> (int \<times> ngx_http_request_in) outcome" where
  "ngx_http_set_header_helper_in F hv v output_header r0 =
     bindO
       (loop (\<lambda>(r, w). w = Retry)
         (\<lambda>(r, w). next_of (in_walk_headers F hv v output_header r)) (r0, Retry))
       (\<lambda>(r, w).
         if w = Returned then ret (NGX_OK, r)
         else if length v = 0 \<or> hv_replace hv then ret (NGX_OK, r)
         else
           (case ngx_list_push F (rq_headers r) of
              None \<Rightarrow> ret (NGX_HTTP_INTERNAL_SERVER_ERROR, r)
            | Some (a, l) \<Rightarrow>
                (let l = set_elt a (\<lambda>h. h\<lparr>h_hash := (if length v = 0 then 0 else hv_hash hv),
                                         h_key := hv_key hv, h_value := v\<rparr>) l in
                 if \<not> ngx_pnalloc F (length (hv_key hv))
                 then ret (NGX_HTTP_INTERNAL_SERVER_ERROR,
                        r\<lparr>rq_headers := set_elt a (\<lambda>h. h\<lparr>h_lowcase_key := None\<rparr>) l\<rparr>)
                 else
                   (let r = r\<lparr>rq_headers :=
                          set_elt a (\<lambda>h. h\<lparr>h_lowcase_key := Some (ngx_strlow F (hv_key hv))\<rparr>) l\<rparr>
                    in case output_header of
                         None \<Rightarrow> ret (NGX_OK, r)
                       | Some off \<Rightarrow>
                           ret (NGX_OK, copy_to_parents (set_output_in output_header (Some a) r))))))"

definition ngx_http_set_header_in ::
  "ngx_header_funs \<Rightarrow> 'v ngx_http_headers_more_header_val_t \<Rightarrow> string \<Rightarrow> ngx_http_request_in \<Rightarrow>
   (int \<times> ngx_http_request_in) outcome" where
  "ngx_http_set_header_in F hv v = ngx_http_set_header_helper_in F hv v None"

definition ngx_http_set_builtin_header_in ::
  "ngx_header_funs \<Rightarrow> 'v ngx_http_headers_more_header_val_t \<Rightarrow> string \<Rightarrow> ngx_http_request_in \<Rightarrow>
   (int \<times> ngx_http_request_in) outcome" where
  "ngx_http_set_builtin_header_in F hv v r =
     (let old = (if hv_offset hv \<noteq> no_offset then Some (hv_offset hv) else None) in
      case (case old of None \<Rightarrow> None | Some off \<Rightarrow> rq_builtin r off) of
        None \<Rightarrow> ngx_http_set_header_helper_in F hv v old r
      | Some a \<Rightarrow>
          if length v = 0
          then ngx_http_set_header_helper_in F hv v old
                 (upd_headers_in (set_elt a (\<lambda>h. h\<lparr>h_hash := 0, h_value := v\<rparr>)) r)
          else ret (NGX_OK, upd_headers_in (set_elt a
                 (\<lambda>h. h\<lparr>h_hash := hv_hash hv, h_value := v\<rparr>)) r))"

definition ngx_http_set_host_header ::
  "ngx_header_funs \<Rightarrow> 'v ngx_http_headers_more_header_val_t \<Rightarrow> string \<Rightarrow> ngx_http_request_in \<Rightarrow>
   (int \<times> ngx_http_request_in) outcome" where
  "ngx_http_set_host_header F hv v r = ngx_http_set_builtin_header_in F hv v (r\<lparr>rq_server := v\<rparr>)"

definition ngx_http_clear_builtin_header_in ::
  "ngx_header_funs \<Rightarrow> 'v ngx_http_headers_more_header_val_t \<Rightarrow> string \<Rightarrow> ngx_http_request_in \<Rightarrow>
   (int \<times> ngx_http_request_in) outcome" where
  "ngx_http_clear_builtin_header_in F hv v = ngx_http_set_builtin_header_in F hv []"

definition ngx_http_clear_content_length_header_in ::
  "ngx_header_funs \<Rightarrow> 'v ngx_http_headers_more_header_val_t \<Rightarrow> string \<Rightarrow> ngx_http_request_in \<Rightarrow>
   (int \<times> ngx_http_request_in) outcome" where
  "ngx_http_clear_content_length_header_in F hv v r =
     ngx_http_clear_builtin_header_in F hv v (r\<lparr>rq_content_length_n := -1\<rparr>)"

definition ngx_http_set_content_length_header_in ::
  "ngx_header_funs \<Rightarrow> 'v ngx_http_headers_more_header_val_t \<Rightarrow> string \<Rightarrow> ngx_http_request_in \<Rightarrow>
   (int \<times> ngx_http_request_in) outcome" where
  "ngx_http_set_content_length_header_in F hv v r =
     (if length v = 0 then ngx_http_clear_content_length_header_in F hv v r
      else if ngx_atosz F v = NGX_ERROR then ret (NGX_ERROR, r)
      else ngx_http_set_builtin_header_in F hv v (r\<lparr>rq_content_length_n := ngx_atosz F v\<rparr>))"

section \<open>Executing a command\<close>

text \<open>\<open>gzip\<close> is the build option \<open>NGX_HTTP_GZIP\<close>.\<close>

definition ngx_http_headers_more_set_handlers_in ::
  "bool \<Rightarrow> ngx_http_headers_more_set_header_t list" where
  "ngx_http_headers_more_set_handlers_in gzip =
     (if gzip then
        [\<lparr>sh_name = ''Accept-Encoding'', sh_offset = in_accept_encoding, sh_handler = Some in_set_builtin_header\<rparr>]
      else []) @
     [\<lparr>sh_name = ''Host'', sh_offset = in_host, sh_handler = Some in_set_host_header\<rparr>,
      \<lparr>sh_name = ''Connection'', sh_offset = in_connection, sh_handler = Some in_set_builtin_header\<rparr>,
      \<lparr>sh_name = ''If-Modified-Since'', sh_offset = in_if_modified_since, sh_handler = Some in_set_builtin_header\<rparr>,
      \<lparr>sh_name = ''User-Agent'', sh_offset = in_user_agent, sh_handler = Some in_set_builtin_header\<rparr>,
      \<lparr>sh_name = ''Referer'', sh_offset = in_referer, sh_handler = Some in_set_builtin_header\<rparr>,
      \<lparr>sh_name = ''Content-Type'', sh_offset = in_content_type, sh_handler = Some in_set_builtin_header\<rparr>,
      \<lparr>sh_name = ''Range'', sh_offset = in_range, sh_handler = Some in_set_builtin_header\<rparr>,
      \<lparr>sh_name = ''If-Range'', sh_offset = in_if_range, sh_handler = Some in_set_builtin_header\<rparr>,
      \<lparr>sh_name = ''Transfer-Encoding'', sh_offset = in_transfer_encoding, sh_handler = Some in_set_builtin_header\<rparr>,
      \<lparr>sh_name = ''Expect'', sh_offset = in_expect, sh_handler = Some in_set_builtin_header\<rparr>,
      \<lparr>sh_name = ''Authorization'', sh_offset = in_authorization, sh_handler = Some in_set_builtin_header\<rparr>,
      \<lparr>sh_name = ''Keep-Alive'', sh_offset = in_keep_alive, sh_handler = Some in_set_builtin_header\<rparr>,
      \<lparr>sh_name = ''Content-Length'', sh_offset = in_content_length, sh_handler = Some in_set_content_length_header\<rparr>,
      \<lparr>sh_name = [], sh_offset = no_offset, sh_handler = Some in_set_header\<rparr>]"

text \<open>The call through \<open>h[i].handler\<close>; a null pointer or a handler of the other file is a fault.\<close>

definition in_handler ::
  "ngx_header_funs \<Rightarrow> 'v ngx_http_headers_more_header_val_t \<Rightarrow> string \<Rightarrow> ngx_http_request_in \<Rightarrow>
   (int \<times> ngx_http_request_in) outcome" where
  "in_handler F hv v r =
     (case hv_handler hv of
        Some in_set_header \<Rightarrow> ngx_http_set_header_in F hv v r
      | Some in_set_builtin_header \<Rightarrow> ngx_http_set_builtin_header_in F hv v r
      | Some in_set_host_header \<Rightarrow> ngx_http_set_host_header F hv v r
      | Some in_set_content_length_header \<Rightarrow> ngx_http_set_content_length_header_in F hv v r
      | _ \<Rightarrow> fail OutOfBounds)"

definition ngx_http_headers_more_check_type_in :: "ngx_http_request_in \<Rightarrow> string list \<Rightarrow> bool" where
  "ngx_http_headers_more_check_type_in r types =
     (case rq_builtin r in_content_type of
        None \<Rightarrow> False
      | Some a \<Rightarrow>
          (let actual_type = h_value (elt (rq_headers r) a) in
           length actual_type \<noteq> 0 \<and> list_ex (ngx_str_same actual_type) types))"

fun exec_headers_in ::
  "ngx_header_funs \<Rightarrow> (ngx_http_request_in \<Rightarrow> 'v \<Rightarrow> string option) \<Rightarrow>
   'v ngx_http_headers_more_header_val_t list \<Rightarrow> ngx_http_request_in \<Rightarrow>
   (int \<times> ngx_http_request_in) outcome" where
  "exec_headers_in F eval [] r = ret (NGX_OK, r)"
| "exec_headers_in F eval (h # hs) r =
     (case eval r (hv_value h) of
        None \<Rightarrow> ret (NGX_ERROR, r)
      | Some s \<Rightarrow>
          bindO (in_handler F h (butlast s) r) (\<lambda>(rc, r).
            if rc \<noteq> NGX_OK then ret (NGX_ERROR, r) else exec_headers_in F eval hs r))"

definition ngx_http_headers_more_exec_input_cmd ::
  "ngx_header_funs \<Rightarrow> (ngx_http_request_in \<Rightarrow> 'v \<Rightarrow> string option) \<Rightarrow> 'v ngx_http_headers_more_cmd_t \<Rightarrow>
   ngx_http_request_in \<Rightarrow> (int \<times> ngx_http_request_in) outcome" where
  "ngx_http_headers_more_exec_input_cmd F eval cmd r =
     (case cmd_headers cmd of
        None \<Rightarrow> ret (NGX_OK, r)
      | Some hs \<Rightarrow>
          if (case cmd_types cmd of None \<Rightarrow> False
              | Some ts \<Rightarrow> \<not> ngx_http_headers_more_check_type_in r ts)
          then ret (NGX_OK, r)
          else exec_headers_in F eval hs r)"

section \<open>The directives\<close>

text \<open>\<open>replace\<close> is the flag that the option \<open>-r\<close> sets.\<close>

fun parse_args_in ::
  "'v conf_funs \<Rightarrow> bool \<Rightarrow> ngx_http_headers_more_opcode_t \<Rightarrow> bool \<Rightarrow> bool \<Rightarrow> string list \<Rightarrow>
   'v ngx_http_headers_more_header_val_t list \<times> string list \<Rightarrow>
   ('v ngx_http_headers_more_header_val_t list \<times> string list \<times> bool) option outcome" where
  "parse_args_in C gzip opcode ignore_next_arg replace [] (hs, ts) = ret (Some (hs, ts, replace))"
| "parse_args_in C gzip opcode ignore_next_arg replace (arg # args) (hs, ts) =
     (if ignore_next_arg then parse_args_in C gzip opcode False replace args (hs, ts)
      else if length arg = 0 then parse_args_in C gzip opcode False replace args (hs, ts)
      else if arg ! 0 \<noteq> CHR ''-'' then
        bindO (conf_parse_header C (ngx_http_headers_more_set_handlers_in gzip) opcode arg hs) (\<lambda>(rc, hs).
          if rc \<noteq> NGX_OK then ret None
          else parse_args_in C gzip opcode False replace args (hs, ts))
      else if length arg = 2 \<and> arg ! 1 = CHR ''t'' then
        (case args of
           [] \<Rightarrow> ret None
         | nxt # _ \<Rightarrow>
             (let (rc, ts) = ngx_http_headers_more_parse_types (cf_push_type C) False nxt ts in
              if rc \<noteq> NGX_OK then ret None
              else parse_args_in C gzip opcode True replace args (hs, ts)))
      else if length arg = 2 \<and> arg ! 1 = CHR ''r'' then
        parse_args_in C gzip opcode False True args (hs, ts)
      else ret None)"

definition ngx_http_headers_more_parse_directive_in ::
  "'v conf_funs \<Rightarrow> bool \<Rightarrow> string list \<Rightarrow> ngx_http_headers_more_opcode_t \<Rightarrow>
   'v ngx_http_headers_more_cmd_t list option \<Rightarrow> bool \<Rightarrow>
   ('v ngx_http_headers_more_cmd_t list option \<times> bool) option outcome" where
  "ngx_http_headers_more_parse_directive_in C gzip args opcode cmds used =
     (if cmds = None \<and> \<not> cf_create_cmds C then ret None
      else if \<not> cf_push_cmd C then ret None
      else if \<not> cf_create C 0 \<or> \<not> cf_create C 1 then ret None
      else
        bindO (parse_args_in C gzip opcode False False args ([], [])) (\<lambda>r.
          case r of
            None \<Rightarrow> ret None
          | Some (hs, ts, replace) \<Rightarrow>
              ret (Some
                (Some ((case cmds of None \<Rightarrow> [] | Some cs \<Rightarrow> cs) @
                   [\<lparr>cmd_types = or_null ts, cmd_statuses = None,
                     cmd_headers = or_null (map (\<lambda>h. h\<lparr>hv_replace := replace\<rparr>) hs),
                     is_input = True\<rparr>]),
                 True))))"

definition ngx_http_headers_more_set_input_headers ::
  "'v conf_funs \<Rightarrow> bool \<Rightarrow> string list \<Rightarrow> 'v ngx_http_headers_more_cmd_t list option \<Rightarrow> bool \<Rightarrow>
   ('v ngx_http_headers_more_cmd_t list option \<times> bool) option outcome" where
  "ngx_http_headers_more_set_input_headers C gzip args =
     ngx_http_headers_more_parse_directive_in C gzip args ngx_http_headers_more_opcode_set"

definition ngx_http_headers_more_clear_input_headers ::
  "'v conf_funs \<Rightarrow> bool \<Rightarrow> string list \<Rightarrow> 'v ngx_http_headers_more_cmd_t list option \<Rightarrow> bool \<Rightarrow>
   ('v ngx_http_headers_more_cmd_t list option \<times> bool) option outcome" where
  "ngx_http_headers_more_clear_input_headers C gzip args =
     ngx_http_headers_more_parse_directive_in C gzip args ngx_http_headers_more_opcode_clear"

end
