(* ===== verification/Headers_Set.thy ===== *)
theory Headers_Set
  imports Headers_Out
begin

text \<open>
  What the functions of \<open>headers_out.c\<close> do to the list of headers: the loop that sets a header is a
  function on the list of elements, every handler keeps the invariant of the headers of a
  response, and no command runs into a fault.
\<close>

section \<open>Assumptions on nginx\<close>

text \<open>
  \<open>ngx_list_push\<close> adds a new element at the end of a well-formed list and touches no other, or it
  fails.
\<close>

definition list_push_spec :: "(ngx_list \<Rightarrow> (nat \<times> ngx_list) option) \<Rightarrow> bool" where
  "list_push_spec push =
     (\<forall>l ps a l'. wf_list l ps \<longrightarrow> push l = Some (a, l') \<longrightarrow>
        (\<exists>ps'. wf_list l' ps' \<and> addrs (prt l') ps' = addrs (prt l) ps @ [a] \<and>
           (\<forall>b \<in> set (addrs (prt l) ps). elt l' b = elt l b)))"

definition funs_ok :: "ngx_header_funs \<Rightarrow> bool" where
  "funs_ok F = (strncasecmp_spec (ngx_strncasecmp F) \<and> list_push_spec (ngx_list_push F))"

text \<open>\<open>ngx_list_push\<close> for a pool that has no room for another part.\<close>

definition list_push_at :: "ngx_list \<Rightarrow> (nat \<times> ngx_list) option" where
  "list_push_at l =
     (let p = prt l (l_last l) in
      if nelts p < nalloc l
      then Some (elts p + nelts p, set_part (l_last l) (\<lambda>p. p\<lparr>nelts := nelts p + 1\<rparr>) l)
      else None)"

lemma list_push_at_spec: "list_push_spec list_push_at"
  unfolding list_push_spec_def
proof (intro allI impI)
  fix l ps a l'
  assume wf: "wf_list l ps" and push: "list_push_at l = Some (a, l')"
  let ?p = "prt l (l_last l)"
  have n: "nelts ?p < nalloc l" and a: "a = elts ?p + nelts ?p"
    and l': "l' = set_part (l_last l) (\<lambda>p. p\<lparr>nelts := nelts p + 1\<rparr>) l"
    using push by (auto simp: list_push_at_def Let_def split: if_splits)
  have "ps \<noteq> []" using wf_list_hd [OF wf] by simp
  then obtain us where ps: "ps = us @ [l_last l]" using wf by (metis append_butlast_last_id wf_list_def)
  have us: "l_last l \<notin> set us" "distinct us" using wf ps by (auto simp: wf_list_def)
  have path: "part_path (prt l') (Some (l_part l)) ps None"
    using wf part_path_cong [of ps "prt l'" "prt l"] by (simp add: wf_list_def l')
  have "addrs (prt l') us = addrs (prt l) us" using us by (auto intro!: addrs_cong simp: l')
  then have ad: "addrs (prt l') ps = addrs (prt l) ps @ [a]"
    by (simp add: ps l' part_addrs_def a)
  have free: "a \<in> free_slots l" "free_slots l' = free_slots l - {a}"
    using n by (auto simp: free_slots_def a l')
  have "wf_list l' ps"
    unfolding wf_list_def ad free(2)
    using wf path free(1) us by (auto simp: wf_list_def ps l' list_all_iff)
  then show "\<exists>ps'. wf_list l' ps' \<and> addrs (prt l') ps' = addrs (prt l) ps @ [a] \<and>
      (\<forall>b \<in> set (addrs (prt l) ps). elt l' b = elt l b)"
    using ad by (auto simp: l')
qed

section \<open>The loop over the headers\<close>

lemma wf_list_cong:
  assumes "prt l' = prt l" "l_part l' = l_part l" "l_last l' = l_last l" "nalloc l' = nalloc l"
  shows "wf_list l' ps = wf_list l ps"
  using assms by (simp add: wf_list_def free_slots_def)

lemma wf_set_elt [simp]: "wf_list (set_elt a f l) ps = wf_list l ps"
  by (rule wf_list_cong) simp_all

text \<open>What the loop makes of the elements: the first match is set, all others are cleared.\<close>

fun set_all :: "(ngx_table_elt \<Rightarrow> bool) \<Rightarrow> string \<Rightarrow> nat \<Rightarrow> bool \<Rightarrow> ngx_table_elt list \<Rightarrow> ngx_table_elt list" where
  "set_all P v hash matched [] = []"
| "set_all P v hash matched (h # hs) =
     (if P h then
        (if v = [] \<or> matched then h\<lparr>h_value := [], h_hash := 0\<rparr> else h\<lparr>h_value := v, h_hash := hash\<rparr>)
          # set_all P v hash True hs
      else h # set_all P v hash matched hs)"

lemma set_output_simps [simp]:
  "out_headers (set_output oh a ro) = out_headers ro"
  "out_cache_controls (set_output oh a ro) = out_cache_controls ro"
  by (simp_all add: set_output_def split: option.splits)

text \<open>The list stays the same but for its elements.\<close>

definition same_list :: "ngx_list \<Rightarrow> ngx_list \<Rightarrow> bool" where
  "same_list l l' =
     (prt l' = prt l \<and> l_part l' = l_part l \<and> l_last l' = l_last l \<and> nalloc l' = nalloc l)"

lemma same_list_simps [simp]:
  "same_list l l"  "same_list l (set_elt a f l') = same_list l l'"
  by (simp_all add: same_list_def)

lemma out_step_cases:
  assumes "out_set_step F hv v oh a (ro, m) = (ro', m')"
  obtains (set) f where "out_matches F hv (elt (out_headers ro) a)" "m'"
      "ro' = set_output oh a (upd_headers (set_elt a f) ro)"
      "f (elt (out_headers ro) a) = hd (set_all (\<lambda>_. True) v (hv_hash hv) m [elt (out_headers ro) a])"
    | (skip) "\<not> out_matches F hv (elt (out_headers ro) a)" "ro' = ro" "m' = m"
  using assms by (auto simp: out_set_step_def split: if_splits)

lemma set_output_builtin:
  "out_builtin (set_output oh a x) off = Some b \<Longrightarrow> b = a \<or> out_builtin x off = Some b"
  by (cases oh) (simp_all add: set_output_def split: if_splits)

lemma out_step_eq:
  assumes "out_set_step F hv v oh a (ro, m) = (ro', m')"
  shows "same_list (out_headers ro) (out_headers ro')"
    and "b \<noteq> a \<Longrightarrow> elt (out_headers ro') b = elt (out_headers ro) b"
    and "[elt (out_headers ro') a] = set_all (out_matches F hv) v (hv_hash hv) m [elt (out_headers ro) a]"
    and "m' = (m \<or> out_matches F hv (elt (out_headers ro) a))"
    and "out_builtin ro' off = Some b' \<Longrightarrow> b' = a \<or> out_builtin ro off = Some b'"
    and "out_cache_controls ro' = out_cache_controls ro"
  using assms by (cases rule: out_step_cases; fastforce dest: set_output_builtin)+

lemma set_all_cons:
  "set_all P v hash m (h # hs) = set_all P v hash m [h] @ set_all P v hash (m \<or> P h) hs"
  by simp

lemma set_all_none: "\<not> list_ex P hs \<Longrightarrow> set_all P v hash False hs = hs"
  by (induction hs) simp_all

lemma out_fold:
  assumes "distinct as" "fold (out_set_step F hv v oh) as (ro, m) = (ro', m')"
  shows "same_list (out_headers ro) (out_headers ro') \<and>
    (\<forall>b. b \<notin> set as \<longrightarrow> elt (out_headers ro') b = elt (out_headers ro) b) \<and>
    map (elt (out_headers ro')) as =
      set_all (out_matches F hv) v (hv_hash hv) m (map (elt (out_headers ro)) as) \<and>
    m' = (m \<or> list_ex (out_matches F hv) (map (elt (out_headers ro)) as)) \<and>
    (\<forall>off b. out_builtin ro' off = Some b \<longrightarrow> b \<in> set as \<or> out_builtin ro off = Some b) \<and>
    out_cache_controls ro' = out_cache_controls ro"
  using assms
proof (induction as arbitrary: ro m)
  case Nil
  then have "ro' = ro" "m' = m" by simp_all
  then show ?case by simp
next
  case (Cons a as)
  obtain ro1 m1 where step: "out_set_step F hv v oh a (ro, m) = (ro1, m1)" by (meson surj_pair)
  have as: "distinct as" "a \<notin> set as" using Cons.prems(1) by simp_all
  have "fold (out_set_step F hv v oh) as (ro1, m1) = (ro', m')" using Cons.prems(2) step by simp
  note IH = Cons.IH [OF as(1) this]
  note IH1 = IH [THEN conjunct1] and IH' = IH [THEN conjunct2]
  note IH2 = IH' [THEN conjunct1] and IH'' = IH' [THEN conjunct2]
  note IH3 = IH'' [THEN conjunct1] and IH4 = IH'' [THEN conjunct2, THEN conjunct1]
    and IH5 = IH'' [THEN conjunct2, THEN conjunct2, THEN conjunct1]
    and IH6 = IH'' [THEN conjunct2, THEN conjunct2, THEN conjunct2]
  note st = out_step_eq [OF step]
  have elts1: "map (elt (out_headers ro1)) as = map (elt (out_headers ro)) as"
    by (intro map_cong refl st(2)) (use as(2) in auto)
  show ?case
  proof (intro conjI)
    show "same_list (out_headers ro) (out_headers ro')"
      using IH1 st(1) unfolding same_list_def by simp
    show "\<forall>b. b \<notin> set (a # as) \<longrightarrow> elt (out_headers ro') b = elt (out_headers ro) b"
      using IH2 st(2) by simp
    have "elt (out_headers ro') a = elt (out_headers ro1) a" by (rule IH2 [rule_format, OF as(2)])
    then have "map (elt (out_headers ro')) (a # as) =
        [elt (out_headers ro1) a] @ map (elt (out_headers ro')) as" by (simp only: list.map append.simps)
    then show "map (elt (out_headers ro')) (a # as) =
        set_all (out_matches F hv) v (hv_hash hv) m (map (elt (out_headers ro)) (a # as))"
      by (simp only: IH3 elts1 st(3,4) list.map set_all_cons [symmetric])
    show "m' = (m \<or> list_ex (out_matches F hv) (map (elt (out_headers ro)) (a # as)))"
      unfolding IH4 elts1 st(4) by simp
    show "\<forall>off b. out_builtin ro' off = Some b \<longrightarrow> b \<in> set (a # as) \<or> out_builtin ro off = Some b"
      using IH5 st(5) by (metis list.set_intros)
    show "out_cache_controls ro' = out_cache_controls ro" unfolding IH6 by (rule st(6))
  qed
qed

section \<open>Setting a header\<close>

text \<open>What setting a header makes of the list of headers.\<close>

definition set_headers_spec ::
  "ngx_header_funs \<Rightarrow> 'v ngx_http_headers_more_header_val_t \<Rightarrow> string \<Rightarrow> bool \<Rightarrow>
   ngx_table_elt list \<Rightarrow> ngx_table_elt list" where
  "set_headers_spec F hv v no_create hs =
     (if list_ex (out_matches F hv) hs then set_all (out_matches F hv) v (hv_hash hv) False hs
      else if (hv_wildcard hv \<or> no_create) \<and> v = [] then hs
      else hs @ [\<lparr>h_hash = (if v = [] then 0 else hv_hash hv), h_key = hv_key hv, h_value = v,
                  h_lowcase_key = Some (ngx_strlow F (hv_key hv))\<rparr>])"

text \<open>
  The invariant of the headers of a response with the parts \<open>ps\<close>: the list is well formed, and
  every pointer that is kept points to an element of it.
\<close>

definition out_inv :: "ngx_http_headers_out \<Rightarrow> nat list \<Rightarrow> bool" where
  "out_inv ro ps =
     (wf_list (out_headers ro) ps \<and>
      (\<forall>off a. out_builtin ro off = Some a \<longrightarrow> a \<in> set (addrs (prt (out_headers ro)) ps)) \<and>
      (\<forall>pa p. out_cache_controls ro = Some pa \<longrightarrow> p \<in> set pa \<longrightarrow>
         (\<exists>a. p = Some a \<and> a \<in> set (addrs (prt (out_headers ro)) ps))))"

lemma out_inv_update:
  assumes "out_inv ro ps" "same_list (out_headers ro) (out_headers ro')"
    and "\<And>off b. out_builtin ro' off = Some b \<Longrightarrow>
      b \<in> set (addrs (prt (out_headers ro)) ps) \<or> out_builtin ro off = Some b"
    and "out_cache_controls ro' = out_cache_controls ro"
  shows "out_inv ro' ps"
proof -
  have p: "prt (out_headers ro') = prt (out_headers ro)" using assms(2) by (simp add: same_list_def)
  have "wf_list (out_headers ro') ps"
    using assms(1,2) wf_list_cong [of "out_headers ro'" "out_headers ro" ps]
    by (simp add: out_inv_def same_list_def)
  moreover have "\<forall>off a. out_builtin ro' off = Some a \<longrightarrow> a \<in> set (addrs (prt (out_headers ro)) ps)"
    using assms(1,3) unfolding out_inv_def by metis
  ultimately show ?thesis
    using assms(1,4) unfolding out_inv_def p by simp
qed

text \<open>Elements may change at will.\<close>

lemma out_inv_set_elt: "out_inv ro ps \<Longrightarrow> out_inv (upd_headers (set_elt a f) ro) ps"
  by (erule out_inv_update) simp_all

text \<open>Fields the invariant does not speak of.\<close>

lemma out_inv_fields [simp]:
  "out_inv (ro\<lparr>out_content_length_n := n\<rparr>) ps = out_inv ro ps"
  "out_inv (ro\<lparr>out_content_type := t\<rparr>) ps = out_inv ro ps"
  "out_inv (ro\<lparr>out_content_type_len := k\<rparr>) ps = out_inv ro ps"
  "out_inv (ro\<lparr>out_content_type_hash := k\<rparr>) ps = out_inv ro ps"
  "out_inv (ro\<lparr>out_content_type_lowcase := lk\<rparr>) ps = out_inv ro ps"
  "out_inv (ro\<lparr>out_charset_len := w\<rparr>) ps = out_inv ro ps"
  "out_inv (ro\<lparr>out_charset_data := d\<rparr>) ps = out_inv ro ps"
  "out_inv (ro\<lparr>allow_ranges := b\<rparr>) ps = out_inv ro ps"
  by (simp_all add: out_inv_def)

lemma out_inv_list: "out_inv ro ps \<Longrightarrow> wf_list (out_headers ro) ps"
  by (simp add: out_inv_def)

text \<open>A header was pushed, and its element written.\<close>

lemma out_inv_push:
  assumes "out_inv ro ps" "wf_list l' ps'" "addrs (prt l') ps' = addrs (prt (out_headers ro)) ps @ [a]"
    and "same_list l' (out_headers ro')"
    and "\<And>off b. out_builtin ro' off = Some b \<Longrightarrow> b = a \<or> out_builtin ro off = Some b"
    and "\<And>pa p. out_cache_controls ro' = Some pa \<Longrightarrow> p \<in> set pa \<Longrightarrow>
      p = Some a \<or> (\<exists>pa. out_cache_controls ro = Some pa \<and> p \<in> set pa)"
  shows "out_inv ro' ps'"
proof -
  have p: "prt (out_headers ro') = prt l'" using assms(4) by (simp add: same_list_def)
  have "wf_list (out_headers ro') ps'"
    using assms(2,4) wf_list_cong [of "out_headers ro'" l' ps'] by (simp add: same_list_def)
  moreover have "\<forall>off b. out_builtin ro' off = Some b \<longrightarrow> b \<in> set (addrs (prt l') ps')"
    using assms(1,3,5) unfolding out_inv_def by fastforce
  moreover have "\<forall>pa p. out_cache_controls ro' = Some pa \<longrightarrow> p \<in> set pa \<longrightarrow>
      (\<exists>b. p = Some b \<and> b \<in> set (addrs (prt l') ps'))"
    using assms(1,3,6) unfolding out_inv_def by fastforce
  ultimately show ?thesis unfolding out_inv_def p by blast
qed

lemma set_header_helper_ok:
  assumes F: "funs_ok F" and inv: "out_inv ro ps"
  shows "wp {} (ngx_http_set_header_helper_out F hv v oh no_create ro)
    (\<lambda>(rc, ro'). \<exists>ps'. out_inv ro' ps' \<and>
      (rc = NGX_OK \<longrightarrow> headers_of (out_headers ro') ps' =
         set_headers_spec F hv v no_create (headers_of (out_headers ro) ps)))"
proof -
  let ?as = "addrs (prt (out_headers ro)) ps" and ?P = "out_matches F hv"
  have wf: "wf_list (out_headers ro) ps" "distinct ?as"
    using inv by (simp_all add: out_inv_def wf_list_def)
  obtain ro1 m where fold: "fold (out_set_step F hv v oh) ?as (ro, False) = (ro1, m)" by (meson surj_pair)
  note f = out_fold [OF wf(2) fold]
  have inv1: "out_inv ro1 ps"
    by (rule out_inv_update [OF inv]) (use f in auto)
  have hs: "headers_of (out_headers ro1) ps =
      set_all ?P v (hv_hash hv) False (headers_of (out_headers ro) ps)"
    and m: "m = list_ex ?P (headers_of (out_headers ro) ps)"
    using f by (simp_all add: headers_of_def same_list_def)
  have "prt (out_headers (fst (out_set_step F hv v oh a s))) = prt (out_headers (fst s))" for a s
  proof -
    obtain r k r' k' where "s = (r, k)" "out_set_step F hv v oh a s = (r', k')" by fastforce
    then show ?thesis using out_step_eq(1) [of F hv v oh a r k r' k'] by (simp add: same_list_def)
  qed
  then have "list_walk (\<lambda>(ro, matched). out_headers ro)
      (\<lambda>p i s. elt_addr (out_headers (fst s)) p i (\<lambda>a. ret (Next (out_set_step F hv v oh a s))))
      (ro, False) = ret (ro1, m)"
    using list_walk_fold [where get = "\<lambda>s. out_headers (fst s)" and s = "(ro, False)"
        and h = "out_set_step F hv v oh", of ps] wf(1) fold
    by (simp add: case_prod_unfold)
  then have walk: "ngx_http_set_header_helper_out F hv v oh no_create ro =
    (if m then ret (NGX_OK, ro1)
     else if (hv_wildcard hv \<or> no_create) \<and> length v = 0 then ret (NGX_OK, ro1)
     else
       (case ngx_list_push F (out_headers ro1) of
          None \<Rightarrow> ret (NGX_HTTP_INTERNAL_SERVER_ERROR, ro1)
        | Some (a, l) \<Rightarrow>
            (let l = set_elt a (\<lambda>h. h\<lparr>h_hash := (if length v = 0 then 0 else hv_hash hv),
                                     h_key := hv_key hv, h_value := v\<rparr>) l in
             if \<not> ngx_pnalloc F (length (hv_key hv))
             then ret (NGX_HTTP_INTERNAL_SERVER_ERROR,
                    ro1\<lparr>out_headers := set_elt a (\<lambda>h. h\<lparr>h_lowcase_key := None\<rparr>) l\<rparr>)
             else ret (NGX_OK, set_output oh a
                    (ro1\<lparr>out_headers :=
                       set_elt a (\<lambda>h. h\<lparr>h_lowcase_key := Some (ngx_strlow F (hv_key hv))\<rparr>) l\<rparr>)))))"
    by (simp add: ngx_http_set_header_helper_out_def)
  show ?thesis
  proof (cases "m \<or> (hv_wildcard hv \<or> no_create) \<and> v = []")
    case True
    have "\<not> m \<Longrightarrow> set_all ?P v (hv_hash hv) False (headers_of (out_headers ro) ps) = headers_of (out_headers ro) ps"
      using m set_all_none by simp
    with True show ?thesis
      using inv1 hs m by (auto simp: walk set_headers_spec_def)
  next
    case False
    show ?thesis
    proof (cases "ngx_list_push F (out_headers ro1)")
      case None
      with False inv1 show ?thesis by (auto simp: walk)
    next
      case (Some al)
      obtain a l where al: "al = (a, l)" by fastforce
      obtain ps' where ps': "wf_list l ps'" "addrs (prt l) ps' = addrs (prt (out_headers ro1)) ps @ [a]"
        "\<forall>b \<in> set (addrs (prt (out_headers ro1)) ps). elt l b = elt (out_headers ro1) b"
        using F Some al out_inv_list [OF inv1] unfolding funs_ok_def list_push_spec_def by blast
      have a: "a \<notin> set (addrs (prt (out_headers ro1)) ps)"
        using ps'(1,2) by (auto simp: wf_list_def)
      define f :: "ngx_table_elt \<Rightarrow> ngx_table_elt" where "f = (\<lambda>h. h\<lparr>h_hash := (if length v = 0 then 0 else hv_hash hv),
        h_key := hv_key hv, h_value := v\<rparr>)"
      have inv2: "out_inv (ro1\<lparr>out_headers := set_elt a g (set_elt a f l)\<rparr>) ps'" for g
        by (rule out_inv_push [OF inv1 ps'(1,2)]) (auto simp: same_list_def)
      have inv3: "out_inv (set_output oh a (ro1\<lparr>out_headers := set_elt a g (set_elt a f l)\<rparr>)) ps'" for g
        by (rule out_inv_push [OF inv1 ps'(1,2)]) (auto simp: same_list_def dest: set_output_builtin)
      let ?l = "set_elt a (\<lambda>h. h\<lparr>h_lowcase_key := Some (ngx_strlow F (hv_key hv))\<rparr>) (set_elt a f l)"
      have "headers_of ?l ps' = headers_of (out_headers ro1) ps @
          [\<lparr>h_hash = (if v = [] then 0 else hv_hash hv), h_key = hv_key hv, h_value = v,
            h_lowcase_key = Some (ngx_strlow F (hv_key hv))\<rparr>]"
        using a ps'(2,3) by (auto simp: headers_of_def f_def)
      then have "headers_of ?l ps' = set_headers_spec F hv v no_create (headers_of (out_headers ro) ps)"
        using hs m False set_all_none by (simp add: set_headers_spec_def)
      moreover have "ngx_http_set_header_helper_out F hv v oh no_create ro =
        (if \<not> ngx_pnalloc F (length (hv_key hv))
         then ret (NGX_HTTP_INTERNAL_SERVER_ERROR,
           ro1\<lparr>out_headers := set_elt a (\<lambda>h. h\<lparr>h_lowcase_key := None\<rparr>) (set_elt a f l)\<rparr>)
         else ret (NGX_OK, set_output oh a (ro1\<lparr>out_headers := ?l\<rparr>)))"
        unfolding walk Some al using False by (auto simp: Let_def f_def)
      ultimately show ?thesis using inv2 inv3 by (cases "ngx_pnalloc F (length (hv_key hv))") auto
    qed
  qed
qed

section \<open>Every handler keeps the invariant\<close>

text \<open>No fault; and where the handler reports success, the invariant holds.\<close>

definition out_safe :: "(int \<times> ngx_http_headers_out) outcome \<Rightarrow> bool" where
  "out_safe m = wp {} m (\<lambda>(rc, ro). rc = NGX_OK \<longrightarrow> (\<exists>ps. out_inv ro ps))"

lemma out_safe_ret [simp]: "out_safe (ret (rc, ro)) = (rc = NGX_OK \<longrightarrow> (\<exists>ps. out_inv ro ps))"
  by (simp add: out_safe_def)

lemma helper_safe:
  assumes "funs_ok F" "out_inv ro ps"
  shows "out_safe (ngx_http_set_header_helper_out F hv v oh no_create ro)"
  unfolding out_safe_def by (rule wp_mono [OF set_header_helper_ok [OF assms]]) auto

lemma set_builtin_safe:
  assumes "funs_ok F" "out_inv ro ps"
  shows "out_safe (ngx_http_set_builtin_header_out F hv v ro)"
  unfolding ngx_http_set_builtin_header_out_def Let_def
  using helper_safe [OF assms] out_inv_set_elt [OF assms(2)]
  by (simp split: option.split) blast

lemma clear_pointers_ok:
  assumes "out_inv ro ps" "None \<notin> set qs"
  shows "\<exists>ro'. clear_pointers qs ro = ret ro' \<and> out_inv ro' ps"
  using assms
proof (induction qs arbitrary: ro)
  case (Cons q qs)
  then obtain a where q: "q = Some a" by (cases q) auto
  have "out_inv (upd_headers (set_elt a (\<lambda>h. h\<lparr>h_hash := 0, h_value := []\<rparr>)) ro) ps"
    by (rule out_inv_set_elt [OF Cons.prems(1)])
  from Cons.IH [OF this] show ?case using Cons.prems(2) q by auto
qed auto

lemma set_multi_safe:
  assumes "funs_ok F" "out_inv ro ps"
  shows "out_safe (ngx_http_set_builtin_multi_header_out F hv v ro)"
proof -
  define pa where "pa = (case out_cache_controls ro of None \<Rightarrow> [] | Some pa \<Rightarrow> pa)"
  let ?ro = "ro\<lparr>out_cache_controls := Some pa\<rparr>"
  have inv: "out_inv ?ro ps" and pa: "None \<notin> set pa"
    using assms(2) by (cases "out_cache_controls ro"; fastforce simp: pa_def out_inv_def)+
  show ?thesis
  proof (cases "out_cache_controls ro = None \<and> \<not> ngx_array_init F")
    case True
    then show ?thesis by (simp add: ngx_http_set_builtin_multi_header_out_def)
  next
    case False
    show ?thesis
    proof (cases pa)
      case (Cons p qs)
      then obtain a ro' where "p = Some a" "clear_pointers qs ?ro = ret ro'" "out_inv ro' ps"
        using clear_pointers_ok [OF inv, of qs] pa by (cases p) auto
      moreover have "\<exists>ps. out_inv (upd_headers (set_elt a f) ro') ps" for f
        using out_inv_set_elt [OF \<open>out_inv ro' ps\<close>] by blast
      ultimately show ?thesis
        using False Cons
        unfolding ngx_http_set_builtin_multi_header_out_def Let_def pa_def [symmetric] by auto
    next
      case Nil
      have "\<exists>ps. out_inv (ro\<lparr>out_cache_controls := Some [Some a], out_headers := set_elt a f l\<rparr>) ps"
        if push: "ngx_list_push F (out_headers ro) = Some (a, l)" for a l f
      proof -
        obtain ps' where ps': "wf_list l ps'" "addrs (prt l) ps' = addrs (prt (out_headers ro)) ps @ [a]"
          using assms(1) push out_inv_list [OF assms(2)] unfolding funs_ok_def list_push_spec_def by blast
        have "out_inv (ro\<lparr>out_cache_controls := Some [Some a], out_headers := set_elt a f l\<rparr>) ps'"
          by (rule out_inv_push [OF assms(2) ps']) auto
        then show ?thesis by blast
      qed
      then show ?thesis
        using False Nil
        unfolding ngx_http_set_builtin_multi_header_out_def Let_def pa_def [symmetric]
        by (auto split: option.split)
    qed
  qed
qed

text \<open>The search for a charset reads no byte behind the NUL.\<close>

lemma charset_match:
  assumes "strncasecmp_spec (ngx_strncasecmp F)" "q \<le> length v"
    "ngx_strncasecmp F (drop q v @ [NUL]) ''charset='' 8 = 0"
  shows "q + 8 \<le> length v"
proof -
  have "ci_eq (c_prefix 8 (drop q v @ [NUL])) (c_prefix 8 ''charset='')"
    using assms(1,3) by (simp add: strncasecmp_spec_def)
  then have "length (c_prefix 8 (drop q v @ [NUL])) = 8"
    by (drule_tac ci_eq_length) (simp add: c_prefix_def)
  then have "8 \<le> length (takeWhile (\<lambda>ch. ch \<noteq> NUL) (drop q v @ [NUL]))" by (simp add: c_prefix_def)
  also have "\<dots> \<le> length (drop q v)"
    by (cases "NUL \<in> set (drop q v)") (simp_all add: takeWhile_append length_takeWhile_le [of _ "drop q v", simplified])
  finally show ?thesis using assms(2) by simp
qed

lemma charset_loop_ok:
  assumes "strncasecmp_spec (ngx_strncasecmp F)" "p \<le> length v" "out_inv ro ps"
  shows "wp {} (charset_loop F v p ro) (\<lambda>ro'. out_inv ro' ps)"
  using assms
proof (induction F v p ro rule: charset_loop.induct)
  case (1 F v p ro)
  let ?q = "p + 1 + length (takeWhile (\<lambda>ch. ch = SP) (drop (p + 1) v))"
  have q: "?q \<le> length v" if "p \<noteq> length v"
  proof -
    have "length (takeWhile (\<lambda>ch. ch = SP) (drop (p + 1) v)) \<le> length (drop (p + 1) v)"
      by (rule length_takeWhile_le)
    then show ?thesis using that 1(4) by simp
  qed
  show ?case
  proof (cases "p = length v")
    case True
    then show ?thesis using 1 by (simp add: charset_loop.simps)
  next
    case False
    show ?thesis
    proof (cases "v ! p = CHR '';''")
      case semi: True
      show ?thesis
      proof (cases "?q = length v \<or> ngx_strncasecmp F (drop ?q v @ [NUL]) ''charset='' 8 = 0")
        case True
        then show ?thesis
          using False semi 1 q charset_match [OF 1(3), of ?q v]
          by (subst charset_loop.simps) (auto simp: Let_def)
      next
        case no: False
        then show ?thesis
          using False semi 1(2) [OF False _ _ refl] 1(3-5) q
          by (subst charset_loop.simps) (auto simp: Let_def)
      qed
    next
      case False': False
      then show ?thesis
        using False 1(1) [OF False] 1(3-5) by (subst charset_loop.simps) auto
    qed
  qed
qed

lemma set_content_type_safe:
  assumes "funs_ok F" "out_inv ro ps"
  shows "out_safe (ngx_http_set_content_type_header_out F hv v ro)"
proof -
  have "wp {} (charset_loop F v 0
         (ro\<lparr>out_content_type_len := length v, out_content_type := v,
             out_content_type_hash := hv_hash hv, out_content_type_lowcase := None\<rparr>))
     (\<lambda>ro'. out_safe (ngx_http_set_header_helper_out F hv [] None True ro'))"
    by (rule wp_mono [OF charset_loop_ok, of _ _ _ _ ps])
      (use assms helper_safe [OF assms(1)] in \<open>simp_all add: funs_ok_def\<close>)
  then show ?thesis
    by (simp add: ngx_http_set_content_type_header_out_def out_safe_def)
qed

lemma out_handler_safe:
  assumes "funs_ok F" "out_inv ro ps"
    and "hv_handler hv \<in> sh_handler ` set ngx_http_headers_more_set_handlers_out"
  shows "out_safe (out_handler F hv v ro)"
  using assms(3) helper_safe [OF assms(1,2)] set_builtin_safe [OF assms(1,2)]
    set_builtin_safe [OF assms(1), of "ro\<lparr>allow_ranges := False\<rparr>" ps]
    set_builtin_safe [OF assms(1), of "ro\<lparr>out_content_length_n := n\<rparr>" ps for n]
    set_multi_safe [OF assms(1,2)] set_content_type_safe [OF assms(1,2)] assms(2)
  by (auto simp: ngx_http_headers_more_set_handlers_out_def out_handler_def ngx_http_set_header_out_def
      ngx_http_set_accept_ranges_header_out_def ngx_http_set_content_length_header_out_def
      ngx_http_clear_content_length_header_out_def ngx_http_clear_builtin_header_out_def)

lemma exec_headers_out_safe:
  assumes "funs_ok F" "out_inv ro ps"
    and "list_all (\<lambda>hv. hv_handler hv \<in> sh_handler ` set ngx_http_headers_more_set_handlers_out) hs"
  shows "out_safe (exec_headers_out F eval hs ro)"
  using assms(2,3)
proof (induction hs arbitrary: ro ps)
  case Nil
  then show ?case by auto
next
  case (Cons hv hs)
  show ?case
  proof (cases "eval ro (hv_value hv)")
    case (Some s)
    have "out_safe (out_handler F hv (butlast s) ro)"
      using out_handler_safe [OF assms(1) Cons.prems(1), of hv "butlast s"] Cons.prems(2) by simp
    then have "wp {} (out_handler F hv (butlast s) ro)
      (\<lambda>(rc, ro). out_safe (if rc \<noteq> NGX_OK then ret (NGX_ERROR, ro) else exec_headers_out F eval hs ro))"
      unfolding out_safe_def [of "out_handler F hv (butlast s) ro"]
      by (rule wp_mono) (use Cons.IH Cons.prems(2) in \<open>auto split: if_splits\<close>)
    then show ?thesis
      using Some by (simp add: out_safe_def case_prod_unfold)
  qed simp
qed

section \<open>What is sent\<close>

text \<open>nginx sends the headers whose hash is not zero. \<open>named k\<close>: the name is \<open>k\<close> up to case.\<close>

definition sent :: "ngx_table_elt list \<Rightarrow> ngx_table_elt list" where
  "sent hs = filter (\<lambda>h. h_hash h \<noteq> 0) hs"

definition named :: "string \<Rightarrow> ngx_table_elt \<Rightarrow> bool" where
  "named k h = ci_eq (h_key h) k"

lemma out_matches_named:
  assumes "strncasecmp_spec (ngx_strncasecmp F)" "\<not> hv_wildcard hv" "NUL \<notin> set (hv_key hv)"
  shows "out_matches F hv = named (hv_key hv)"
proof (rule ext)
  fix h :: ngx_table_elt
  show "out_matches F hv h = named (hv_key hv) h"
  proof (cases "length (h_key h) = length (hv_key hv)")
    case True
    have "(ngx_strncasecmp F (h_key h) (hv_key hv) (length (h_key h)) = 0) =
      ci_eq (c_prefix (length (h_key h)) (h_key h)) (c_prefix (length (h_key h)) (hv_key hv))"
      using assms(1) True by (simp add: strncasecmp_spec_def)
    then show ?thesis
      using True assms(2) c_prefix_ci_eq [OF True assms(3)] by (simp add: out_matches_def named_def)
  next
    case False
    then show ?thesis using assms(2) by (auto simp: out_matches_def named_def dest: ci_eq_length)
  qed
qed

text \<open>A wildcard \<open>k*\<close> matches the names that begin with \<open>k\<close>.\<close>

lemma out_matches_prefix:
  assumes "strncasecmp_spec (ngx_strncasecmp F)" "hv_wildcard hv" "hv_key hv = k @ ''*''"
    "NUL \<notin> set k" "NUL \<notin> set (h_key h)"
  shows "out_matches F hv h = (\<exists>a b. h_key h = a @ b \<and> ci_eq a k)"
proof -
  have "out_matches F hv h = (length k \<le> length (h_key h) \<and> ci_eq (take (length k) (h_key h)) k)"
    using assms strncasecmp_no_nul [OF assms(1), of "length k" "h_key h" "k @ ''*''"]
    by (auto simp: out_matches_def)
  also have "\<dots> = (\<exists>a b. h_key h = a @ b \<and> ci_eq a k)"
  proof
    assume "length k \<le> length (h_key h) \<and> ci_eq (take (length k) (h_key h)) k"
    then show "\<exists>a b. h_key h = a @ b \<and> ci_eq a k" by (metis append_take_drop_id)
  next
    assume "\<exists>a b. h_key h = a @ b \<and> ci_eq a k"
    then obtain a b where "h_key h = a @ b" "ci_eq a k" by blast
    then show "length k \<le> length (h_key h) \<and> ci_eq (take (length k) (h_key h)) k"
      using ci_eq_length [of a k] by simp
  qed
  finally show ?thesis .
qed

text \<open>A predicate that looks at the name only.\<close>

lemma set_all_others:
  assumes "\<And>h v n. P (h\<lparr>h_value := v, h_hash := n\<rparr>) = P h"
  shows "filter (\<lambda>h. \<not> P h) (set_all P v hash m hs) = filter (\<lambda>h. \<not> P h) hs"
  by (induction hs arbitrary: m) (simp_all add: assms)

lemma set_all_cleared:
  assumes "\<And>h v n. P (h\<lparr>h_value := v, h_hash := n\<rparr>) = P h" "v = [] \<or> m"
  shows "filter P (sent (set_all P v hash m hs)) = []"
  using assms(2) by (induction hs arbitrary: m) (auto simp: sent_def assms(1))

lemma set_all_set:
  assumes "\<And>h v n. P (h\<lparr>h_value := v, h_hash := n\<rparr>) = P h" "v \<noteq> []" "hash \<noteq> 0" "list_ex P hs"
  shows "map h_value (filter P (sent (set_all P v hash False hs))) = [v]"
  using assms(4)
proof (induction hs)
  case (Cons h hs)
  show ?case
  proof (cases "P h")
    case True
    have "filter P (sent (set_all P v hash True hs)) = []"
      by (rule set_all_cleared) (simp_all add: assms(1))
    then show ?thesis using True assms(2,3) by (simp add: sent_def assms(1))
  next
    case False
    then show ?thesis using Cons by (simp add: sent_def)
  qed
qed simp

lemma sent_others:
  assumes "filter (\<lambda>h. \<not> P h) hs = filter (\<lambda>h. \<not> P h) hs'"
  shows "filter (\<lambda>h. \<not> P h) (sent hs) = filter (\<lambda>h. \<not> P h) (sent hs')"
proof -
  have "filter (\<lambda>h. \<not> P h) (sent hs) = filter (\<lambda>h. h_hash h \<noteq> 0) (filter (\<lambda>h. \<not> P h) hs)" for hs
    by (simp add: sent_def conj_commute)
  from this [of hs] this [of hs'] show ?thesis by (simp only: assms)
qed

lemma named_key [simp]: "named k \<lparr>h_hash = n, h_key = k, h_value = v, h_lowcase_key = lk\<rparr>"
  by (simp add: named_def)

lemma sent_append [simp]: "sent (hs @ hs') = sent hs @ sent hs'"
  by (simp add: sent_def)

text \<open>What holds of the specification holds of the code.\<close>

lemma helper_spec:
  assumes "funs_ok F" "out_inv ro ps"
    and "T (set_headers_spec F hv v no_create (headers_of (out_headers ro) ps))"
  shows "wp {} (ngx_http_set_header_helper_out F hv v oh no_create ro)
    (\<lambda>(rc, ro'). rc = NGX_OK \<longrightarrow> (\<exists>ps'. out_inv ro' ps' \<and> T (headers_of (out_headers ro') ps')))"
  by (rule wp_mono [OF set_header_helper_ok [OF assms(1,2)]]) (clarsimp, metis assms(3))

lemma named_value [simp]: "named k (h\<lparr>h_value := v, h_hash := n\<rparr>) = named k h"
  by (simp add: named_def)

section \<open>Properties\<close>

definition demo_funs :: ngx_header_funs where
  "demo_funs =
     \<lparr>ngx_strncasecmp = strncasecmp_at, ngx_list_push = list_push_at, ngx_palloc_part = (\<lambda>_. Some 7),
      ngx_pnalloc = (\<lambda>_. True), ngx_strlow = map tolower_c, ngx_atosz = (\<lambda>s. int (length s)),
      ngx_array_init = True, ngx_array_push = True\<rparr>"

lemma demo_funs_ok: "funs_ok demo_funs"
  by (simp add: funs_ok_def demo_funs_def list_push_at_spec)

text \<open>A response with two headers and room for two more.\<close>

definition demo_out :: ngx_http_headers_out where
  "demo_out =
     \<lparr>out_headers = \<lparr>elt = (\<lambda>a. \<lparr>h_hash = 5, h_key = (if a = 0 then ''X-A'' else ''X-B''), h_value = ''old'',
          h_lowcase_key = None\<rparr>),
        prt = (\<lambda>p. \<lparr>elts = 0, nelts = 2, next_part = None\<rparr>), l_part = 0, l_last = 0, nalloc = 4\<rparr>,
      out_status = 200, out_builtin = (\<lambda>_. None), out_cache_controls = None,
      out_content_length_n = -1, out_content_type = [], out_content_type_len = 0,
      out_content_type_hash = 0, out_content_type_lowcase = None, out_charset_len = 0,
      out_charset_data = [], allow_ranges = True\<rparr>"

lemma demo_out_inv: "out_inv demo_out [0]"
  by (simp add: out_inv_def demo_out_def wf_list_def free_slots_def part_addrs_def)

lemma demo_out_headers:
  "headers_of (out_headers demo_out) [0] =
    [\<lparr>h_hash = 5, h_key = ''X-A'', h_value = ''old'', h_lowcase_key = None\<rparr>,
     \<lparr>h_hash = 5, h_key = ''X-B'', h_value = ''old'', h_lowcase_key = None\<rparr>]"
  by (simp add: headers_of_def demo_out_def part_addrs_def)

definition demo_set :: "string ngx_http_headers_more_header_val_t" where
  "demo_set =
     \<lparr>hv_value = [], hv_hash = 9, hv_key = ''X-B'', hv_handler = Some out_set_header,
      hv_offset = no_offset, hv_replace = False, hv_wildcard = False\<rparr>"

text \<open>
  C13: setting a header, refined. The walk over the parts in memory computes \<open>set_headers_spec\<close> on the
  list of headers: the first header with the name gets the value and every other one is cleared,
  or a new header is added at the end. There is no fault, and the list stays well formed.
\<close>

theorem set_header_refines:
  assumes "funs_ok F" "out_inv ro ps"
  shows "wp {} (ngx_http_set_header_out F hv v ro)
    (\<lambda>(rc, ro'). \<exists>ps'. out_inv ro' ps' \<and>
      (rc = NGX_OK \<longrightarrow> headers_of (out_headers ro') ps' =
         set_headers_spec F hv v False (headers_of (out_headers ro) ps)))"
  unfolding ngx_http_set_header_out_def by (rule set_header_helper_ok [OF assms])

theorem set_header_refines_witness:
  "wp {} (ngx_http_set_header_out demo_funs demo_set ''new'' demo_out)
    (\<lambda>(rc, ro'). \<exists>ps'. out_inv ro' ps' \<and>
      (rc = NGX_OK \<longrightarrow> map h_value (headers_of (out_headers ro') ps') = [''old'', ''new'']))"
proof -
  have m: "out_matches demo_funs demo_set = named ''X-B''"
    by (subst out_matches_named) (simp_all add: demo_set_def demo_funs_def)
  have n: "\<not> named ''X-B'' \<lparr>h_hash = 5, h_key = ''X-A'', h_value = ''old'', h_lowcase_key = None\<rparr>"
    unfolding named_def ci_eq_def by code_simp
  have "map h_value (set_headers_spec demo_funs demo_set ''new'' False
      (headers_of (out_headers demo_out) [0])) = [''old'', ''new'']"
    using n by (simp add: set_headers_spec_def m demo_out_headers)
  then show ?thesis
    by (intro wp_mono [OF set_header_refines [OF demo_funs_ok demo_out_inv]]) force
qed

lemma set_header_sent_ok:
  assumes "funs_ok F" "out_inv ro ps" "\<not> hv_wildcard hv" "NUL \<notin> set (hv_key hv)" "hv_hash hv \<noteq> 0" "v \<noteq> []"
  shows "wp {} (ngx_http_set_header_out F hv v ro)
    (\<lambda>(rc, ro'). rc = NGX_OK \<longrightarrow> (\<exists>ps'. out_inv ro' ps' \<and>
      map h_value (filter (named (hv_key hv)) (sent (headers_of (out_headers ro') ps'))) = [v] \<and>
      filter (\<lambda>h. \<not> named (hv_key hv) h) (sent (headers_of (out_headers ro') ps')) =
      filter (\<lambda>h. \<not> named (hv_key hv) h) (sent (headers_of (out_headers ro) ps))))"
proof -
  let ?P = "named (hv_key hv)" and ?hs = "headers_of (out_headers ro) ps"
  have m: "out_matches F hv = ?P"
    by (rule out_matches_named) (use assms in \<open>simp_all add: funs_ok_def\<close>)
  have "map h_value (filter ?P (sent (set_headers_spec F hv v False ?hs))) = [v]"
  proof (cases "list_ex ?P ?hs")
    case True
    then show ?thesis using assms(5,6) by (simp add: set_headers_spec_def m set_all_set)
  next
    case False
    then have "filter ?P (sent ?hs) = []" by (auto simp: sent_def list_ex_iff filter_empty_conv)
    then show ?thesis using False assms(5,6) by (simp add: set_headers_spec_def m) (simp add: sent_def)
  qed
  moreover have "filter (\<lambda>h. \<not> ?P h) (set_headers_spec F hv v False ?hs) = filter (\<lambda>h. \<not> ?P h) ?hs"
    using assms(6) by (simp add: set_headers_spec_def m set_all_others)
  then have "filter (\<lambda>h. \<not> ?P h) (sent (set_headers_spec F hv v False ?hs)) = filter (\<lambda>h. \<not> ?P h) (sent ?hs)"
    by (rule sent_others)
  ultimately show ?thesis
    unfolding ngx_http_set_header_out_def by (intro helper_spec [OF assms(1,2)]) simp
qed

text \<open>
  What is sent after a header was set. Exactly one header with the name is sent, with the new
  value; all headers with other names are sent as before, in their order.
\<close>

lemma set_header_sent:
  assumes "funs_ok F" "out_inv ro ps" "\<not> hv_wildcard hv" "NUL \<notin> set (hv_key hv)" "hv_hash hv \<noteq> 0" "v \<noteq> []"
  shows "wp {} (ngx_http_set_header_out F hv v ro)
    (\<lambda>(rc, ro'). rc = NGX_OK \<longrightarrow> (\<exists>ps'. out_inv ro' ps' \<and>
      map h_value (filter (named (hv_key hv)) (sent (headers_of (out_headers ro') ps'))) = [v] \<and>
      filter (\<lambda>h. \<not> named (hv_key hv) h) (sent (headers_of (out_headers ro') ps')) =
      filter (\<lambda>h. \<not> named (hv_key hv) h) (sent (headers_of (out_headers ro) ps))))"
  by (rule set_header_sent_ok [OF assms])

lemma set_header_sent_witness:
  "wp {} (ngx_http_set_header_out demo_funs demo_set ''new'' demo_out)
    (\<lambda>(rc, ro'). rc = NGX_OK \<longrightarrow> (\<exists>ps'. out_inv ro' ps' \<and>
      map h_value (filter (named (hv_key demo_set)) (sent (headers_of (out_headers ro') ps'))) = [''new''] \<and>
      filter (\<lambda>h. \<not> named (hv_key demo_set) h) (sent (headers_of (out_headers ro') ps')) =
      filter (\<lambda>h. \<not> named (hv_key demo_set) h) (sent (headers_of (out_headers demo_out) [0]))))"
  by (rule set_header_sent [OF demo_funs_ok demo_out_inv]) (simp_all add: demo_set_def)

text \<open>
  C15: clearing headers. After the handler of ordinary headers was called with no value, as by
  \<open>more_clear_headers\<close> with a name or a wildcard, no header that matches is sent, and all others are
  sent as before; \<open>ps'\<close> are the parts of the whole list of the response.
\<close>

theorem clear_header_sent:
  assumes "funs_ok F" "out_inv ro ps"
  shows "wp {} (ngx_http_set_header_out F hv [] ro)
    (\<lambda>(rc, ro'). rc = NGX_OK \<longrightarrow> (\<exists>ps'. out_inv ro' ps' \<and>
      filter (out_matches F hv) (sent (headers_of (out_headers ro') ps')) = [] \<and>
      filter (\<lambda>h. \<not> out_matches F hv h) (sent (headers_of (out_headers ro') ps')) =
      filter (\<lambda>h. \<not> out_matches F hv h) (sent (headers_of (out_headers ro) ps))))"
proof -
  define P where "P = out_matches F hv"
  let ?hs = "headers_of (out_headers ro) ps"
  have P: "P (h\<lparr>h_value := v, h_hash := n\<rparr>) = P h" for h v n by (simp add: out_matches_def P_def)
  have new: "sent [\<lparr>h_hash = 0, h_key = k, h_value = [], h_lowcase_key = lk\<rparr>] = []" for k lk
    by (simp add: sent_def)
  have "filter P (sent (set_headers_spec F hv [] False ?hs)) = [] \<and>
    filter (\<lambda>h. \<not> P h) (sent (set_headers_spec F hv [] False ?hs)) = filter (\<lambda>h. \<not> P h) (sent ?hs)"
  proof (cases "list_ex P ?hs")
    case True
    have "filter P (sent (set_all P [] (hv_hash hv) False ?hs)) = []"
      by (rule set_all_cleared) (simp_all add: P)
    moreover have "filter (\<lambda>h. \<not> P h) (sent (set_all P [] (hv_hash hv) False ?hs)) =
        filter (\<lambda>h. \<not> P h) (sent ?hs)"
      by (rule sent_others, rule set_all_others) (rule P)
    ultimately show ?thesis using True by (simp add: set_headers_spec_def P_def [symmetric])
  next
    case False
    then have "filter P (sent ?hs) = []" by (auto simp: sent_def list_ex_iff filter_empty_conv)
    then show ?thesis using False by (simp add: set_headers_spec_def P_def [symmetric] new)
  qed
  then show ?thesis
    unfolding ngx_http_set_header_out_def P_def
    by (rule helper_spec [OF assms(1,2),
      where T = "\<lambda>hs. filter (out_matches F hv) (sent hs) = [] \<and>
        filter (\<lambda>h. \<not> out_matches F hv h) (sent hs) =
        filter (\<lambda>h. \<not> out_matches F hv h) (sent (headers_of (out_headers ro) ps))"])
qed

theorem clear_header_sent_witness:
  "wp {} (ngx_http_set_header_out demo_funs demo_set [] demo_out)
    (\<lambda>(rc, ro'). rc = NGX_OK \<longrightarrow> (\<exists>ps'. out_inv ro' ps' \<and>
      filter (out_matches demo_funs demo_set) (sent (headers_of (out_headers ro') ps')) = [] \<and>
      filter (\<lambda>h. \<not> out_matches demo_funs demo_set h) (sent (headers_of (out_headers ro') ps')) =
      filter (\<lambda>h. \<not> out_matches demo_funs demo_set h) (sent (headers_of (out_headers demo_out) [0]))))"
  by (rule clear_header_sent [OF demo_funs_ok demo_out_inv])

text \<open>
  A header that is not there cannot be cleared twice the same way. Where the response has no
  \<open>Cache-Control\<close>, clearing it adds the header with an empty value and a hash that is not zero, so
  that an empty header is sent.
\<close>

lemma clear_cache_control_sends:
  assumes "funs_ok F" "out_inv ro ps" "out_cache_controls ro = None" "hv_hash hv \<noteq> 0"
  shows "wp {} (ngx_http_set_builtin_multi_header_out F hv [] ro)
    (\<lambda>(rc, ro'). rc = NGX_OK \<longrightarrow> (\<exists>ps' h. wf_list (out_headers ro') ps' \<and> headers_of (out_headers ro') ps' =
        headers_of (out_headers ro) ps @ [h] \<and>
      sent [h] = [h] \<and> h_key h = ''Cache-Control'' \<and> h_value h = []))"
proof (cases "ngx_array_init F \<and> ngx_array_push F \<and> ngx_list_push F (out_headers ro) \<noteq> None")
  case True
  then obtain a l where push: "ngx_list_push F (out_headers ro) = Some (a, l)" by auto
  obtain ps' where ps': "wf_list l ps'" "addrs (prt l) ps' = addrs (prt (out_headers ro)) ps @ [a]"
    "\<forall>b \<in> set (addrs (prt (out_headers ro)) ps). elt l b = elt (out_headers ro) b"
    using assms(1) push out_inv_list [OF assms(2)] unfolding funs_ok_def list_push_spec_def by blast
  have a: "a \<notin> set (addrs (prt (out_headers ro)) ps)" using ps'(1,2) by (auto simp: wf_list_def)
  define l' where "l' = set_elt a (\<lambda>h. h\<lparr>h_value := [], h_hash := hv_hash hv, h_key := ''Cache-Control''\<rparr>) l"
  have "headers_of l' ps' = headers_of (out_headers ro) ps @ [elt l' a]"
    using ps'(2,3) a by (auto simp: headers_of_def l'_def)
  moreover have "wf_list l' ps'" using ps'(1) by (simp add: l'_def)
  moreover have "sent [elt l' a] = [elt l' a]" "h_key (elt l' a) = ''Cache-Control''" "h_value (elt l' a) = []"
    using assms(4) by (simp_all add: l'_def sent_def)
  ultimately show ?thesis
    using True assms(3) push
    by (auto simp: ngx_http_set_builtin_multi_header_out_def Let_def l'_def [symmetric])
next
  case False
  then show ?thesis using assms(3)
    by (cases "ngx_list_push F (out_headers ro)")
      (auto simp: ngx_http_set_builtin_multi_header_out_def Let_def)
qed

lemma clear_cache_control_sends_witness:
  "wp {} (ngx_http_set_builtin_multi_header_out demo_funs demo_set [] demo_out)
    (\<lambda>(rc, ro'). rc = NGX_OK \<longrightarrow> (\<exists>ps' h. wf_list (out_headers ro') ps' \<and> headers_of (out_headers ro') ps' =
        headers_of (out_headers demo_out) [0] @ [h] \<and>
      sent [h] = [h] \<and> h_key h = ''Cache-Control'' \<and> h_value h = []))"
  by (rule clear_cache_control_sends [OF demo_funs_ok demo_out_inv]) (simp_all add: demo_set_def demo_out_def)

lemma unat_word64:
  assumes "n < 2 ^ 64"
  shows "unat (word_of_int (int n) :: 64 word) = n"
proof -
  have "word_of_int (int n) = (of_nat n :: 64 word)" by simp
  moreover have "take_bit 64 n = n" by (rule take_bit_nat_eq_self [OF assms])
  ultimately show ?thesis by (simp only: unsigned_of_nat) simp
qed

lemma charset_loop_type:
  "CHR '';'' \<notin> set t \<Longrightarrow>
   charset_loop F (u @ t @ rest) (length u) ro = charset_loop F (u @ t @ rest) (length u + length t) ro"
proof (induction t arbitrary: u)
  case (Cons ch t)
  have "charset_loop F (u @ (ch # t) @ rest) (length u) ro = charset_loop F (u @ (ch # t) @ rest) (length u + 1) ro"
    using Cons.prems by (subst charset_loop.simps) (auto simp: nth_append)
  also have "\<dots> = charset_loop F ((u @ [ch]) @ t @ rest) (length (u @ [ch])) ro" by simp
  also have "\<dots> = charset_loop F ((u @ [ch]) @ t @ rest) (length (u @ [ch]) + length t) ro"
    by (rule Cons.IH) (use Cons.prems in simp)
  finally show ?case by simp
qed simp

lemma charset_found:
  assumes "strncasecmp_spec (ngx_strncasecmp F)" "CHR '';'' \<notin> set t" "list_all (\<lambda>ch. ch = SP) sps"
    "ci_eq cs ''charset=''" "v = t @ '';'' @ sps @ cs @ w"
  shows "charset_loop F v 0 ro =
    (let q = length t + 1 + length sps + 8 + (if take 1 w = [DQ] then 1 else 0);
         lst = (if last v = DQ then length v - 1 else length v)
     in ret (ro\<lparr>out_content_type_len := length t, out_charset_len := word_of_int (int lst - int q),
              out_charset_data := drop q (v @ [NUL])\<rparr>))"
proof -
  have cs: "length cs = 8" using ci_eq_length [OF assms(4)] by simp
  have nul: "NUL \<notin> set cs"
  proof
    assume "NUL \<in> set cs"
    then have "NUL \<in> set (map tolower_c cs)" by (simp add: tolower_nul image_iff) (metis tolower_nul)
    also have "map tolower_c cs = map tolower_c ''charset=''" using assms(4) by (simp add: ci_eq_def)
    also have "\<dots> = ''charset=''" by code_simp
    finally show False by simp
  qed
  have hd: "hd cs \<noteq> SP" "cs \<noteq> []"
  proof -
    show "cs \<noteq> []" using cs by auto
    show "hd cs \<noteq> SP"
    proof
      assume sp: "hd cs = SP"
      have "tolower_c (hd cs) = hd (map tolower_c ''charset='')"
        using assms(4) \<open>cs \<noteq> []\<close> unfolding ci_eq_def by (metis hd_map)
      also have "\<dots> = CHR ''c''" by code_simp
      finally show False unfolding sp by code_simp
    qed
  qed
  define p where "p = length t"
  define q where "q = length t + 1 + length sps"
  have p: "p \<noteq> length v" "\<not> length v < p" "v ! p = CHR '';''"
    using assms(5) by (simp_all add: p_def nth_append)
  have "takeWhile (\<lambda>ch. ch = SP) (drop (p + 1) v) = sps"
    using assms(3,5) hd by (cases cs) (auto simp: p_def list_all_iff takeWhile_append2)
  then have q: "p + 1 + length (takeWhile (\<lambda>ch. ch = SP) (drop (p + 1) v)) = q" by (simp add: p_def q_def)
  have dq: "drop q v = cs @ w" using assms(5) by (simp add: q_def)
  have lq: "q \<noteq> length v" "\<not> length v < q + 8" using assms(5) cs by (simp_all add: q_def)
  have "c_prefix 8 (drop q v @ [NUL]) = cs"
    using nul cs by (simp add: dq c_prefix_def takeWhile_append2 takeWhile_append)
  then have cmp: "ngx_strncasecmp F (drop q v @ [NUL]) ''charset='' 8 = 0"
    using assms(1,4) by (simp add: strncasecmp_spec_def c_prefix_no_nul)
  have at: "((v @ [NUL]) ! (q + 8) = DQ) = (take 1 w = [DQ])"
  proof -
    have v: "v @ [NUL] = (t @ '';'' @ sps @ cs) @ w @ [NUL]" using assms(5) by simp
    have q8: "q + 8 = length (t @ '';'' @ sps @ cs)" using cs by (simp add: q_def)
    show ?thesis unfolding v q8 by (cases w) (simp_all only: append.simps nth_append_length take.simps, simp_all)
  qed
  have lst: "v ! (length v - 1) = last v" using p(1) assms(5) by (simp add: last_conv_nth)
  have "charset_loop F v 0 ro = charset_loop F v p ro"
    using charset_loop_type [OF assms(2), of F "[]" "'';'' @ sps @ cs @ w" ro] assms(5) by (simp add: p_def)
  also have "\<dots> = ret (ro\<lparr>out_content_type_len := p,
      out_charset_len := word_of_int (int (if last v = DQ then length v - 1 else length v) -
        int (if take 1 w = [DQ] then q + 9 else q + 8)),
      out_charset_data := drop (if take 1 w = [DQ] then q + 9 else q + 8) (v @ [NUL])\<rparr>)"
    unfolding charset_loop.simps [of F v p ro] Let_def q at lst using p lq cmp by simp
  finally show ?thesis by (simp add: p_def q_def Let_def add_ac)
qed

text \<open>
  The content type. Of a type, a semicolon, spaces and \<open>charset=\<close> with a value, the module keeps
  the length of the type and the value as the charset, without quotes around it.
\<close>

lemma content_type_charset:
  assumes "strncasecmp_spec (ngx_strncasecmp F)" "CHR '';'' \<notin> set t" "list_all (\<lambda>ch. ch = SP) sps"
    "ci_eq cs ''charset=''" "w = x \<or> w = DQ # x @ [DQ]" "x \<noteq> []" "hd x \<noteq> DQ" "last x \<noteq> DQ"
    "length (t @ '';'' @ sps @ cs @ w) < 2 ^ 63"
  shows "wp {} (charset_loop F (t @ '';'' @ sps @ cs @ w) 0 ro)
    (\<lambda>ro'. out_content_type_len ro' = length t \<and>
      take (unat (out_charset_len ro')) (out_charset_data ro') = x)"
proof -
  let ?v = "t @ '';'' @ sps @ cs @ w" and ?k = "if take 1 w = [DQ] then 1 else 0 :: nat"
  let ?q = "length t + 1 + length sps + 8 + ?k" and ?lst = "if last ?v = DQ then length ?v - 1 else length ?v"
  have cs: "length cs = 8" using ci_eq_length [OF assms(4)] by simp
  have w: "(w = x \<and> ?k = 0 \<and> last ?v \<noteq> DQ) \<or> (w = DQ # x @ [DQ] \<and> ?k = 1 \<and> last ?v = DQ)"
    using assms(5-8) by (cases x) auto
  then have len: "int ?lst - int ?q = int (length x)" using cs by auto
  define pre where "pre = t @ '';'' @ sps @ cs"
  have "?v @ [NUL] = pre @ w @ [NUL]" "?q = length pre + ?k" using cs by (simp_all add: pre_def)
  then have "drop ?q (?v @ [NUL]) = drop (length pre + ?k) (pre @ w @ [NUL])" by (simp only:)
  also have "\<dots> = drop ?k (w @ [NUL])" by simp
  finally have "drop ?q (?v @ [NUL]) = drop ?k (w @ [NUL])" .
  then have data: "drop ?q (?v @ [NUL]) = x @ (if last ?v = DQ then [DQ, NUL] else [NUL])"
    using w by auto
  have "length x < 2 ^ 64" using w assms(9) by auto
  then have "unat (word_of_int (int (length x)) :: 64 word) = length x" by (rule unat_word64)
  then show ?thesis
    unfolding charset_found [OF assms(1-4) refl] Let_def len data by simp
qed

lemma content_type_charset_witness:
  "wp {} (charset_loop demo_funs (''text/html'' @ '';'' @ '' '' @ ''Charset='' @ [DQ] @ ''utf-8'' @ [DQ]) 0 demo_out)
    (\<lambda>ro'. out_content_type_len ro' = 9 \<and> take (unat (out_charset_len ro')) (out_charset_data ro') = ''utf-8'')"
proof -
  have "ci_eq ''Charset='' ''charset=''" by code_simp
  then show ?thesis
    by (intro wp_mono [OF content_type_charset [where t = "''text/html''" and sps = "'' ''" and
            cs = "''Charset=''" and w = "[DQ] @ ''utf-8'' @ [DQ]" and x = "''utf-8''"]])
      (simp_all add: demo_funs_def)
qed

text \<open>
  A charset that is a single quotation mark has the length of the empty text minus one, which is
  the largest unsigned number: what uses the charset reads far behind the value.
\<close>

lemma charset_underflow:
  assumes "strncasecmp_spec (ngx_strncasecmp F)" "CHR '';'' \<notin> set t" "list_all (\<lambda>ch. ch = SP) sps"
    "ci_eq cs ''charset=''"
  shows "wp {} (charset_loop F (t @ '';'' @ sps @ cs @ [DQ]) 0 ro)
    (\<lambda>ro'. unat (out_charset_len ro') = 2 ^ 64 - 1 \<and> length (out_charset_data ro') = 1)"
proof -
  have "length cs = 8" using ci_eq_length [OF assms(4)] by simp
  moreover have "unat (- 1 :: 64 word) = 2 ^ 64 - 1" by (simp add: unsigned_minus_1_eq_mask mask_eq_exp_minus_1)
  ultimately show ?thesis
    unfolding charset_found [OF assms refl] Let_def by simp
qed

lemma charset_underflow_witness:
  "wp {} (charset_loop demo_funs (''text/html'' @ '';'' @ '' '' @ ''charset='' @ [DQ]) 0 demo_out)
    (\<lambda>ro'. unat (out_charset_len ro') = 2 ^ 64 - 1)"
  by (rule wp_mono [OF charset_underflow]) (simp_all add: demo_funs_def)

end
