(* ===== verification/Headers_Remove.thy ===== *)
theory Headers_Remove
  imports Headers_In Headers_Set
begin

text \<open>
  What the functions of \<open>headers_in.c\<close> do to the headers of a request: clearing a name takes every
  header with it out of the list, one walk for each; setting it changes the first header with the
  name or adds one. And what happens to a header that is the only one of the first part.
\<close>

section \<open>The first match of a walk\<close>

text \<open>The slot of the first header that matches.\<close>

definition first_match ::
  "(ngx_table_elt \<Rightarrow> bool) \<Rightarrow> (nat \<Rightarrow> ngx_table_elt) \<Rightarrow> (nat \<times> nat \<times> nat) list \<Rightarrow> (nat \<times> nat \<times> nat) option" where
  "first_match P e xs = find (\<lambda>(p, i, a). P (e a)) xs"

lemma in_walk_first:
  assumes "wf_list (rq_headers r) ps"
  shows "in_walk_headers F hv v oh r =
    (case first_match (in_matches F hv) (elt (rq_headers r)) (slots (prt (rq_headers r)) ps) of
       None \<Rightarrow> ret (r, Walking)
     | Some (p, i, a) \<Rightarrow>
         bindO (in_set_step F hv v oh p i a (r, Walking))
           (\<lambda>w. case w of Next s \<Rightarrow> ret s | Break s \<Rightarrow> ret s))"
proof -
  have keep: "s' = s" if "in_set_step F hv v oh p i a s = ret (Next s')" for p i a s s'
    using that by (cases s) (auto simp: in_set_step_def Let_def bindO_def split: if_splits option.splits sum.splits)
  have brk: "in_set_step F hv v oh p i a (r, w) \<noteq> ret (Next s')"
    if "in_matches F hv (elt (rq_headers r) a)" for p i a w s'
    using that by (auto simp: in_set_step_def Let_def bindO_def split: if_splits option.splits sum.splits)
  have all: "walk_all (in_set_step F hv v oh) xs (r, Walking) =
    (case first_match (in_matches F hv) (elt (rq_headers r)) xs of
       None \<Rightarrow> ret (r, Walking)
     | Some (p, i, a) \<Rightarrow>
         bindO (in_set_step F hv v oh p i a (r, Walking))
           (\<lambda>w. case w of Next s \<Rightarrow> ret s | Break s \<Rightarrow> ret s))" for xs
  proof (induction xs)
    case Nil
    then show ?case by (simp add: first_match_def)
  next
    case (Cons x xs)
    obtain p i a where x: "x = (p, i, a)" by (cases x)
    show ?case
    proof (cases "in_matches F hv (elt (rq_headers r) a)")
      case True
      have "bindO (in_set_step F hv v oh p i a (r, Walking))
          (\<lambda>w. case w of Next s' \<Rightarrow> walk_all (in_set_step F hv v oh) xs s' | Break s' \<Rightarrow> ret s') =
        bindO (in_set_step F hv v oh p i a (r, Walking))
           (\<lambda>w. case w of Next s \<Rightarrow> ret s | Break s \<Rightarrow> ret s)"
        using brk [OF True, of p i Walking]
        by (auto simp: bindO_def split: option.split sum.split flow.split)
      then show ?thesis using True by (simp add: x first_match_def)
    next
      case False
      then have "in_set_step F hv v oh p i a (r, Walking) = ret (Next (r, Walking))"
        by (simp add: in_set_step_def Let_def)
      then show ?thesis using False Cons by (simp add: x first_match_def)
    qed
  qed
  have "in_walk_headers F hv v oh r =
    walk_all (in_set_step F hv v oh) (slots (prt (rq_headers r)) ps) (r, Walking)"
    unfolding in_walk_headers_def
    by (subst list_walk_all [where ps = ps]) (use assms in \<open>auto dest: keep\<close>)
  then show ?thesis using all by simp
qed

lemma slots_mem: "(p, i, a) \<in> set (slots f ps) \<longleftrightarrow> p \<in> set ps \<and> i < nelts (f p) \<and> a = elts (f p) + i"
  by (force simp: slots_def)

lemma slots_addr: "a \<in> set (addrs f ps) \<longleftrightarrow> (\<exists>p i. (p, i, a) \<in> set (slots f ps))"
  by (force simp: slots_addrs [symmetric])

lemma first_match_None:
  "first_match P e (slots f ps) = None \<longleftrightarrow> (\<forall>a \<in> set (addrs f ps). \<not> P (e a))"
  by (auto simp: first_match_def find_None_iff slots_addr)

lemma first_match_Some:
  assumes "first_match P e (slots f ps) = Some (p, i, a)"
  shows "p \<in> set ps" "i < nelts (f p)" "a = elts (f p) + i" "P (e a)"
    and "p = hd ps \<Longrightarrow> distinct ps \<Longrightarrow> j < i \<Longrightarrow> \<not> P (e (elts (f p) + j))"
proof -
  have "(p, i, a) \<in> set (slots f ps) \<and> P (e a)"
    using assms by (auto simp: first_match_def find_Some_iff in_set_conv_nth)
  then show "p \<in> set ps" "i < nelts (f p)" "a = elts (f p) + i" "P (e a)"
    by (auto simp: slots_mem)
  assume p: "p = hd ps" "distinct ps" and j: "j < i"
  obtain k where k: "k < length (slots f ps)" "slots f ps ! k = (p, i, a)"
    "\<And>m. m < k \<Longrightarrow> \<not> (case slots f ps ! m of (p, i, a) \<Rightarrow> P (e a))"
    using assms by (auto simp: first_match_def find_Some_iff)
  obtain qs where ps: "ps = p # qs" using p(1) \<open>p \<in> set ps\<close> by (cases ps) auto
  have first: "slots f ps ! m = (p, m, elts (f p) + m)" if "m < nelts (f p)" for m
    using that by (simp add: ps nth_append)
  have "k = i"
  proof (rule ccontr)
    assume "k \<noteq> i"
    show False
    proof (cases "k < nelts (f p)")
      case True
      then show False using first k(2) \<open>k \<noteq> i\<close> by simp
    next
      case False
      then have "i < k" using \<open>i < nelts (f p)\<close> by simp
      then show False using k(3) [of i] first [OF \<open>i < nelts (f p)\<close>] \<open>P (e a)\<close> \<open>a = _\<close> by simp
    qed
  qed
  then show "\<not> P (e (elts (f p) + j))"
    using k(3) [of j] first [of j] j \<open>i < nelts (f p)\<close> by simp
qed

section \<open>Clearing\<close>

text \<open>What a removal does to the first part.\<close>

lemma rm_helper_first_part:
  assumes "ngx_http_headers_more_rm_header_helper new l cur i = ret (rc, l')"
    "new \<noteq> Some (l_part l)"
  shows "cur \<noteq> l_part l \<Longrightarrow> elts (prt l' (l_part l)) = elts (prt l (l_part l)) \<and>
      nelts (prt l' (l_part l)) = nelts (prt l (l_part l))"
    and "cur = l_part l \<Longrightarrow> i = 0 \<Longrightarrow> elts (prt l' (l_part l)) = elts (prt l (l_part l)) + 1 \<and>
      nelts (prt l' (l_part l)) = nelts (prt l (l_part l)) - 1"
    and "cur = l_part l \<Longrightarrow> 0 < i \<Longrightarrow> rc = NGX_OK \<Longrightarrow> elts (prt l' (l_part l)) = elts (prt l (l_part l)) \<and>
      nelts (prt l' (l_part l)) = i"
  using assms
  by (auto simp: ngx_http_headers_more_rm_header_helper_def Let_def bindO_def
      split: if_splits option.splits sum.splits)

text \<open>A new part is none of the list.\<close>

definition fresh_parts :: "(ngx_list \<Rightarrow> nat option) \<Rightarrow> bool" where
  "fresh_parts palloc = (\<forall>l ps. wf_list l ps \<longrightarrow> (\<exists>n. palloc l = Some n \<and> n \<notin> set ps))"

text \<open>The first part holds a header that does not match.\<close>

definition anchored :: "(ngx_table_elt \<Rightarrow> bool) \<Rightarrow> ngx_list \<Rightarrow> bool" where
  "anchored P l =
     (\<exists>j < nelts (prt l (l_part l)). \<not> P (elt l (elts (prt l (l_part l)) + j)))"

lemma in_matches_hash [simp]: "in_matches F hv (h\<lparr>h_hash := n\<rparr>) = in_matches F hv h"
  by (simp add: in_matches_def)

text \<open>One round: the first match is taken out.\<close>

lemma clear_round:
  assumes fresh: "fresh_parts (ngx_palloc_part F)" and wf: "wf_list (rq_headers r) ps"
    and anc: "anchored (in_matches F hv) (rq_headers r)"
    and fm: "first_match (in_matches F hv) (elt (rq_headers r)) (slots (prt (rq_headers r)) ps) = Some (p, i, a)"
  shows "\<exists>r' ps'. in_walk_headers F hv [] oh r = ret (r', Retry) \<and> wf_list (rq_headers r') ps' \<and>
    anchored (in_matches F hv) (rq_headers r') \<and>
    addrs (prt (rq_headers r')) ps' = remove1 a (addrs (prt (rq_headers r)) ps) \<and>
    elt (rq_headers r') = (elt (rq_headers r))(a := (elt (rq_headers r) a)\<lparr>h_hash := 0\<rparr>) \<and>
    (\<forall>off. oh = Some off \<longrightarrow> rq_builtin r' off = None)"
proof -
  define l where "l = set_elt a (\<lambda>h. h\<lparr>h_hash := 0\<rparr>) (rq_headers r)"
  have l: "prt l = prt (rq_headers r)" "l_part l = l_part (rq_headers r)" "wf_list l ps"
    using wf by (simp_all add: l_def)
  note m = first_match_Some [OF fm]
  have hd: "hd ps = l_part l" "distinct ps" using wf_list_hd [OF l(3)] l(3) by (simp_all add: wf_list_def)
  obtain n where n: "ngx_palloc_part F l = Some n" "n \<notin> set ps"
    using fresh l(3) unfolding fresh_parts_def by blast
  have Pl: "in_matches F hv (elt l b) = in_matches F hv (elt (rq_headers r) b)" for b
    by (simp add: l_def)
  have anc_l: "anchored (in_matches F hv) l" using anc Pl by (simp add: anchored_def l)
  have sole: "\<not> sole_of_first l p"
  proof
    assume "sole_of_first l p"
    then have "p = l_part l" "nelts (prt l (l_part l)) = 1" by (auto simp: sole_of_first_def)
    moreover have "i = 0" using m(2) calculation l by simp
    ultimately show False using anc_l m(3,4) Pl by (auto simp: anchored_def l)
  qed
  obtain l' ps' where run: "ngx_http_headers_more_rm_header_helper (Some n) l p i = ret (NGX_OK, l')"
    and rm: "removed (elts (prt l p) + i) l ps l' ps'"
    using rm_helper_ok [OF l(3) m(1), of i "Some n"] m(2) l(1) n sole by auto
  have new: "Some n \<noteq> Some (l_part l)" using n(2) wf_list_hd [OF l(3)] hd_in_set [of ps] by auto
  have el: "elt l' = elt l" "l_part l' = l_part l" using rm by (simp_all add: removed_def)
  have "anchored (in_matches F hv) l'"
  proof (cases "p = l_part l")
    case False
    then show ?thesis using anc_l rm_helper_first_part(1) [OF run new] by (simp add: anchored_def el)
  next
    case True
    show ?thesis
    proof (cases i)
      case 0
      obtain j where j: "j < nelts (prt l p)" "\<not> in_matches F hv (elt l (elts (prt l p) + j))"
        using anc_l True by (auto simp: anchored_def)
      have "j \<noteq> 0"
      proof
        assume "j = 0"
        then show False using j(2) 0 m(3,4) Pl l(1) by simp
      qed
      then obtain k where "j = Suc k" by (cases j) auto
      then show ?thesis
        using j rm_helper_first_part(2) [OF run new True 0] True
        by (auto simp: anchored_def el intro!: exI [of _ k])
    next
      case (Suc i')
      have "\<not> in_matches F hv (elt l (elts (prt l p) + 0))"
        unfolding Pl l(1) by (rule m(5)) (use True hd Suc in auto)
      then show ?thesis
        using rm_helper_first_part(3) [OF run new True] Suc True by (auto simp: anchored_def el)
    qed
  qed
  moreover have "in_walk_headers F hv [] oh r =
      ret (set_output_in oh None (r\<lparr>rq_headers := l'\<rparr>), Retry)"
    using in_walk_first [OF wf, of F hv "[]" oh] fm m(4) n run
    by (simp add: in_set_step_def Let_def upd_headers_in_def l_def)
  moreover have "rq_headers (set_output_in oh None (r\<lparr>rq_headers := l'\<rparr>)) = l'"
    by (simp add: set_output_in_def split: option.split)
  ultimately show ?thesis
    using rm m(3) l(1) by (auto simp: removed_def l_def set_output_in_def)
qed

lemma filter_remove1_neg: "\<not> Q a \<Longrightarrow> filter Q (remove1 a xs) = filter Q xs"
  by (induction xs) auto

lemma clear_rounds:
  assumes fresh: "fresh_parts (ngx_palloc_part F)" and "wf_list (rq_headers r) ps"
    and "anchored (in_matches F hv) (rq_headers r)"
  shows "\<exists>r' ps'. loop (\<lambda>(r, w). w = Retry) (\<lambda>(r, w). next_of (in_walk_headers F hv [] oh r)) (r, Retry) =
      ret (r', Walking) \<and> wf_list (rq_headers r') ps' \<and>
    headers_of (rq_headers r') ps' =
      filter (\<lambda>h. \<not> in_matches F hv h) (headers_of (rq_headers r) ps) \<and>
    (list_ex (in_matches F hv) (headers_of (rq_headers r) ps) \<longrightarrow>
      (\<forall>off. oh = Some off \<longrightarrow> rq_builtin r' off = None)) \<and>
    (\<not> list_ex (in_matches F hv) (headers_of (rq_headers r) ps) \<longrightarrow> r' = r)"
  using assms(2,3)
proof (induction "length (addrs (prt (rq_headers r)) ps)" arbitrary: r ps rule: less_induct)
  case less
  let ?P = "in_matches F hv" and ?as = "addrs (prt (rq_headers r)) ps"
  show ?case
  proof (cases "first_match ?P (elt (rq_headers r)) (slots (prt (rq_headers r)) ps)")
    case None
    then have "\<forall>a \<in> set ?as. \<not> ?P (elt (rq_headers r) a)" by (simp only: first_match_None)
    then have f: "filter (\<lambda>h. \<not> ?P h) (headers_of (rq_headers r) ps) = headers_of (rq_headers r) ps"
      "\<not> list_ex ?P (headers_of (rq_headers r) ps)"
      by (auto simp: headers_of_def list_ex_iff filter_id_conv)
    have "in_walk_headers F hv [] oh r = ret (r, Walking)"
      using in_walk_first [OF less.prems(1), of F hv "[]" oh] None by simp
    then have "loop (\<lambda>(r, w). w = Retry) (\<lambda>(r, w). next_of (in_walk_headers F hv [] oh r)) (r, Retry) =
        ret (r, Walking)"
      by (simp add: loop.simps)
    then show ?thesis using f less.prems(1) by auto
  next
    case (Some x)
    then obtain p i a where fm: "first_match ?P (elt (rq_headers r)) (slots (prt (rq_headers r)) ps) =
        Some (p, i, a)" by (cases x) auto
    from clear_round [OF fresh less.prems fm, of oh] obtain r1 ps1
      where run: "in_walk_headers F hv [] oh r = ret (r1, Retry)" and wf1: "wf_list (rq_headers r1) ps1"
        and anc1: "anchored ?P (rq_headers r1)"
        and as1: "addrs (prt (rq_headers r1)) ps1 = remove1 a ?as"
        and el1: "elt (rq_headers r1) = (elt (rq_headers r))(a := (elt (rq_headers r) a)\<lparr>h_hash := 0\<rparr>)"
        and b1: "\<forall>off. oh = Some off \<longrightarrow> rq_builtin r1 off = None"
      by blast
    have a: "?P (elt (rq_headers r) a)" "a \<in> set ?as"
      using first_match_Some(1-4) [OF fm] by (auto simp: slots_addr slots_mem)
    have dist: "distinct ?as" using less.prems(1) by (simp add: wf_list_def)
    have "length (remove1 a ?as) < length ?as" using a(2) using length_pos_if_in_set [OF a(2)] by (simp add: length_remove1)
    then have len: "length (addrs (prt (rq_headers r1)) ps1) < length ?as" by (simp only: as1)
    have h1: "headers_of (rq_headers r1) ps1 = map (elt (rq_headers r)) (remove1 a ?as)"
      using dist by (auto simp: headers_of_def as1 el1)
    have same: "filter (\<lambda>h. \<not> ?P h) (headers_of (rq_headers r1) ps1) =
        filter (\<lambda>h. \<not> ?P h) (headers_of (rq_headers r) ps)"
    proof -
      have "filter (\<lambda>x. \<not> ?P (elt (rq_headers r) x)) (remove1 a ?as) =
          filter (\<lambda>x. \<not> ?P (elt (rq_headers r) x)) ?as"
        by (rule filter_remove1_neg) (use a(1) in blast)
      then show ?thesis unfolding h1 unfolding headers_of_def filter_map comp_def by (rule arg_cong)
    qed
    obtain r2 ps2 where IH:
      "loop (\<lambda>(r, w). w = Retry) (\<lambda>(r, w). next_of (in_walk_headers F hv [] oh r)) (r1, Retry) =
        ret (r2, Walking) \<and> wf_list (rq_headers r2) ps2 \<and>
      headers_of (rq_headers r2) ps2 = filter (\<lambda>h. \<not> ?P h) (headers_of (rq_headers r1) ps1) \<and>
      (list_ex ?P (headers_of (rq_headers r1) ps1) \<longrightarrow> (\<forall>off. oh = Some off \<longrightarrow> rq_builtin r2 off = None)) \<and>
      (\<not> list_ex ?P (headers_of (rq_headers r1) ps1) \<longrightarrow> r2 = r1)"
      using less.hyps [OF len wf1 anc1] by (elim exE) (rule that)
    note run2 = IH [THEN conjunct1] and wf2 = IH [THEN conjunct2, THEN conjunct1]
      and hs2 = IH [THEN conjunct2, THEN conjunct2, THEN conjunct1]
      and bs2 = IH [THEN conjunct2, THEN conjunct2, THEN conjunct2]
    have "loop (\<lambda>(r, w). w = Retry) (\<lambda>(r, w). next_of (in_walk_headers F hv [] oh r)) (r, Retry) = ret (r2, Walking)"
      using run by (subst loop.simps) (simp add: run2)
    moreover have "list_ex ?P (headers_of (rq_headers r) ps)"
      using a by (auto simp: headers_of_def list_ex_iff)
    moreover have "\<forall>off. oh = Some off \<longrightarrow> rq_builtin r2 off = None"
      using bs2 b1 by (cases "list_ex ?P (headers_of (rq_headers r1) ps1)") simp_all
    ultimately show ?thesis
      unfolding same [symmetric] hs2 [symmetric] using wf2 by (intro exI [of _ r2] exI [of _ ps2] conjI) simp_all
  qed
qed

section \<open>Setting\<close>

text \<open>What setting a value makes of the headers of a request: the first header with the name changes.\<close>

fun set_first :: "(ngx_table_elt \<Rightarrow> bool) \<Rightarrow> string \<Rightarrow> ngx_table_elt list \<Rightarrow> ngx_table_elt list" where
  "set_first P v [] = []"
| "set_first P v (h # hs) = (if P h then h\<lparr>h_value := v\<rparr> # hs else h # set_first P v hs)"

definition set_input_spec ::
  "ngx_header_funs \<Rightarrow> 'v ngx_http_headers_more_header_val_t \<Rightarrow> string \<Rightarrow>
   ngx_table_elt list \<Rightarrow> ngx_table_elt list" where
  "set_input_spec F hv v hs =
     (if list_ex (in_matches F hv) hs then set_first (in_matches F hv) v hs
      else if hv_replace hv then hs
      else hs @ [\<lparr>h_hash = hv_hash hv, h_key = hv_key hv, h_value = v,
                  h_lowcase_key = Some (ngx_strlow F (hv_key hv))\<rparr>])"

lemma set_first_map:
  assumes "find (\<lambda>a. P (e a)) as = Some a" "distinct as"
  shows "map (e(a := (e a)\<lparr>h_value := v\<rparr>)) as = set_first P v (map e as)"
  using assms
proof (induction as)
  case (Cons b as)
  show ?case
  proof (cases "P (e b)")
    case True
    then have "a = b" using Cons.prems by simp
    then show ?thesis using True Cons.prems by auto
  next
    case False
    then have f: "find (\<lambda>a. P (e a)) as = Some a" using Cons.prems by simp
    then have "a \<in> set as" by (metis find_Some_iff nth_mem)
    then have "a \<noteq> b" using Cons.prems by auto
    then show ?thesis using False Cons f by simp
  qed
qed simp

lemma first_match_addr:
  "map_option (\<lambda>(p, i, a). a) (first_match P e (slots f ps)) = find (\<lambda>a. P (e a)) (addrs f ps)"
proof -
  have "map_option (\<lambda>(p, i, a). a) (find (\<lambda>(p, i, a). P (e a)) xs) = find (\<lambda>a. P (e a)) (map (\<lambda>(p, i, a). a) xs)"
    for xs :: "(nat \<times> nat \<times> nat) list"
    by (induction xs) (auto split: prod.splits)
  then show ?thesis by (simp add: first_match_def slots_addrs)
qed

lemma set_input_ok:
  assumes F: "list_push_spec (ngx_list_push F)" and wf: "wf_list (rq_headers r) ps"
    and v: "v \<noteq> []" and main: "rq_parents r = []"
  shows "wp {} (ngx_http_set_header_helper_in F hv v oh r)
    (\<lambda>(rc, r'). rc = NGX_OK \<longrightarrow> (\<exists>ps'. wf_list (rq_headers r') ps' \<and>
      headers_of (rq_headers r') ps' = set_input_spec F hv v (headers_of (rq_headers r) ps)))"
proof -
  let ?P = "in_matches F hv" and ?l = "rq_headers r"
  have out: "rq_headers (set_output_in oh x r') = rq_headers r'" "rq_parents (set_output_in oh x r') = rq_parents r'" for x r'
    by (simp_all add: set_output_in_def split: option.split)
  show ?thesis
  proof (cases "first_match ?P (elt ?l) (slots (prt ?l) ps)")
    case (Some x)
    then obtain p i a where fm: "first_match ?P (elt ?l) (slots (prt ?l) ps) = Some (p, i, a)" by (cases x) auto
    then have f: "find (\<lambda>a. ?P (elt ?l a)) (addrs (prt ?l) ps) = Some a"
      using first_match_addr [of ?P "elt ?l" "prt ?l" ps] by simp
    have a: "?P (elt ?l a)" "a \<in> set (addrs (prt ?l) ps)"
      using first_match_Some(1-4) [OF fm] by (auto simp: slots_addr slots_mem)
    let ?r = "set_output_in oh (Some a) (upd_headers_in (set_elt a (\<lambda>h. h\<lparr>h_value := v\<rparr>)) r)"
    have "in_walk_headers F hv v oh r = ret (?r, Returned)"
      using in_walk_first [OF wf, of F hv v oh] fm a v by (simp add: in_set_step_def Let_def)
    then have "loop (\<lambda>(r, w). w = Retry) (\<lambda>(r, w). next_of (in_walk_headers F hv v oh r)) (r, Retry) =
        ret (?r, Returned)"
      by (simp add: loop.simps)
    moreover have "headers_of (rq_headers ?r) ps = set_first ?P v (headers_of ?l ps)"
      using set_first_map [OF f] wf by (simp add: out upd_headers_in_def headers_of_def wf_list_def)
    moreover have "list_ex ?P (headers_of ?l ps)" using a by (auto simp: headers_of_def list_ex_iff)
    moreover have "wf_list (rq_headers ?r) ps" using wf by (simp add: out upd_headers_in_def)
    ultimately show ?thesis
      by (auto simp: ngx_http_set_header_helper_in_def set_input_spec_def)
  next
    case None
    then have "\<forall>a \<in> set (addrs (prt ?l) ps). \<not> ?P (elt ?l a)" by (simp only: first_match_None)
    then have n: "\<not> list_ex ?P (headers_of ?l ps)" by (auto simp: headers_of_def list_ex_iff)
    have "in_walk_headers F hv v oh r = ret (r, Walking)"
      using in_walk_first [OF wf, of F hv v oh] None by simp
    then have walk: "loop (\<lambda>(r, w). w = Retry) (\<lambda>(r, w). next_of (in_walk_headers F hv v oh r)) (r, Retry) =
        ret (r, Walking)"
      by (simp add: loop.simps)
    let ?new = "\<lambda>a l. set_elt a (\<lambda>h. h\<lparr>h_lowcase_key := Some (ngx_strlow F (hv_key hv))\<rparr>)
      (set_elt a (\<lambda>h. h\<lparr>h_hash := (if length v = 0 then 0 else hv_hash hv),
        h_key := hv_key hv, h_value := v\<rparr>) l)"
    have pushed: "\<exists>ps'. wf_list (?new a l) ps' \<and>
        headers_of (?new a l) ps' = headers_of ?l ps @ [\<lparr>h_hash = hv_hash hv, h_key = hv_key hv, h_value = v,
          h_lowcase_key = Some (ngx_strlow F (hv_key hv))\<rparr>]"
      if push: "ngx_list_push F ?l = Some (a, l)" for a l
    proof -
      obtain ps' where ps': "wf_list l ps'" "addrs (prt l) ps' = addrs (prt ?l) ps @ [a]"
        "\<forall>b \<in> set (addrs (prt ?l) ps). elt l b = elt ?l b"
        using F push wf unfolding list_push_spec_def by blast
      have "a \<notin> set (addrs (prt ?l) ps)" using ps'(1,2) by (auto simp: wf_list_def)
      then show ?thesis using ps' v by (auto simp: headers_of_def intro!: exI [of _ ps'])
    qed
    have copy: "rq_parents r' = [] \<Longrightarrow> rq_headers (copy_to_parents r') = rq_headers r'" for r'
      by (simp add: copy_to_parents_def Let_def)
    show ?thesis
    proof (cases "hv_replace hv")
      case True
      then show ?thesis
        using walk n wf by (auto simp: ngx_http_set_header_helper_in_def set_input_spec_def)
    next
      case False
      let ?Q = "\<lambda>r'. \<exists>ps'. wf_list (rq_headers r') ps' \<and>
        headers_of (rq_headers r') ps' = set_input_spec F hv v (headers_of ?l ps)"
      have Q: "?Q r'" if "ngx_list_push F ?l = Some (a, l)" "rq_headers r' = ?new a l" for a l r'
        using pushed [OF that(1)] n False unfolding that(2) by (simp add: set_input_spec_def)
      have Q': "?Q (copy_to_parents r')"
        if "ngx_list_push F ?l = Some (a, l)" "rq_headers r' = ?new a l" "rq_parents r' = []" for a l r'
        by (rule Q [OF that(1)]) (use that in \<open>simp add: copy\<close>)
      show ?thesis
      proof (cases "ngx_list_push F ?l")
        case None
        then show ?thesis using walk False v by (simp add: ngx_http_set_header_helper_in_def)
      next
        case (Some al)
        obtain a l where al: "al = (a, l)" by (cases al)
        define r1 where "r1 = r\<lparr>rq_headers := ?new a l\<rparr>"
        have r1: "rq_headers r1 = ?new a l" "rq_parents r1 = []" using main by (simp_all add: r1_def)
        have "?Q r1" by (rule Q [OF _ r1(1)]) (use Some al in simp)
        moreover have "?Q (copy_to_parents (set_output_in oh (Some a) r1))"
          by (rule Q' [of a l]) (use Some al r1 out in simp_all)
        moreover have "ngx_http_set_header_helper_in F hv v oh r =
          (if \<not> ngx_pnalloc F (length (hv_key hv))
           then ret (NGX_HTTP_INTERNAL_SERVER_ERROR, r\<lparr>rq_headers :=
              set_elt a (\<lambda>h. h\<lparr>h_lowcase_key := None\<rparr>) (set_elt a (\<lambda>h. h\<lparr>h_hash := (if length v = 0 then 0 else hv_hash hv),
                h_key := hv_key hv, h_value := v\<rparr>) l)\<rparr>)
           else case oh of None \<Rightarrow> ret (NGX_OK, r1)
             | Some off \<Rightarrow> ret (NGX_OK, copy_to_parents (set_output_in oh (Some a) r1)))"
          using walk False v Some al by (auto simp: ngx_http_set_header_helper_in_def Let_def r1_def split: option.split)
        ultimately show ?thesis by (cases oh) simp_all
      qed
    qed
  qed
qed

section \<open>Memory for a new part\<close>

text \<open>A part behind all parts of the list, found by walking the chain.\<close>

partial_function (option) max_part :: "(nat \<Rightarrow> ngx_list_part) \<Rightarrow> nat \<Rightarrow> nat option \<Rightarrow> nat option" where
  "max_part f m x = (case x of None \<Rightarrow> Some m | Some p \<Rightarrow> max_part f (max m p) (next_part (f p)))"

lemma max_part_path:
  "part_path f x ps None \<Longrightarrow> max_part f m x = Some (fold max ps m)"
proof (induction ps arbitrary: m x)
  case Nil
  then show ?case by (simp add: max_part.simps)
next
  case (Cons p ps)
  then show ?case by (subst max_part.simps) (simp add: max.commute)
qed

definition fresh_part :: "ngx_list \<Rightarrow> nat option" where
  "fresh_part l = map_option Suc (max_part (prt l) 0 (Some (l_part l)))"

lemma fold_max_ge: "m \<le> fold max ps m \<and> (\<forall>p \<in> set ps. p \<le> fold max ps (m :: nat))"
proof (induction ps arbitrary: m)
  case (Cons p ps)
  from Cons [of "max p m"] show ?case by auto
qed simp

lemma fresh_part_fresh: "fresh_parts fresh_part"
  unfolding fresh_parts_def
proof (intro allI impI)
  fix l ps
  assume "wf_list l ps"
  then have "fresh_part l = Some (Suc (fold max ps 0))"
    by (simp add: fresh_part_def wf_list_def max_part_path)
  moreover have "Suc (fold max ps 0) \<notin> set ps" using fold_max_ge [of 0 ps] by auto
  ultimately show "\<exists>n. fresh_part l = Some n \<and> n \<notin> set ps" by blast
qed

section \<open>Properties\<close>

text \<open>A request with three headers in two parts, the second two with the same name.\<close>

definition demo_in :: ngx_http_request_in where
  "demo_in =
     \<lparr>rq_headers = \<lparr>elt = (\<lambda>a. \<lparr>h_hash = 5, h_key = (if a = 0 then ''Host'' else ''X-B''), h_value = ''old'',
          h_lowcase_key = None\<rparr>),
        prt = (\<lambda>p. if p = 0 then \<lparr>elts = 0, nelts = 2, next_part = Some 1\<rparr>
                   else \<lparr>elts = 9, nelts = 1, next_part = None\<rparr>), l_part = 0, l_last = 1, nalloc = 4\<rparr>,
      rq_builtin = (\<lambda>_. None), rq_server = [], rq_content_length_n = -1, rq_parents = []\<rparr>"

lemma demo_in_wf: "wf_list (rq_headers demo_in) [0, 1]"
  by (simp add: demo_in_def wf_list_def free_slots_def part_addrs_def)

definition demo_in_funs :: ngx_header_funs where
  "demo_in_funs = demo_funs\<lparr>ngx_palloc_part := fresh_part\<rparr>"

lemma demo_in_anchored: "anchored (in_matches demo_in_funs demo_set) (rq_headers demo_in)"
  by (auto simp: anchored_def in_matches_def demo_in_def demo_set_def demo_in_funs_def demo_funs_def
      strncasecmp_at_def ci_eq_def c_prefix_def tolower_c_def intro!: exI [of _ 0])

text \<open>
  C11: clearing a request header ends, and takes every header with the name out of the list and no
  other, however many walks that takes; a pointer to the header that nginx keeps is null then. This
  supposes memory for the parts that are split, and (\<open>anchored\<close>) a header with another name in the
  first part of the list.
\<close>

theorem clear_input_header:
  assumes "fresh_parts (ngx_palloc_part F)" "wf_list (rq_headers r) ps"
    "anchored (in_matches F hv) (rq_headers r)"
  shows "wp {} (ngx_http_set_header_helper_in F hv [] oh r)
    (\<lambda>(rc, r'). rc = NGX_OK \<and> (\<exists>ps'. wf_list (rq_headers r') ps' \<and>
      headers_of (rq_headers r') ps' =
        filter (\<lambda>h. \<not> in_matches F hv h) (headers_of (rq_headers r) ps) \<and>
      (list_ex (in_matches F hv) (headers_of (rq_headers r) ps) \<longrightarrow>
        (\<forall>off. oh = Some off \<longrightarrow> rq_builtin r' off = None))))"
proof -
  obtain r' ps' where run: "loop (\<lambda>(r, w). w = Retry)
      (\<lambda>(r, w). next_of (in_walk_headers F hv [] oh r)) (r, Retry) = ret (r', Walking)"
    and r': "wf_list (rq_headers r') ps'"
      "headers_of (rq_headers r') ps' = filter (\<lambda>h. \<not> in_matches F hv h) (headers_of (rq_headers r) ps)"
      "list_ex (in_matches F hv) (headers_of (rq_headers r) ps) \<longrightarrow>
        (\<forall>off. oh = Some off \<longrightarrow> rq_builtin r' off = None)"
    using clear_rounds [OF assms, of oh] by blast
  have "ngx_http_set_header_helper_in F hv [] oh r = ret (NGX_OK, r')"
    by (simp add: ngx_http_set_header_helper_in_def run)
  then show ?thesis using r' by (simp, intro exI [of _ ps'] conjI)
qed

theorem clear_input_header_witness:
  "wp {} (ngx_http_set_header_helper_in demo_in_funs demo_set [] (Some in_range) demo_in)
    (\<lambda>(rc, r'). rc = NGX_OK \<and> (\<exists>ps'. wf_list (rq_headers r') ps' \<and>
      headers_of (rq_headers r') ps' = filter (\<lambda>h. \<not> in_matches demo_in_funs demo_set h)
        (headers_of (rq_headers demo_in) [0, 1]) \<and>
      (list_ex (in_matches demo_in_funs demo_set) (headers_of (rq_headers demo_in) [0, 1]) \<longrightarrow>
        (\<forall>off. Some in_range = Some off \<longrightarrow> rq_builtin r' off = None))))"
  by (rule clear_input_header [OF _ demo_in_wf demo_in_anchored])
    (simp add: demo_in_funs_def fresh_part_fresh)

text \<open>
  C14: setting a request header, refined, for a main request: the first header with the name gets the
  value and the others stay; where there is none, a header is added at the end, but not by a
  directive with the option \<open>-r\<close>.
\<close>

theorem set_input_header:
  assumes "list_push_spec (ngx_list_push F)" "wf_list (rq_headers r) ps" "v \<noteq> []" "rq_parents r = []"
  shows "wp {} (ngx_http_set_header_helper_in F hv v oh r)
    (\<lambda>(rc, r'). rc = NGX_OK \<longrightarrow> (\<exists>ps'. wf_list (rq_headers r') ps' \<and>
      headers_of (rq_headers r') ps' = set_input_spec F hv v (headers_of (rq_headers r) ps)))"
  by (rule set_input_ok [OF assms])

theorem set_input_header_witness:
  "wp {} (ngx_http_set_header_helper_in demo_in_funs demo_set ''new'' None demo_in)
    (\<lambda>(rc, r'). rc = NGX_OK \<longrightarrow> (\<exists>ps'. wf_list (rq_headers r') ps' \<and>
      headers_of (rq_headers r') ps' =
        set_input_spec demo_in_funs demo_set ''new'' (headers_of (rq_headers demo_in) [0, 1])))"
  by (rule set_input_header [OF _ demo_in_wf])
    (simp_all add: demo_in_funs_def demo_funs_def demo_in_def list_push_at_spec)

text \<open>
  A header that is the only one of the first and only part, and that nginx keeps a pointer to, is
  lost when it is cleared and then set. Clearing takes it out of the list but leaves the pointer,
  since the removal reports an error; setting it writes to the element the pointer points to,
  reports success, and the list stays empty.
\<close>

lemma cleared_input_header_lost:
  assumes "wf_list (rq_headers r) [p]" "nelts (prt (rq_headers r) p) = 1"
    "in_matches F hv (elt (rq_headers r) (elts (prt (rq_headers r) p)))"
    "hv_offset hv \<noteq> no_offset" "rq_builtin r (hv_offset hv) = Some (elts (prt (rq_headers r) p))" "v \<noteq> []"
  shows "wp {} (bindO (ngx_http_set_builtin_header_in F hv [] r)
      (\<lambda>(rc1, r1). bindO (ngx_http_set_builtin_header_in F hv v r1) (\<lambda>(rc2, r2). ret (rc1, rc2, r2))))
    (\<lambda>(rc1, rc2, r2). rc1 = NGX_OK \<and> rc2 = NGX_OK \<and> wf_list (rq_headers r2) [p] \<and>
      headers_of (rq_headers r2) [p] = [])"
proof -
  let ?a = "elts (prt (rq_headers r) p)"
  define r0 where "r0 = upd_headers_in (set_elt ?a (\<lambda>h. h\<lparr>h_hash := 0, h_value := []\<rparr>)) r"
  have r0: "wf_list (rq_headers r0) [p]" "prt (rq_headers r0) = prt (rq_headers r)"
    "rq_builtin r0 = rq_builtin r"
    using assms(1) by (simp_all add: r0_def upd_headers_in_def)
  have match: "in_matches F hv (elt (rq_headers r0) ?a)"
    using assms(3) by (auto simp: r0_def upd_headers_in_def in_matches_def)
  have fm: "first_match (in_matches F hv) (elt (rq_headers r0)) (slots (prt (rq_headers r0)) [p]) = Some (p, 0, ?a)"
    using assms(2) match r0(2) by (simp add: first_match_def)
  define l where "l = set_elt ?a (\<lambda>h. h\<lparr>h_hash := 0\<rparr>) (rq_headers r0)"
  have l: "wf_list l [p]" "prt l = prt (rq_headers r)" "nelts (prt l p) = 1"
    using r0 assms(2) by (simp_all add: l_def)
  obtain l' where run: "\<And>new. ngx_http_headers_more_rm_header_helper new l p 0 = ret (NGX_ERROR, l')"
    and l': "l' = set_part p (\<lambda>q. q\<lparr>elts := elts q + 1, nelts := 0\<rparr>) l" and wf': "wf_list l' [p]"
    using rm_helper_head [OF l(1) refl l(3)] by (auto simp: removed_def)
  define r1 where "r1 = set_output_in (Some (hv_offset hv)) (Some ?a)
    (upd_headers_in (set_elt ?a (\<lambda>h. h\<lparr>h_value := []\<rparr>)) (r0\<lparr>rq_headers := l'\<rparr>))"
  have "in_walk_headers F hv [] (Some (hv_offset hv)) r0 = ret (r1, Returned)"
    using in_walk_first [OF r0(1), of F hv "[]" "Some (hv_offset hv)"] fm match run
    by (simp add: in_set_step_def Let_def r1_def upd_headers_in_def l_def)
  then have "ngx_http_set_header_helper_in F hv [] (Some (hv_offset hv)) r0 = ret (NGX_OK, r1)"
    by (simp add: ngx_http_set_header_helper_in_def loop.simps)
  then have clear: "ngx_http_set_builtin_header_in F hv [] r = ret (NGX_OK, r1)"
    using assms(4,5) by (simp add: ngx_http_set_builtin_header_in_def Let_def r0_def)
  have r1: "rq_builtin r1 (hv_offset hv) = Some ?a" "nelts (prt (rq_headers r1) p) = 0"
    "wf_list (rq_headers r1) [p]"
    using wf' by (simp_all add: r1_def set_output_in_def upd_headers_in_def l')
  then show ?thesis
    unfolding clear using assms(4,6)
    by (simp add: ngx_http_set_builtin_header_in_def Let_def upd_headers_in_def headers_of_def part_addrs_def)
qed

definition demo_sole :: ngx_http_request_in where
  "demo_sole = demo_in\<lparr>
     rq_headers := (rq_headers demo_in)\<lparr>prt := (\<lambda>p. \<lparr>elts = 4, nelts = 1, next_part = None\<rparr>), l_last := 0\<rparr>,
     rq_builtin := (\<lambda>_. Some 4)\<rparr>"

lemma cleared_input_header_lost_witness:
  "wp {} (bindO (ngx_http_set_builtin_header_in demo_in_funs (demo_set\<lparr>hv_offset := in_range\<rparr>) [] demo_sole)
      (\<lambda>(rc1, r1). bindO (ngx_http_set_builtin_header_in demo_in_funs (demo_set\<lparr>hv_offset := in_range\<rparr>) ''v'' r1)
        (\<lambda>(rc2, r2). ret (rc1, rc2, r2))))
    (\<lambda>(rc1, rc2, r2). rc1 = NGX_OK \<and> rc2 = NGX_OK \<and> wf_list (rq_headers r2) [0] \<and>
      headers_of (rq_headers r2) [0] = [])"
  by (rule cleared_input_header_lost)
    (simp_all add: demo_sole_def demo_in_def demo_set_def demo_in_funs_def demo_funs_def in_matches_def
      wf_list_def part_addrs_def free_slots_def strncasecmp_at_def)

end
