(* ===== verification/Headers_Filter.thy ===== *)
theory Headers_Filter
  imports Headers_Remove
begin

text \<open>
  The headers_more module itself,
  \<open>src/modules/mod_headers_more/src/ngx_http_headers_more_filter_module.c\<close>: the configuration of
  locations and how an inner one is merged with the one around it, the installation of the filter
  and of the handler, the filter that runs the commands for responses, and the handler that runs
  those for requests, after it has moved itself to the end of its phase.
\<close>

section \<open>Configuration\<close>

record 'v ngx_http_headers_more_loc_conf_t =
  cmds :: "'v ngx_http_headers_more_cmd_t list option"

record ngx_http_headers_more_main_conf_t =
  postponed_to_phase_end :: bool

text \<open>The flags of the module that directives set and \<open>pre_config\<close> clears.\<close>

record headers_more_flags =
  ngx_http_headers_more_handler_used :: bool
  ngx_http_headers_more_filter_used :: bool

definition ngx_http_headers_more_pre_config :: "headers_more_flags \<Rightarrow> int \<times> headers_more_flags" where
  "ngx_http_headers_more_pre_config g =
     (NGX_OK, g\<lparr>ngx_http_headers_more_handler_used := False, ngx_http_headers_more_filter_used := False\<rparr>)"

definition ngx_http_headers_more_create_loc_conf ::
  "bool \<Rightarrow> 'v ngx_http_headers_more_loc_conf_t option" where
  "ngx_http_headers_more_create_loc_conf pcalloc = (if \<not> pcalloc then None else Some \<lparr>cmds = None\<rparr>)"

definition ngx_http_headers_more_create_main_conf ::
  "bool \<Rightarrow> ngx_http_headers_more_main_conf_t option" where
  "ngx_http_headers_more_create_main_conf pcalloc =
     (if \<not> pcalloc then None else Some \<lparr>postponed_to_phase_end = False\<rparr>)"

text \<open>
  An assignment \<open>cmd[i] = x\<close> to an array of commands that has grown: writing behind its end is a
  fault.
\<close>

definition store_at :: "'a list \<Rightarrow> nat \<Rightarrow> 'a \<Rightarrow> 'a list outcome" where
  "store_at xs i x = (if i < length xs then ret (xs[i := x]) else fail OutOfBounds)"

fun move_up :: "nat \<Rightarrow> nat \<Rightarrow> 'a list \<Rightarrow> 'a list outcome" where
  "move_up n 0 cmd = ret cmd"
| "move_up n (Suc k) cmd =
     bindO (store_at cmd (length cmd - 1 - (n - Suc k)) (cmd ! (n - 1 - (n - Suc k)))) (move_up n k)"

fun copy_front :: "nat \<Rightarrow> 'a list \<Rightarrow> 'a list \<Rightarrow> 'a list outcome" where
  "copy_front i [] cmd = ret cmd"
| "copy_front i (x # xs) cmd = bindO (store_at cmd i x) (copy_front (Suc i) xs)"

text \<open>
  \<open>push_n\<close> is what \<open>ngx_array_push_n\<close> makes of the array, which the code does not check: the
  array with new elements at its end, or, without memory, the array as it was.
\<close>

definition ngx_http_headers_more_merge_loc_conf ::
  "('v ngx_http_headers_more_cmd_t list \<Rightarrow> nat \<Rightarrow> 'v ngx_http_headers_more_cmd_t list) \<Rightarrow>
   'v ngx_http_headers_more_loc_conf_t \<Rightarrow> 'v ngx_http_headers_more_loc_conf_t \<Rightarrow>
   (conf_rc \<times> 'v ngx_http_headers_more_loc_conf_t) outcome" where
  "ngx_http_headers_more_merge_loc_conf push_n prev conf =
     (if (case cmds conf of None \<Rightarrow> True | Some cs \<Rightarrow> length cs = 0)
      then ret (NGX_CONF_OK, conf\<lparr>cmds := cmds prev\<rparr>)
      else
        (case (cmds prev, cmds conf) of
           (Some ps, Some cs) \<Rightarrow>
             if length ps \<noteq> 0 then
               bindO (move_up (length cs) (length cs) (push_n cs (length ps))) (\<lambda>cmd.
                 bindO (copy_front 0 ps cmd) (\<lambda>cmd.
                   ret (NGX_CONF_OK, conf\<lparr>cmds := Some cmd\<rparr>)))
             else ret (NGX_CONF_OK, conf)
         | _ \<Rightarrow> ret (NGX_CONF_OK, conf)))"

definition push_n_spec :: "('a list \<Rightarrow> nat \<Rightarrow> 'a list) \<Rightarrow> bool" where
  "push_n_spec push_n = (\<forall>xs n. length (push_n xs n) = length xs + n \<and> take (length xs) (push_n xs n) = xs)"

section \<open>Installation\<close>

definition ngx_http_headers_more_filter_init ::
  "'hf \<Rightarrow> ('hf, 'bf) ngx_filter_chains \<Rightarrow> int \<times> ('hf, 'bf) ngx_filter_chains" where
  "ngx_http_headers_more_filter_init header_filter g =
     (NGX_OK,
      (let g = g\<lparr>ngx_http_next_header_filter := ngx_http_top_header_filter g\<rparr>
       in g\<lparr>ngx_http_top_header_filter := header_filter\<rparr>))"

text \<open>\<open>handlers\<close> is the array of handlers of the rewrite phase, \<open>push\<close> whether it can grow.\<close>

definition ngx_http_headers_more_post_config ::
  "bool \<Rightarrow> 'hf \<Rightarrow> 'ph \<Rightarrow> headers_more_flags \<Rightarrow> ('hf, 'bf) ngx_filter_chains \<Rightarrow> 'ph list \<Rightarrow>
   int \<times> ('hf, 'bf) ngx_filter_chains \<times> 'ph list" where
  "ngx_http_headers_more_post_config push header_filter handler flags g handlers =
     (let (rc, g') = (if ngx_http_headers_more_filter_used flags
                      then ngx_http_headers_more_filter_init header_filter g else (NGX_OK, g)) in
      if rc \<noteq> NGX_OK then (rc, g', handlers)
      else if \<not> ngx_http_headers_more_handler_used flags then (NGX_OK, g', handlers)
      else if \<not> push then (NGX_ERROR, g', handlers)
      else (NGX_OK, g', handlers @ [handler]))"

section \<open>The filter and the handler\<close>

fun run_output_cmds ::
  "ngx_header_funs \<Rightarrow> (ngx_http_headers_out \<Rightarrow> 'v \<Rightarrow> string option) \<Rightarrow>
   'v ngx_http_headers_more_cmd_t list \<Rightarrow> ngx_http_headers_out \<Rightarrow>
   (int \<times> ngx_http_headers_out) outcome" where
  "run_output_cmds F eval [] ro = ret (NGX_OK, ro)"
| "run_output_cmds F eval (c # cs) ro =
     (if is_input c then run_output_cmds F eval cs ro
      else bindO (ngx_http_headers_more_exec_cmd F eval c ro) (\<lambda>(rc, ro).
        if rc \<noteq> NGX_OK then ret (rc, ro) else run_output_cmds F eval cs ro))"

text \<open>The next header filter sees the headers that the commands left.\<close>

definition ngx_http_headers_more_filter ::
  "ngx_header_funs \<Rightarrow> (ngx_http_headers_out \<Rightarrow> 'v \<Rightarrow> string option) \<Rightarrow> (ngx_http_headers_out \<Rightarrow> int) \<Rightarrow>
   'v ngx_http_headers_more_loc_conf_t \<Rightarrow> ngx_http_headers_out \<Rightarrow>
   (int \<times> ngx_http_headers_out) outcome" where
  "ngx_http_headers_more_filter F eval next_header_filter conf ro =
     bindO (case cmds conf of None \<Rightarrow> ret (NGX_OK, ro) | Some cs \<Rightarrow> run_output_cmds F eval cs ro)
       (\<lambda>(rc, ro). if rc \<noteq> NGX_OK then ret (rc, ro) else ret (next_header_filter ro, ro))"

fun run_input_cmds ::
  "ngx_header_funs \<Rightarrow> (ngx_http_request_in \<Rightarrow> 'v \<Rightarrow> string option) \<Rightarrow>
   'v ngx_http_headers_more_cmd_t list \<Rightarrow> ngx_http_request_in \<Rightarrow>
   (int \<times> ngx_http_request_in) outcome" where
  "run_input_cmds F eval [] r = ret (NGX_OK, r)"
| "run_input_cmds F eval (c # cs) r =
     (if \<not> is_input c then run_input_cmds F eval cs r
      else bindO (ngx_http_headers_more_exec_input_cmd F eval c r) (\<lambda>(rc, r).
        if rc \<noteq> NGX_OK then ret (rc, r) else run_input_cmds F eval cs r))"

text \<open>
  An entry of the phase engine: a handler, and the index of the first entry of the next phase. The
  engine is shared by all requests, \<open>phase_handler\<close> is the index the request is at.
\<close>

record 'ph ngx_http_phase_handler =
  ph_handler :: 'ph
  ph_next :: nat

record 'ph handler_state =
  engine :: "'ph ngx_http_phase_handler list"
  main_conf :: ngx_http_headers_more_main_conf_t
  phase_handler :: int
  request :: ngx_http_request_in

text \<open>
  \<open>*last_ph = tmp\<close> after the entries behind \<open>cur_ph\<close> up to \<open>last_ph\<close> were moved down by one. An index
  behind the end of the array is a fault.
\<close>

definition rotate_phase :: "nat \<Rightarrow> nat \<Rightarrow> 'a list \<Rightarrow> 'a list outcome" where
  "rotate_phase cur lst ph =
     (if lst < length ph
      then ret (take cur ph @ take (lst - cur) (drop (Suc cur) ph) @ [ph ! cur] @ drop (Suc lst) ph)
      else fail OutOfBounds)"

definition ngx_http_headers_more_handler ::
  "ngx_header_funs \<Rightarrow> (ngx_http_request_in \<Rightarrow> 'v \<Rightarrow> string option) \<Rightarrow>
   'v ngx_http_headers_more_loc_conf_t \<Rightarrow> 'ph handler_state \<Rightarrow> (int \<times> 'ph handler_state) outcome" where
  "ngx_http_headers_more_handler F eval conf s0 =
     (let run = (\<lambda>s.
            bindO (case cmds conf of None \<Rightarrow> ret (NGX_OK, request s)
                   | Some cs \<Rightarrow> run_input_cmds F eval cs (request s))
              (\<lambda>(rc, r). ret (if rc \<noteq> NGX_OK then rc else NGX_DECLINED, s\<lparr>request := r\<rparr>)))
      in
        if postponed_to_phase_end (main_conf s0) then run s0
        else
          (let s = s0\<lparr>main_conf := (main_conf s0)\<lparr>postponed_to_phase_end := True\<rparr>\<rparr>;
               cur = nat (phase_handler s) in
           if \<not> (0 \<le> phase_handler s \<and> cur < length (engine s)) then fail OutOfBounds
           else
             (let lst = ph_next (engine s ! cur) - 1 in
              if cur < lst then
                bindO (rotate_phase cur lst (engine s)) (\<lambda>e.
                  ret (NGX_DECLINED, s\<lparr>engine := e, phase_handler := phase_handler s - 1\<rparr>))
              else run s)))"

section \<open>Commands that directives make\<close>

text \<open>
  The types of a command: its handlers come from the table of its kind, its arrays are null or not
  empty, and a command for requests has no statuses. \<open>gzip\<close> is the build option of the table for requests.
\<close>

definition handlers_from ::
  "ngx_http_headers_more_set_header_t list \<Rightarrow> 'v ngx_http_headers_more_header_val_t list \<Rightarrow> bool" where
  "handlers_from table hs = list_all (\<lambda>hv. hv_handler hv \<in> sh_handler ` set table) hs"

definition cmd_ok :: "bool \<Rightarrow> 'v ngx_http_headers_more_cmd_t \<Rightarrow> bool" where
  "cmd_ok gzip c =
     ((case cmd_headers c of
         None \<Rightarrow> True
       | Some hs \<Rightarrow> hs \<noteq> [] \<and>
           handlers_from (if is_input c then ngx_http_headers_more_set_handlers_in gzip
                          else ngx_http_headers_more_set_handlers_out) hs) \<and>
      cmd_types c \<noteq> Some [] \<and> cmd_statuses c \<noteq> Some [] \<and> (is_input c \<longrightarrow> cmd_statuses c = None))"

lemma entry_for_mem: "names_ok es \<Longrightarrow> entry_for es k \<in> set es"
proof -
  assume ok: "names_ok es"
  show ?thesis
  proof (cases "filter (\<lambda>e. ci_eq k (sh_name e)) (butlast es)")
    case Nil
    then show ?thesis using ok by (simp add: entry_for_def names_ok_def)
  next
    case (Cons e es')
    have "e \<in> set (filter (\<lambda>e. ci_eq k (sh_name e)) (butlast es))" unfolding Cons by simp
    then have "e \<in> set es" by (simp add: in_set_butlastD)
    then show ?thesis unfolding entry_for_def Cons by simp
  qed
qed

lemma out_table_ok: "names_ok ngx_http_headers_more_set_handlers_out"
  by (simp add: names_ok_def ngx_http_headers_more_set_handlers_out_def)

lemma in_table_ok: "names_ok (ngx_http_headers_more_set_handlers_in gzip)"
  by (simp add: names_ok_def ngx_http_headers_more_set_handlers_in_def)

lemma conf_parse_header_ok:
  assumes "strncasecmp_spec (cf_strncasecmp C)" "names_ok table" "handlers_from table hs"
  shows "wp {} (conf_parse_header C table opcode raw hs)
    (\<lambda>(rc, hs'). rc = NGX_OK \<longrightarrow> handlers_from table hs' \<and> hs' \<noteq> [])"
  using assms(3) entry_for_mem [OF assms(2)]
  by (auto simp: conf_parse_header_def ngx_http_headers_more_parse_header_def Let_def handlers_from_def
      find_handler_entry [OF assms(1,2)] split: prod.split option.split)

lemma parse_args_out_ok:
  assumes "strncasecmp_spec (cf_strncasecmp C)"
    "handlers_from ngx_http_headers_more_set_handlers_out hs"
  shows "wp {} (parse_args_out C opcode ignore args (hs, ts, ss))
    (\<lambda>r. \<forall>hs' ts' ss'. r = Some (hs', ts', ss') \<longrightarrow>
      handlers_from ngx_http_headers_more_set_handlers_out hs')"
  using assms(2)
proof (induction args arbitrary: ignore hs ts ss)
  case Nil
  then show ?case by simp
next
  case (Cons arg args)
  have "wp {} (conf_parse_header C ngx_http_headers_more_set_handlers_out opcode arg hs)
    (\<lambda>(rc, hs). wp {} (if rc \<noteq> NGX_OK then ret None else parse_args_out C opcode False args (hs, ts, ss))
      (\<lambda>r. \<forall>hs' ts' ss'. r = Some (hs', ts', ss') \<longrightarrow>
        handlers_from ngx_http_headers_more_set_handlers_out hs'))"
    by (rule wp_mono [OF conf_parse_header_ok [OF assms(1) out_table_ok Cons.prems]])
      (use Cons.IH in auto)
  then show ?case
    using Cons by (auto simp: Let_def case_prod_unfold split: list.split)
qed

lemma parse_args_in_ok:
  assumes "strncasecmp_spec (cf_strncasecmp C)"
    "handlers_from (ngx_http_headers_more_set_handlers_in gzip) hs"
  shows "wp {} (parse_args_in C gzip opcode ignore rep args (hs, ts))
    (\<lambda>r. \<forall>hs' ts' rep'. r = Some (hs', ts', rep') \<longrightarrow>
      handlers_from (ngx_http_headers_more_set_handlers_in gzip) hs')"
  using assms(2)
proof (induction args arbitrary: ignore rep hs ts)
  case Nil
  then show ?case by simp
next
  case (Cons arg args)
  have "wp {} (conf_parse_header C (ngx_http_headers_more_set_handlers_in gzip) opcode arg hs)
    (\<lambda>(rc, hs). wp {} (if rc \<noteq> NGX_OK then ret None else parse_args_in C gzip opcode False rep args (hs, ts))
      (\<lambda>r. \<forall>hs' ts' rep'. r = Some (hs', ts', rep') \<longrightarrow>
        handlers_from (ngx_http_headers_more_set_handlers_in gzip) hs'))"
    by (rule wp_mono [OF conf_parse_header_ok [OF assms(1) in_table_ok Cons.prems]])
      (use Cons.IH in auto)
  then show ?case
    using Cons by (auto simp: Let_def case_prod_unfold split: list.split)
qed

lemma or_null_Some [simp]: "(or_null xs = Some ys) = (xs = ys \<and> xs \<noteq> [])"
  by (auto simp: or_null_def)

text \<open>The arrays of commands that a sequence of directives makes.\<close>

inductive configured ::
  "'v conf_funs \<Rightarrow> bool \<Rightarrow> 'v ngx_http_headers_more_cmd_t list option \<Rightarrow> bool"
  for C :: "'v conf_funs" and gzip :: bool where
  none: "configured C gzip None"
| out: "configured C gzip cs \<Longrightarrow>
    ngx_http_headers_more_parse_directive_out C args opcode cs used = ret (Some (cs', used')) \<Longrightarrow>
    configured C gzip cs'"
| inp: "configured C gzip cs \<Longrightarrow>
    ngx_http_headers_more_parse_directive_in C gzip args opcode cs used = ret (Some (cs', used')) \<Longrightarrow>
    configured C gzip cs'"

lemma parse_directive_out_result:
  assumes "strncasecmp_spec (cf_strncasecmp C)"
    "ngx_http_headers_more_parse_directive_out C args opcode cs used = ret (Some (cs', used'))"
  obtains c where "cs' = Some ((case cs of None \<Rightarrow> [] | Some l \<Rightarrow> l) @ [c])" "cmd_ok gzip c"
    "\<not> is_input c" "used'"
proof -
  have "wp {} (parse_args_out C opcode False args ([], [], []))
    (\<lambda>r. \<forall>hs' ts' ss'. r = Some (hs', ts', ss') \<longrightarrow>
      handlers_from ngx_http_headers_more_set_handlers_out hs')"
    by (rule parse_args_out_ok [OF assms(1)]) (simp add: handlers_from_def)
  then obtain r where r: "parse_args_out C opcode False args ([], [], []) = ret r"
    "\<And>hs' ts' ss'. r = Some (hs', ts', ss') \<Longrightarrow> handlers_from ngx_http_headers_more_set_handlers_out hs'"
    by (auto simp: wp_no_fault)
  then obtain hs ts ss where "r = Some (hs, ts, ss)"
    using assms(2) by (cases r) (auto simp: ngx_http_headers_more_parse_directive_out_def split: if_splits)
  then show thesis
    using assms(2) r
    by (intro that [of "\<lparr>cmd_types = or_null ts, cmd_statuses = or_null ss, cmd_headers = or_null hs,
          is_input = False\<rparr>"])
      (auto simp: ngx_http_headers_more_parse_directive_out_def cmd_ok_def split: if_splits option.splits)
qed

lemma parse_directive_in_result:
  assumes "strncasecmp_spec (cf_strncasecmp C)"
    "ngx_http_headers_more_parse_directive_in C gzip args opcode cs used = ret (Some (cs', used'))"
  obtains c where "cs' = Some ((case cs of None \<Rightarrow> [] | Some l \<Rightarrow> l) @ [c])" "cmd_ok gzip c"
    "is_input c" "used'"
proof -
  obtain hs ts rep where r: "parse_args_in C gzip opcode False False args ([], []) = ret (Some (hs, ts, rep))"
    using assms(2) by (auto simp: ngx_http_headers_more_parse_directive_in_def bindO_def
        split: if_splits option.splits sum.splits)
  have "handlers_from (ngx_http_headers_more_set_handlers_in gzip) hs"
    using parse_args_in_ok [OF assms(1), of gzip "[]" opcode False False args "[]"] r
    by (simp add: handlers_from_def)
  with r show thesis
    using assms(2)
    by (intro that [of "\<lparr>cmd_types = or_null ts, cmd_statuses = None,
          cmd_headers = or_null (map (\<lambda>h. h\<lparr>hv_replace := rep\<rparr>) hs), is_input = True\<rparr>"])
      (auto simp: ngx_http_headers_more_parse_directive_in_def cmd_ok_def handlers_from_def list.pred_map
        o_def split: if_splits option.splits)
qed

lemma configured_ok:
  assumes "strncasecmp_spec (cf_strncasecmp C)" "configured C gzip cs" "cs = Some l"
  shows "list_all (cmd_ok gzip) l"
  using assms(2,3)
proof (induction arbitrary: l rule: configured.induct)
  case (out cs args opcode used cs' used')
  from parse_directive_out_result [OF assms(1) out.hyps(2)] obtain c where
    "cs' = Some ((case cs of None \<Rightarrow> [] | Some l \<Rightarrow> l) @ [c])" "cmd_ok gzip c" by metis
  then show ?case using out.IH out.prems by (cases cs) auto
next
  case (inp cs args opcode used cs' used')
  from parse_directive_in_result [OF assms(1) inp.hyps(2)] obtain c where
    "cs' = Some ((case cs of None \<Rightarrow> [] | Some l \<Rightarrow> l) @ [c])" "cmd_ok gzip c" by metis
  then show ?case using inp.IH inp.prems by (cases cs) auto
qed simp

section \<open>The filter is safe\<close>

lemma exec_cmd_safe:
  assumes "funs_ok F" "out_inv ro ps" "cmd_ok gzip c" "\<not> is_input c"
  shows "out_safe (ngx_http_headers_more_exec_cmd F eval c ro)"
proof (cases "cmd_headers c")
  case None
  then show ?thesis using assms(2) by (auto simp: ngx_http_headers_more_exec_cmd_def)
next
  case (Some hs)
  then have "out_safe (exec_headers_out F eval hs ro)"
    using assms(3,4) by (intro exec_headers_out_safe [OF assms(1,2)]) (simp add: cmd_ok_def handlers_from_def)
  then show ?thesis using Some assms(2) by (auto simp: ngx_http_headers_more_exec_cmd_def)
qed

lemma run_output_cmds_safe:
  assumes "funs_ok F" "out_inv ro ps" "list_all (cmd_ok gzip) cs"
  shows "out_safe (run_output_cmds F eval cs ro)"
  using assms(2,3)
proof (induction cs arbitrary: ro ps)
  case Nil
  then show ?case by auto
next
  case (Cons c cs)
  have ok: "cmd_ok gzip c" "list_all (cmd_ok gzip) cs" using Cons.prems(2) by simp_all
  show ?case
  proof (cases "is_input c")
    case True
    then show ?thesis using Cons.IH [OF Cons.prems(1) ok(2)] by simp
  next
    case False
    have "wp {} (ngx_http_headers_more_exec_cmd F eval c ro)
      (\<lambda>(rc, ro). out_safe (if rc \<noteq> NGX_OK then ret (rc, ro) else run_output_cmds F eval cs ro))"
    proof (rule wp_mono [OF exec_cmd_safe [OF assms(1) Cons.prems(1) ok(1) False, unfolded out_safe_def]])
      fix x :: "int \<times> ngx_http_headers_out"
      assume x: "case x of (rc, ro) \<Rightarrow> rc = NGX_OK \<longrightarrow> (\<exists>ps. out_inv ro ps)"
      obtain rc ro' where "x = (rc, ro')" by (meson surj_pair)
      then show "case x of (rc, ro) \<Rightarrow>
          out_safe (if rc \<noteq> NGX_OK then ret (rc, ro) else run_output_cmds F eval cs ro)"
        using x Cons.IH [OF _ ok(2)] by auto
    qed
    then show ?thesis using False by (simp add: out_safe_def case_prod_unfold)
  qed
qed

section \<open>Properties\<close>

text \<open>
  C5: the filter with commands that directives made. Neither a command nor its handlers fault: the
  value is an error code of a command, or what the next filter returns for the headers the commands
  left, whose list and pointers are still consistent.
\<close>

theorem headers_filter_safe:
  assumes "strncasecmp_spec (cf_strncasecmp C)" "funs_ok F" "configured C gzip cs" "out_inv ro ps"
  shows "\<exists>rc ro'. ngx_http_headers_more_filter F eval next_header_filter \<lparr>cmds = cs\<rparr> ro = ret (rc, ro') \<and>
    (run_output_cmds F eval (case cs of None \<Rightarrow> [] | Some l \<Rightarrow> l) ro = ret (rc, ro') \<and> rc \<noteq> NGX_OK \<or>
     run_output_cmds F eval (case cs of None \<Rightarrow> [] | Some l \<Rightarrow> l) ro = ret (NGX_OK, ro') \<and>
       rc = next_header_filter ro' \<and> (\<exists>ps'. out_inv ro' ps'))"
proof -
  define l where "l = (case cs of None \<Rightarrow> [] | Some l \<Rightarrow> l)"
  have "list_all (cmd_ok gzip) l" using configured_ok [OF assms(1,3)] by (cases cs) (auto simp: l_def)
  then have "out_safe (run_output_cmds F eval l ro)" by (rule run_output_cmds_safe [OF assms(2,4)])
  then obtain rc ro' where r: "run_output_cmds F eval l ro = ret (rc, ro')"
    "rc = NGX_OK \<longrightarrow> (\<exists>ps'. out_inv ro' ps')"
    by (auto simp: out_safe_def wp_no_fault)
  have "ngx_http_headers_more_filter F eval next_header_filter \<lparr>cmds = cs\<rparr> ro =
    (if rc \<noteq> NGX_OK then ret (rc, ro') else ret (next_header_filter ro', ro'))"
    using r(1) by (cases cs) (simp_all add: ngx_http_headers_more_filter_def l_def)
  then show ?thesis using r unfolding l_def by (cases "rc = NGX_OK") auto
qed

definition demo_conf_funs :: "string conf_funs" where
  "demo_conf_funs =
     \<lparr>cf_strncasecmp = strncasecmp_at, cf_hash_key_lc = length, cf_compile = Some, cf_zeroed = [],
      cf_create_cmds = True, cf_push_cmd = True, cf_create = (\<lambda>_. True), cf_push_header = (\<lambda>_. True),
      cf_palloc = (\<lambda>_. True), cf_push_type = (\<lambda>_. True), cf_push_status = (\<lambda>_. True),
      cf_new_hv = (\<lambda>_. demo_hv), cf_new_status = 0\<rparr>"

text \<open>The command of a directive with one argument \<open>key: value\<close>, for a key that has no entry.\<close>

definition header_cmd :: "string \<Rightarrow> nat \<Rightarrow> 'v \<Rightarrow> bool \<Rightarrow> 'v ngx_http_headers_more_cmd_t" where
  "header_cmd k hash c replace =
     \<lparr>cmd_types = None, cmd_statuses = None, cmd_headers = Some
         [\<lparr>hv_value = c, hv_hash = hash, hv_key = k, hv_handler = Some out_set_header, hv_offset = no_offset,
           hv_replace = replace, hv_wildcard = False\<rparr>],
       is_input = False\<rparr>"

lemma set_headers_directive:
  assumes "strncasecmp_spec (cf_strncasecmp C)"
    and "\<forall>e\<in>set (butlast ngx_http_headers_more_set_handlers_out). \<not> ci_eq k (sh_name e)"
    and "k \<noteq> []" "hd k \<noteq> CHR ''-''" "\<not> isspace_c (hd k)" "list_all (\<lambda>c. \<not> is_sep c) (tl k)"
    and "last k \<noteq> CHR ''*''" "v \<noteq> []" "\<not> is_sep (hd v)"
    and "cf_create_cmds C" "cf_push_cmd C" "cf_create C = (\<lambda>_. True)" "cf_push_header C 0" "cf_palloc C 0"
    and "cf_compile C (v @ [NUL]) = Some c"
  shows "ngx_http_headers_more_set_headers C [k @ '': '' @ v] None used =
    ret (Some (Some [header_cmd k (cf_hash_key_lc C k) c (hv_replace (cf_new_hv C 0))], True))"
proof -
  let ?t = ngx_http_headers_more_set_handlers_out
  have none: "filter (\<lambda>e. ci_eq k (sh_name e)) (butlast ?t) = []"
    using assms(2) by (simp only: filter_empty_conv)
  have e: "sh_handler (entry_for ?t k) = Some out_set_header" "sh_offset (entry_for ?t k) = no_offset"
    by (simp_all only: entry_for_def none list.case) (simp_all add: ngx_http_headers_more_set_handlers_out_def)
  have seps: "list_all is_sep '': ''" by (simp add: is_sep_def isspace_c_def)
  have "conf_parse_header C ?t ngx_http_headers_more_opcode_set (k @ '': '' @ v) [] =
    ret (NGX_OK, [\<lparr>hv_value = c, hv_hash = cf_hash_key_lc C k, hv_key = k, hv_handler = Some out_set_header,
      hv_offset = no_offset, hv_replace = hv_replace (cf_new_hv C 0), hv_wildcard = False\<rparr>])"
    using parse_header_parts [OF assms(1) out_table_ok, of "[]" k "'': ''" v k "cf_hash_key_lc C"
        "cf_compile C" "cf_zeroed C" "cf_new_hv C 0" "[]" ngx_http_headers_more_opcode_set]
      assms(3,5-9,13-15) seps e
    by (simp add: conf_parse_header_def)
  moreover have "(k @ '': '' @ v) ! 0 \<noteq> CHR ''-''"
    using assms(3,4) by (cases k) auto
  ultimately have "parse_args_out C ngx_http_headers_more_opcode_set False [k @ '': '' @ v] ([], [], []) =
    ret (Some ([\<lparr>hv_value = c, hv_hash = cf_hash_key_lc C k, hv_key = k, hv_handler = Some out_set_header,
      hv_offset = no_offset, hv_replace = hv_replace (cf_new_hv C 0), hv_wildcard = False\<rparr>], [], []))"
    using assms(3) by simp
  then show ?thesis
    using assms(10-12)
    by (simp add: ngx_http_headers_more_set_headers_def ngx_http_headers_more_parse_directive_out_def
        header_cmd_def or_null_def)
qed

lemma header_cmd_sent:
  assumes "funs_ok F" "out_inv ro ps" "NUL \<notin> set k" "v \<noteq> []" "hash \<noteq> 0"
    and "eval ro c = Some (v @ [NUL])"
  shows "wp {} (run_output_cmds F eval [header_cmd k hash c replace] ro)
    (\<lambda>(rc, ro'). rc = NGX_OK \<longrightarrow> (\<exists>ps'. out_inv ro' ps' \<and>
      map h_value (filter (named k) (sent (headers_of (out_headers ro') ps'))) = [v] \<and>
      filter (\<lambda>h. \<not> named k h) (sent (headers_of (out_headers ro') ps')) =
      filter (\<lambda>h. \<not> named k h) (sent (headers_of (out_headers ro) ps))))"
proof -
  define hv where "hv =
    \<lparr>hv_value = c, hv_hash = hash, hv_key = k, hv_handler = Some out_set_header, hv_offset = no_offset,
     hv_replace = replace, hv_wildcard = False\<rparr>"
  have "\<not> hv_wildcard hv" "NUL \<notin> set (hv_key hv)" "hv_hash hv \<noteq> 0"
    using assms(3,5) by (simp_all add: hv_def)
  note W = set_header_sent_ok [OF assms(1,2) this assms(4), unfolded wp_no_fault]
  have key: "hv_key hv = k" by (simp add: hv_def)
  obtain x where x: "ngx_http_set_header_out F hv v ro = ret x"
    "case x of (rc, ro') \<Rightarrow> rc = NGX_OK \<longrightarrow> (\<exists>ps'. out_inv ro' ps' \<and>
      map h_value (filter (named k) (sent (headers_of (out_headers ro') ps'))) = [v] \<and>
      filter (\<lambda>h. \<not> named k h) (sent (headers_of (out_headers ro') ps')) =
      filter (\<lambda>h. \<not> named k h) (sent (headers_of (out_headers ro) ps)))"
    by (rule exE [OF W [unfolded key]], erule conjE) (rule that)
  obtain rc ro' where "x = (rc, ro')" by (meson surj_pair)
  note r = x [unfolded this prod.case]
  have "out_handler F hv v ro = ret (rc, ro')" using r(1) by (simp add: out_handler_def hv_def)
  moreover have "eval ro (hv_value hv) = Some (v @ [NUL])" using assms(6) by (simp add: hv_def)
  ultimately have "exec_headers_out F eval [hv] ro = ret (if rc \<noteq> NGX_OK then NGX_ERROR else NGX_OK, ro')"
    by simp
  moreover have "header_cmd k hash c replace =
      \<lparr>cmd_types = None, cmd_statuses = None, cmd_headers = Some [hv], is_input = False\<rparr>"
    by (simp add: header_cmd_def hv_def)
  ultimately have "run_output_cmds F eval [header_cmd k hash c replace] ro =
      ret (if rc \<noteq> NGX_OK then NGX_ERROR else NGX_OK, ro')"
    by (simp add: ngx_http_headers_more_exec_cmd_def del: exec_headers_out.simps)
  moreover have "((if rc \<noteq> NGX_OK then NGX_ERROR else NGX_OK) = NGX_OK) = (rc = NGX_OK)"
    by simp
  ultimately show ?thesis using r(2) by (simp only: wp_base prod.case)
qed

section \<open>Properties of directives, configuration and handler\<close>

text \<open>
  C4: \<open>more_set_headers 'key: value'\<close>, from the directive to the response. For a key that has no
  entry of its own in the table of handlers (so not \<open>Server\<close> or \<open>Content-Type\<close>), and is no
  wildcard, the directive makes one command, and the filter with that command fails, or passes on
  headers among which exactly one with that name is sent, with the value, and all others as before.
  The parts \<open>ps'\<close> are those of the whole list of the response.
\<close>

theorem more_set_headers_sent:
  assumes "funs_ok F" "strncasecmp_spec (cf_strncasecmp C)" "out_inv ro ps"
    and "\<forall>e\<in>set (butlast ngx_http_headers_more_set_handlers_out). \<not> ci_eq k (sh_name e)"
    and "k \<noteq> []" "hd k \<noteq> CHR ''-''" "\<not> isspace_c (hd k)" "list_all (\<lambda>c. \<not> is_sep c) (tl k)"
    and "last k \<noteq> CHR ''*''" "NUL \<notin> set k" "v \<noteq> []" "\<not> is_sep (hd v)"
    and "cf_create_cmds C" "cf_push_cmd C" "cf_create C = (\<lambda>_. True)" "cf_push_header C 0" "cf_palloc C 0"
    and "cf_compile C (v @ [NUL]) = Some c" "eval ro c = Some (v @ [NUL])" "cf_hash_key_lc C k \<noteq> 0"
  shows "\<exists>cs. ngx_http_headers_more_set_headers C [k @ '': '' @ v] None used = ret (Some (Some cs, True)) \<and>
    wp {} (run_output_cmds F eval cs ro)
      (\<lambda>(rc, ro'). rc = NGX_OK \<longrightarrow>
        ngx_http_headers_more_filter F eval next_header_filter \<lparr>cmds = Some cs\<rparr> ro =
          ret (next_header_filter ro', ro') \<and>
        (\<exists>ps'. out_inv ro' ps' \<and> map h_value (filter (named k) (sent (headers_of (out_headers ro') ps'))) = [v] \<and>
          filter (\<lambda>h. \<not> named k h) (sent (headers_of (out_headers ro') ps')) =
          filter (\<lambda>h. \<not> named k h) (sent (headers_of (out_headers ro) ps))))"
proof -
  let ?cs = "[header_cmd k (cf_hash_key_lc C k) c (hv_replace (cf_new_hv C 0))]"
  note d = set_headers_directive [OF assms(2,4-9,11-18), of used]
  have self: "wp {} (run_output_cmds F eval ?cs ro) (\<lambda>x. run_output_cmds F eval ?cs ro = ret x)"
    if "wp {} (run_output_cmds F eval ?cs ro) Q" for Q
    using that by (rule wp_cases) simp_all
  note w = header_cmd_sent [where eval = eval and c = c and replace = "hv_replace (cf_new_hv C 0)",
      OF assms(1,3,10,11,20,19)]
  have "wp {} (run_output_cmds F eval ?cs ro)
      (\<lambda>(rc, ro'). rc = NGX_OK \<longrightarrow>
        ngx_http_headers_more_filter F eval next_header_filter \<lparr>cmds = Some ?cs\<rparr> ro =
          ret (next_header_filter ro', ro') \<and>
        (\<exists>ps'. out_inv ro' ps' \<and> map h_value (filter (named k) (sent (headers_of (out_headers ro') ps'))) = [v] \<and>
          filter (\<lambda>h. \<not> named k h) (sent (headers_of (out_headers ro') ps')) =
          filter (\<lambda>h. \<not> named k h) (sent (headers_of (out_headers ro) ps))))"
    (is "wp {} _ (\<lambda>(rc, ro'). rc = NGX_OK \<longrightarrow> _ ro' \<and> ?sent ro')")
  proof (rule wp_mono [OF wp_conj [OF w self [OF w]]])
    fix x :: "int \<times> ngx_http_headers_out"
    assume x: "(case x of (rc, ro') \<Rightarrow> rc = NGX_OK \<longrightarrow> ?sent ro') \<and> run_output_cmds F eval ?cs ro = ret x"
    obtain rc ro' where p: "x = (rc, ro')" by (meson surj_pair)
    have "rc = NGX_OK \<Longrightarrow> ngx_http_headers_more_filter F eval next_header_filter \<lparr>cmds = Some ?cs\<rparr> ro =
        ret (next_header_filter ro', ro')"
      using conjunct2 [OF x] by (simp add: ngx_http_headers_more_filter_def p del: run_output_cmds.simps)
    moreover have "rc = NGX_OK \<Longrightarrow> ?sent ro'" using conjunct1 [OF x] unfolding p prod.case by (rule mp)
    ultimately show "case x of (rc, ro') \<Rightarrow> rc = NGX_OK \<longrightarrow> ngx_http_headers_more_filter F eval next_header_filter
        \<lparr>cmds = Some ?cs\<rparr> ro = ret (next_header_filter ro', ro') \<and> ?sent ro'"
      unfolding p prod.case by (intro impI conjI)
  qed
  with d show ?thesis by blast
qed

lemma demo_key:
  "\<forall>e\<in>set (butlast ngx_http_headers_more_set_handlers_out). \<not> ci_eq ''X-C'' (sh_name e)"
  unfolding ngx_http_headers_more_set_handlers_out_def ci_eq_def by code_simp

theorem more_set_headers_sent_witness:
  "\<exists>cs. ngx_http_headers_more_set_headers demo_conf_funs [''X-C: v x''] None False = ret (Some (Some cs, True)) \<and>
    wp {} (run_output_cmds demo_funs (\<lambda>_. Some) cs demo_out)
      (\<lambda>(rc, ro'). rc = NGX_OK \<longrightarrow>
        ngx_http_headers_more_filter demo_funs (\<lambda>_. Some) (\<lambda>_. NGX_OK) \<lparr>cmds = Some cs\<rparr> demo_out =
          ret (NGX_OK, ro') \<and>
        (\<exists>ps'. out_inv ro' ps' \<and> map h_value (filter (named ''X-C'') (sent (headers_of (out_headers ro') ps'))) = [''v x''] \<and>
          filter (\<lambda>h. \<not> named ''X-C'' h) (sent (headers_of (out_headers ro') ps')) =
          filter (\<lambda>h. \<not> named ''X-C'' h) (sent (headers_of (out_headers demo_out) [0]))))"
  using more_set_headers_sent [OF demo_funs_ok _ demo_out_inv demo_key, of demo_conf_funs "''v x''"
      "''v x'' @ [NUL]" "\<lambda>_. Some" False "\<lambda>_. NGX_OK"]
  by (simp add: demo_conf_funs_def is_sep_def isspace_c_def)

lemma demo_configured:
  "configured demo_conf_funs False (Some [header_cmd ''X-C'' 3 (''v x'' @ [NUL]) False])"
proof -
  have "ngx_http_headers_more_set_headers demo_conf_funs [''X-C'' @ '': '' @ ''v x''] None False =
      ret (Some (Some [header_cmd ''X-C'' 3 (''v x'' @ [NUL]) False], True))"
    using set_headers_directive [OF _ demo_key, of demo_conf_funs "''v x''" "''v x'' @ [NUL]" False]
    by (simp add: demo_conf_funs_def is_sep_def isspace_c_def demo_hv_def numeral_3_eq_3)
  then show ?thesis
    unfolding ngx_http_headers_more_set_headers_def by (rule configured.out [OF configured.none])
qed

theorem headers_filter_safe_witness:
  "\<exists>rc ro'. ngx_http_headers_more_filter demo_funs (\<lambda>_. Some) (\<lambda>_. NGX_OK)
      \<lparr>cmds = Some [header_cmd ''X-C'' 3 (''v x'' @ [NUL]) False]\<rparr> demo_out = ret (rc, ro') \<and>
    (rc \<noteq> NGX_OK \<or> (\<exists>ps'. out_inv ro' ps'))"
  using headers_filter_safe [OF _ demo_funs_ok demo_configured demo_out_inv, of "\<lambda>_. Some" "\<lambda>_. NGX_OK"]
  by (simp add: demo_conf_funs_def del: run_output_cmds.simps) blast

section \<open>Merging\<close>

text \<open>Moving up: the last \<open>k\<close> of the first \<open>n\<close> elements still have to be stored.\<close>

lemma move_up_all:
  assumes "length cmd = m + n" "k \<le> n"
    and "\<And>j. j < k \<Longrightarrow> cmd ! j = cs ! j" "\<And>j. k \<le> j \<Longrightarrow> j < n \<Longrightarrow> cmd ! (m + j) = cs ! j"
  shows "\<exists>cmd'. move_up n k cmd = ret cmd' \<and> length cmd' = m + n \<and> (\<forall>j<n. cmd' ! (m + j) = cs ! j)"
  using assms
proof (induction k arbitrary: cmd)
  case 0
  then show ?case by simp
next
  case (Suc k)
  have i: "m + n - 1 - (n - Suc k) = m + k" "n - 1 - (n - Suc k) = k" using Suc.prems(2) by simp_all
  let ?cmd = "cmd[m + k := cs ! k]"
  have s: "move_up n (Suc k) cmd = move_up n k ?cmd"
    using Suc.prems(1,2) Suc.prems(3) [of k] by (simp add: store_at_def i)
  have "\<exists>cmd'. move_up n k ?cmd = ret cmd' \<and> length cmd' = m + n \<and> (\<forall>j<n. cmd' ! (m + j) = cs ! j)"
  proof (rule Suc.IH)
    show "length ?cmd = m + n" "k \<le> n" using Suc.prems(1,2) by simp_all
    show "?cmd ! j = cs ! j" if "j < k" for j using Suc.prems(3) [of j] that by simp
    show "?cmd ! (m + j) = cs ! j" if "k \<le> j" "j < n" for j
      using Suc.prems(1,2) Suc.prems(4) [of j] that by (cases "j = k") simp_all
  qed
  then show ?case by (simp only: s)
qed

lemma copy_front_all:
  assumes "i + length xs \<le> length cmd"
  shows "copy_front i xs cmd = ret (take i cmd @ xs @ drop (i + length xs) cmd)"
  using assms
proof (induction xs arbitrary: i cmd)
  case Nil
  then show ?case by simp
next
  case (Cons x xs)
  have "copy_front i (x # xs) cmd = copy_front (Suc i) xs (cmd[i := x])"
    using Cons.prems by (simp add: store_at_def)
  also have "\<dots> = ret (take (Suc i) (cmd[i := x]) @ xs @ drop (Suc i + length xs) (cmd[i := x]))"
    by (rule Cons.IH) (use Cons.prems in simp)
  also have "take (Suc i) (cmd[i := x]) = take i cmd @ [x]"
    using Cons.prems by (simp add: take_Suc_conv_app_nth)
  finally show ?case by simp
qed

lemma merge_loc_conf_append:
  assumes "push_n_spec push_n"
  shows "\<exists>conf'. ngx_http_headers_more_merge_loc_conf push_n prev conf = ret (NGX_CONF_OK, conf') \<and>
    (case cmds conf' of None \<Rightarrow> [] | Some l \<Rightarrow> l) =
    (case cmds prev of None \<Rightarrow> [] | Some l \<Rightarrow> l) @ (case cmds conf of None \<Rightarrow> [] | Some l \<Rightarrow> l)"
proof (cases "\<exists>ps cs. cmds prev = Some ps \<and> cmds conf = Some cs \<and> ps \<noteq> [] \<and> cs \<noteq> []")
  case False
  then show ?thesis
    by (cases "cmds conf"; cases "cmds prev") (auto simp: ngx_http_headers_more_merge_loc_conf_def)
next
  case True
  then obtain ps cs where c: "cmds prev = Some ps" "cmds conf = Some cs" "ps \<noteq> []" "cs \<noteq> []" by blast
  let ?cmd = "push_n cs (length ps)" and ?n = "length cs" and ?m = "length ps"
  have len: "length ?cmd = ?m + ?n" and tk: "take ?n ?cmd = cs"
    using assms unfolding push_n_spec_def by (simp_all add: add.commute)
  have nth: "?cmd ! j = cs ! j" if "j < ?n" for j using nth_take [OF that, of ?cmd] tk by simp
  obtain cmd where cmd: "move_up ?n ?n ?cmd = ret cmd" "length cmd = ?m + ?n" "\<And>j. j < ?n \<Longrightarrow> cmd ! (?m + j) = cs ! j"
    using move_up_all [OF len order_refl, of cs] nth by auto
  have "drop ?m cmd = cs" by (rule nth_equalityI) (use cmd(2,3) in simp_all)
  then have "copy_front 0 ps cmd = ret (ps @ cs)" using copy_front_all [of 0 ps cmd] cmd(2) by simp
  then show ?thesis using c cmd(1) by (simp add: ngx_http_headers_more_merge_loc_conf_def)
qed

text \<open>
  C24: merging a location with the one around it. The commands of the outer location stand before
  those of the inner one, both in their order; an outer location without commands adds none.
\<close>

theorem merge_loc_conf_order:
  assumes "push_n_spec push_n"
  shows "\<exists>conf'. ngx_http_headers_more_merge_loc_conf push_n prev conf = ret (NGX_CONF_OK, conf') \<and>
    (case cmds conf' of None \<Rightarrow> [] | Some l \<Rightarrow> l) =
    (case cmds prev of None \<Rightarrow> [] | Some l \<Rightarrow> l) @ (case cmds conf of None \<Rightarrow> [] | Some l \<Rightarrow> l)"
  by (rule merge_loc_conf_append [OF assms])

definition push_n_demo :: "string ngx_http_headers_more_cmd_t list \<Rightarrow> nat \<Rightarrow> string ngx_http_headers_more_cmd_t list" where
  "push_n_demo xs n = xs @ replicate n (header_cmd ''junk'' 0 [] False)"

theorem merge_loc_conf_order_witness:
  "\<exists>conf'. ngx_http_headers_more_merge_loc_conf push_n_demo
      \<lparr>cmds = Some [header_cmd ''A'' 1 [] False]\<rparr> \<lparr>cmds = Some [header_cmd ''B'' 1 [] False]\<rparr> =
      ret (NGX_CONF_OK, conf') \<and>
    cmds conf' = Some [header_cmd ''A'' 1 [] False, header_cmd ''B'' 1 [] False]"
proof -
  have "push_n_spec push_n_demo" by (simp add: push_n_spec_def push_n_demo_def)
  from merge_loc_conf_order [OF this, of "\<lparr>cmds = Some [header_cmd ''A'' 1 [] False]\<rparr>"
      "\<lparr>cmds = Some [header_cmd ''B'' 1 [] False]\<rparr>"]
  show ?thesis by (auto split: option.splits)
qed

text \<open>
  C33: the commands of a location are well typed. Whatever directives of the outer and of the inner
  location made, after the merge every command has handlers of the table of its kind, so that no call
  through \<open>h[i].handler\<close> goes to a null pointer or to a function for the other kind; no array of a
  command is empty, and only commands for responses have statuses.
\<close>

theorem merged_commands_typed:
  assumes "strncasecmp_spec (cf_strncasecmp C)" "push_n_spec push_n"
    and "configured C gzip (cmds prev)" "configured C gzip (cmds conf)"
    and "ngx_http_headers_more_merge_loc_conf push_n prev conf = ret (rc, conf')"
  shows "list_all (cmd_ok gzip) (case cmds conf' of None \<Rightarrow> [] | Some l \<Rightarrow> l)"
proof -
  have ok: "list_all (cmd_ok gzip) (case cmds x of None \<Rightarrow> [] | Some l \<Rightarrow> l)" if "configured C gzip (cmds x)" for x
    using configured_ok [OF assms(1) that] by (cases "cmds x") auto
  show ?thesis
    using merge_loc_conf_append [OF assms(2), of prev conf] ok [OF assms(3)] ok [OF assms(4)] assms(5) by auto
qed

theorem merged_commands_typed_witness:
  "\<exists>conf'. ngx_http_headers_more_merge_loc_conf push_n_demo
      \<lparr>cmds = Some [header_cmd ''X-C'' 3 (''v x'' @ [NUL]) False]\<rparr>
      \<lparr>cmds = Some [header_cmd ''X-C'' 3 (''v x'' @ [NUL]) False]\<rparr> = ret (NGX_CONF_OK, conf') \<and>
    length (the (cmds conf')) = 2 \<and> list_all (cmd_ok False) (the (cmds conf'))"
proof -
  let ?c = "\<lparr>cmds = Some [header_cmd ''X-C'' 3 (''v x'' @ [NUL]) False]\<rparr>"
  have spec: "push_n_spec push_n_demo" by (simp add: push_n_spec_def push_n_demo_def)
  then obtain conf' where c: "ngx_http_headers_more_merge_loc_conf push_n_demo ?c ?c = ret (NGX_CONF_OK, conf')"
    "(case cmds conf' of None \<Rightarrow> [] | Some l \<Rightarrow> l) = [header_cmd ''X-C'' 3 (''v x'' @ [NUL]) False, header_cmd ''X-C'' 3 (''v x'' @ [NUL]) False]"
    using merge_loc_conf_append [of push_n_demo ?c ?c] by auto
  have "list_all (cmd_ok False) (case cmds conf' of None \<Rightarrow> [] | Some l \<Rightarrow> l)"
    by (rule merged_commands_typed [where C = demo_conf_funs, OF _ spec _ _ c(1)])
      (simp_all add: demo_configured [simplified], simp add: demo_conf_funs_def)
  with c show ?thesis by (cases "cmds conf'") simp_all
qed

text \<open>
  Merging without memory. The result of \<open>ngx_array_push_n\<close> is not checked; when the array of the
  inner location could not grow, the commands of the outer one overwrite those of the inner one,
  and where the outer location has more, memory behind the array.
\<close>

lemma merge_loc_conf_no_memory:
  assumes "cmds prev = Some ps" "cmds conf = Some cs" "ps \<noteq> []" "cs \<noteq> []"
  shows "ngx_http_headers_more_merge_loc_conf (\<lambda>xs n. xs) prev conf =
    (if length ps \<le> length cs then ret (NGX_CONF_OK, conf\<lparr>cmds := Some (ps @ drop (length ps) cs)\<rparr>)
     else fail OutOfBounds)"
proof -
  have same: "move_up n k cs = ret cs" if "n = length cs" "k \<le> n" for n k
    using that
  proof (induction k)
    case (Suc k)
    then show ?case by (simp add: store_at_def)
  qed simp
  have over: "copy_front i xs cmd = fail OutOfBounds" if "i \<le> length cmd" "length cmd < i + length xs" for i xs and cmd :: "'a ngx_http_headers_more_cmd_t list"
    using that
  proof (induction xs arbitrary: i cmd)
    case (Cons x xs)
    then show ?case by (auto simp: store_at_def)
  qed simp
  show ?thesis
    using assms same [OF refl order_refl] copy_front_all [of 0 ps cs] over [of 0 cs ps]
    by (simp add: ngx_http_headers_more_merge_loc_conf_def)
qed

lemma merge_loc_conf_no_memory_witness:
  "ngx_http_headers_more_merge_loc_conf (\<lambda>xs n. xs)
      \<lparr>cmds = Some [header_cmd ''A'' 1 ''a'' False, header_cmd ''C'' 1 ''c'' False]\<rparr>
      \<lparr>cmds = Some [header_cmd ''B'' 1 ''b'' False]\<rparr> = fail OutOfBounds"
  by (subst merge_loc_conf_no_memory [OF ngx_http_headers_more_loc_conf_t.select_convs(1)
        ngx_http_headers_more_loc_conf_t.select_convs(1)]) simp_all

section \<open>The handler in its phase\<close>

text \<open>
  C25: the handler at its first request. Where other entries of the phase stand behind it, it puts
  itself behind them, in the order they had, leaves the rest of the engine and the headers of the
  request as they are, and declines with the index of the request one lower, so that the engine
  goes on with the entry that has come to its place. Later calls find the flag set and run the
  commands.
\<close>

theorem handler_moves_to_end:
  assumes "\<not> postponed_to_phase_end (main_conf s)"
    and "engine s = pre @ me # others @ post" "phase_handler s = int (length pre)"
    and "ph_next me = length pre + 1 + length others"
  shows "ngx_http_headers_more_handler F eval conf s =
    (if others = []
     then ngx_http_headers_more_handler F eval conf (s\<lparr>main_conf := \<lparr>postponed_to_phase_end = True\<rparr>\<rparr>)
     else ret (NGX_DECLINED,
       s\<lparr>main_conf := \<lparr>postponed_to_phase_end = True\<rparr>, engine := pre @ others @ me # post,
         phase_handler := int (length pre) - 1\<rparr>))"
proof -
  have m: "(main_conf s)\<lparr>postponed_to_phase_end := True\<rparr> = \<lparr>postponed_to_phase_end = True\<rparr>"
    by (cases "main_conf s") simp
  show ?thesis
  proof (cases others)
    case Nil
    then show ?thesis
      using assms unfolding ngx_http_headers_more_handler_def Let_def m by (simp add: nth_append)
  next
    case (Cons o1 os)
    have "rotate_phase (length pre) (length pre + length others) (engine s) =
      ret (pre @ others @ me # post)"
      using assms(2) by (simp add: rotate_phase_def nth_append)
    then show ?thesis
      using assms Cons unfolding ngx_http_headers_more_handler_def Let_def m by (simp add: nth_append)
  qed
qed

theorem handler_moves_to_end_witness:
  "ngx_http_headers_more_handler demo_in_funs (\<lambda>_ s. Some s) \<lparr>cmds = None\<rparr>
      \<lparr>engine = [\<lparr>ph_handler = ''more'', ph_next = 2\<rparr>, \<lparr>ph_handler = ''rewrite'', ph_next = 2\<rparr>],
       main_conf = \<lparr>postponed_to_phase_end = False\<rparr>, phase_handler = 0, request = demo_in\<rparr> =
    ret (NGX_DECLINED,
      \<lparr>engine = [\<lparr>ph_handler = ''rewrite'', ph_next = 2\<rparr>, \<lparr>ph_handler = ''more'', ph_next = 2\<rparr>],
       main_conf = \<lparr>postponed_to_phase_end = True\<rparr>, phase_handler = -1, request = demo_in\<rparr>)"
  by (subst handler_moves_to_end [where pre = "[]" and post = "[]" and me = "\<lparr>ph_handler = ''more'', ph_next = 2\<rparr>"
        and others = "[\<lparr>ph_handler = ''rewrite'', ph_next = 2\<rparr>]"]) simp_all

end
