(* ===== verification/Ngx_Module.thy ===== *)
theory Ngx_Module
  imports Ngx_Core
begin

text \<open>
  What a module tells nginx about itself: the table of its directives and its record of functions,
  as data. nginx reads them; how it does, as far as the modules rely on it, is below: a
  directive of a table is called where its flags allow it, on the configuration of the block it
  stands in, and the configuration of a location is made by merging those of the blocks around it.
\<close>

section \<open>Tables and records\<close>

datatype ngx_conf_flag =
  NGX_HTTP_MAIN_CONF | NGX_HTTP_SRV_CONF | NGX_HTTP_LOC_CONF | NGX_HTTP_LIF_CONF
  | NGX_CONF_FLAG | NGX_CONF_TAKE1 | NGX_CONF_1MORE

datatype ngx_conf_offset = NGX_HTTP_MAIN_CONF_OFFSET | NGX_HTTP_LOC_CONF_OFFSET

text \<open>
  A directive: its name, where it may stand and how many arguments it takes, the function that is
  called for it (already applied to the offset and the data behind it), and which
  configuration it is called on.
\<close>

record 'set ngx_command_t =
  dir_name :: string
  dir_type :: "ngx_conf_flag list"
  dir_set :: 'set
  dir_conf :: ngx_conf_offset

record ('pre, 'post, 'create_main, 'create_loc, 'merge_loc) ngx_http_module_t =
  preconfiguration :: "'pre option"
  postconfiguration :: "'post option"
  create_main_conf :: "'create_main option"
  init_main_conf :: "unit option"
  create_srv_conf :: "unit option"
  merge_srv_conf :: "unit option"
  create_loc_conf :: "'create_loc option"
  merge_loc_conf :: "'merge_loc option"

datatype ngx_module_type = NGX_CORE_MODULE | NGX_HTTP_MODULE

record ('ctx, 'set) ngx_module_t =
  mod_ctx :: 'ctx
  mod_commands :: "'set ngx_command_t list"
  mod_type :: ngx_module_type
  mod_init_master :: "unit option"
  mod_init_module :: "unit option"
  mod_init_process :: "unit option"
  mod_init_thread :: "unit option"
  mod_exit_thread :: "unit option"
  mod_exit_process :: "unit option"
  mod_exit_master :: "unit option"

definition http_module :: "'ctx \<Rightarrow> 'set ngx_command_t list \<Rightarrow> ('ctx, 'set) ngx_module_t" where
  "http_module ctx commands =
     \<lparr>mod_ctx = ctx, mod_commands = commands, mod_type = NGX_HTTP_MODULE, mod_init_master = None,
      mod_init_module = None, mod_init_process = None, mod_init_thread = None, mod_exit_thread = None,
      mod_exit_process = None, mod_exit_master = None\<rparr>"

lemma http_module_sel [simp]:
  "mod_ctx (http_module ctx commands) = ctx"  "mod_commands (http_module ctx commands) = commands"
  by (simp_all add: http_module_def)

section \<open>Calls of directives\<close>

text \<open>The number of arguments that a directive is called with.\<close>

definition dir_args_ok :: "ngx_conf_flag list \<Rightarrow> string list \<Rightarrow> bool" where
  "dir_args_ok ty args =
     (if NGX_CONF_FLAG \<in> set ty then length args = 1
      else if NGX_CONF_1MORE \<in> set ty then args \<noteq> []
      else NGX_CONF_TAKE1 \<in> set ty \<and> length args = 1)"

type_synonym 'c conf_setter = "string list \<Rightarrow> 'c \<Rightarrow> 'c option"

type_synonym 'c dir_call = "'c conf_setter ngx_command_t \<times> string list"

definition call_directive :: "ngx_conf_flag \<Rightarrow> 'c dir_call \<Rightarrow> 'c \<Rightarrow> 'c option" where
  "call_directive place call c =
     (if place \<in> set (dir_type (fst call)) \<and> dir_args_ok (dir_type (fst call)) (snd call)
      then dir_set (fst call) (snd call) c else None)"

fun run_calls :: "ngx_conf_flag \<Rightarrow> 'c dir_call list \<Rightarrow> 'c \<Rightarrow> 'c option" where
  "run_calls place [] c = Some c"
| "run_calls place (call # calls) c = Option.bind (call_directive place call c) (run_calls place calls)"

text \<open>
  The blocks around a location, from the outermost to the location itself. The reading of a
  configuration gives one, or ends with an error (\<open>ret None\<close>), as for a null pointer, or with a fault:
  a configuration at the pointer \<open>NGX_CONF_ERROR\<close> is used by its directives or, at the latest, when it
  is merged.
\<close>

type_synonym 'c conf_block = "ngx_conf_flag \<times> 'c dir_call list"

definition bindC :: "'c option outcome \<Rightarrow> ('c \<Rightarrow> 'd option outcome) \<Rightarrow> 'd option outcome" where
  "bindC m k = bindO m (\<lambda>r. case r of None \<Rightarrow> ret None | Some c \<Rightarrow> k c)"

lemma bindC_Some: "(bindC m k = ret (Some d)) = (\<exists>c. m = ret (Some c) \<and> k c = ret (Some d))"
  by (auto simp: bindC_def bindO_def split: option.splits sum.splits)

definition read_block :: "'c conf_ptr \<Rightarrow> 'c conf_block \<Rightarrow> 'c option outcome" where
  "read_block create block =
     (case create of
        conf_null \<Rightarrow> ret None
      | conf_invalid \<Rightarrow> fail InvalidPointer
      | conf_at c \<Rightarrow> ret (run_calls (fst block) (snd block) c))"

lemma read_block_Some:
  "(read_block create b = ret (Some d)) = (\<exists>c. create = conf_at c \<and> run_calls (fst b) (snd b) c = Some d)"
  by (auto simp: read_block_def split: conf_ptr.splits)

fun merge_blocks ::
  "'c conf_ptr \<Rightarrow> ('c \<Rightarrow> 'c \<Rightarrow> 'c option) \<Rightarrow> 'c \<Rightarrow> 'c conf_block list \<Rightarrow> 'c option outcome" where
  "merge_blocks create merge prev [] = ret (Some prev)"
| "merge_blocks create merge prev (b # bs) =
     bindC (read_block create b) (\<lambda>c. bindC (ret (merge prev c)) (\<lambda>c. merge_blocks create merge c bs))"

definition location_conf ::
  "'c conf_ptr \<Rightarrow> ('c \<Rightarrow> 'c \<Rightarrow> 'c option) \<Rightarrow> 'c conf_block \<Rightarrow> 'c conf_block list \<Rightarrow> 'c option outcome" where
  "location_conf create merge outer inner =
     bindC (read_block create outer) (\<lambda>c. merge_blocks create merge c inner)"

text \<open>A field that the merge leaves alone is that of the location itself.\<close>

lemma merge_blocks_own:
  assumes "\<And>prev c c'. merge prev c = Some c' \<Longrightarrow> f c' = f c"
    and "merge_blocks create merge prev bs = ret (Some c)" "bs \<noteq> []"
  obtains c0 where "read_block create (last bs) = ret (Some c0)" "f c = f c0"
  using assms(2,3)
proof (induction bs arbitrary: prev thesis)
  case Nil
  then show ?case by simp
next
  case (Cons b bs)
  from Cons.prems(2) obtain c1 c2 where s: "read_block create b = ret (Some c1)" "merge prev c1 = Some c2"
    "merge_blocks create merge c2 bs = ret (Some c)"
    by (auto simp: bindC_Some)
  show ?case
  proof (cases "bs = []")
    case True
    then show ?thesis using Cons.prems(1) [of c1] s assms(1) by simp
  next
    case False
    then show ?thesis using Cons.IH [OF _ s(3) False] Cons.prems(1) by auto
  qed
qed

text \<open>With the functions that a module record names; a result other than \<open>NGX_CONF_OK\<close> ends the reading.\<close>

definition conf_result :: "conf_rc \<times> 'c \<Rightarrow> 'c option" where
  "conf_result rc = (if fst rc = NGX_CONF_OK then Some (snd rc) else None)"

lemma conf_result_simps [simp]:
  "conf_result (NGX_CONF_OK, c) = Some c"  "conf_result (NGX_CONF_ERROR, c) = None"
  by (simp_all add: conf_result_def)

definition module_conf ::
  "(('pre, 'post, 'm, 'c conf_ptr, 'c \<Rightarrow> 'c \<Rightarrow> 'c option) ngx_http_module_t, 'c conf_setter) ngx_module_t \<Rightarrow>
   'c conf_block \<Rightarrow> 'c conf_block list \<Rightarrow> 'c option outcome" where
  "module_conf m =
     location_conf (the (create_loc_conf (mod_ctx m))) (the (merge_loc_conf (mod_ctx m)))"

section \<open>Flags that locations inherit\<close>

text \<open>
  \<open>ngx_conf_set_flag_slot\<close>: a flag is set once in a block, by \<open>on\<close> or \<open>off\<close> in any case. The
  parameter \<open>flag_slot\<close> gets the argument and the value of the field.
\<close>

definition flag_of :: "string \<Rightarrow> int" where
  "flag_of arg = (if ci_eq arg ''on'' then 1 else 0)"

definition flag_slot_spec :: "(string \<Rightarrow> int \<Rightarrow> int option) \<Rightarrow> bool" where
  "flag_slot_spec flag_slot =
     (\<forall>arg old. flag_slot arg old =
        (if old \<noteq> NGX_CONF_UNSET then None
         else if ci_eq arg ''on'' then Some 1 else if ci_eq arg ''off'' then Some 0 else None))"

definition set_flag_at ::
  "(string \<Rightarrow> int \<Rightarrow> int option) \<Rightarrow> ('c \<Rightarrow> int) \<Rightarrow> (int \<Rightarrow> 'c \<Rightarrow> 'c) \<Rightarrow> 'c conf_setter" where
  "set_flag_at flag_slot get put args c = map_option (\<lambda>v. put v c) (flag_slot (hd args) (get c))"

lemma set_flag_at_Some:
  assumes "flag_slot_spec fs" "set_flag_at fs get put args c = Some c'"
  shows "get c = NGX_CONF_UNSET" "c' = put (flag_of (hd args)) c"
  using assms by (auto simp: flag_slot_spec_def set_flag_at_def flag_of_def split: if_splits)

text \<open>The values that the directives of a name give, in the order of the calls.\<close>

definition flags_in :: "string \<Rightarrow> 'c dir_call list \<Rightarrow> int list" where
  "flags_in n calls = map (\<lambda>call. flag_of (hd (snd call))) (filter (\<lambda>call. dir_name (fst call) = n) calls)"

lemma flags_in_simps [simp]:
  "flags_in n [] = []"
  "flags_in n (call # calls) =
     (if dir_name (fst call) = n then flag_of (hd (snd call)) # flags_in n calls else flags_in n calls)"
  "flags_in n (calls @ calls') = flags_in n calls @ flags_in n calls'"
  by (simp_all add: flags_in_def)

lemma flags_in_set: "v \<in> set (flags_in n calls) \<Longrightarrow> v \<noteq> NGX_CONF_UNSET"
  by (auto simp: flags_in_def flag_of_def)

text \<open>
  What a location should get: the value of the innermost block around it that gives one, and off
  where none does.
\<close>

definition innermost :: "string \<Rightarrow> 'c conf_block list \<Rightarrow> int" where
  "innermost n blocks =
     (let vs = flags_in n (concat (map snd blocks)) in if vs = [] then 0 else last vs)"

definition calls_of :: "'c conf_block list \<Rightarrow> 'c conf_setter ngx_command_t set" where
  "calls_of blocks = fst ` set (concat (map snd blocks))"

text \<open>
  The contract of a flag: the configuration is made with the flag unset, of the directives of the
  table just one writes it, with \<open>flag_slot\<close>, and the merge takes an unset one from the outer block.
  \<open>env_ok\<close> is what is assumed of the functions of nginx in \<open>e\<close>.
\<close>

record conf_env =
  env_pcalloc :: bool
  env_flag_slot :: "string \<Rightarrow> int \<Rightarrow> int option"
  env_merge_value :: "int \<Rightarrow> int \<Rightarrow> int \<Rightarrow> int"

definition conf_env_ok :: "'e conf_env_scheme \<Rightarrow> bool" where
  "conf_env_ok e = (flag_slot_spec (env_flag_slot e) \<and> merge_value_spec (env_merge_value e) NGX_CONF_UNSET)"

locale inherited_flag =
  fixes env_ok :: "'e \<Rightarrow> bool"
    and table :: "'e \<Rightarrow> 'c conf_setter ngx_command_t list"
    and create :: "'e \<Rightarrow> 'c conf_ptr"
    and merge :: "'e \<Rightarrow> 'c \<Rightarrow> 'c \<Rightarrow> 'c option"
    and flag :: "'c \<Rightarrow> int"
    and dir :: string
  assumes created: "env_ok e \<Longrightarrow> create e = conf_at c \<Longrightarrow> flag c = NGX_CONF_UNSET"
    and own: "env_ok e \<Longrightarrow> d \<in> set (table e) \<Longrightarrow> dir_name d = dir \<Longrightarrow> dir_set d args c = Some c' \<Longrightarrow>
      flag c = NGX_CONF_UNSET \<and> flag c' = flag_of (hd args)"
    and other: "env_ok e \<Longrightarrow> d \<in> set (table e) \<Longrightarrow> dir_name d \<noteq> dir \<Longrightarrow> dir_set d args c = Some c' \<Longrightarrow>
      flag c' = flag c"
    and merged: "env_ok e \<Longrightarrow> merge e prev c = Some c' \<Longrightarrow>
      flag c' = (if flag c = NGX_CONF_UNSET then if flag prev = NGX_CONF_UNSET then 0 else flag prev else flag c)"
begin

lemma run_calls_flag:
  assumes "env_ok e" "fst ` set calls \<subseteq> set (table e)" "run_calls place calls c = Some c'"
  shows "flags_in dir calls = [] \<and> flag c' = flag c \<or>
    (\<exists>v. flags_in dir calls = [v] \<and> flag c = NGX_CONF_UNSET \<and> flag c' = v)"
  using assms(2,3)
proof (induction calls arbitrary: c)
  case Nil
  then show ?case by simp
next
  case (Cons call calls)
  then obtain c1 where c1: "dir_set (fst call) (snd call) c = Some c1" "run_calls place calls c1 = Some c'"
    by (auto simp: call_directive_def bind_eq_Some_conv split: if_splits)
  have d: "fst call \<in> set (table e)" using Cons.prems(1) by simp
  note IH = Cons.IH [OF _ c1(2)]
  show ?case
  proof (cases "dir_name (fst call) = dir")
    case True
    then have "flag c = NGX_CONF_UNSET" "flag c1 = flag_of (hd (snd call))"
      using own [OF assms(1) d True c1(1)] by simp_all
    then show ?thesis using IH Cons.prems(1) True by (auto simp: flag_of_def split: if_splits)
  next
    case False
    then show ?thesis using other [OF assms(1) d False c1(1)] IH Cons.prems(1) by simp
  qed
qed

lemma read_block_flag:
  assumes "env_ok e" "fst ` set (snd b) \<subseteq> set (table e)" "read_block (create e) b = ret (Some c)"
  shows "flag c = (if flags_in dir (snd b) = [] then NGX_CONF_UNSET else last (flags_in dir (snd b)))"
  using assms created [OF assms(1)] run_calls_flag [OF assms(1,2)]
  by (fastforce simp: read_block_Some)

lemma merge_blocks_flag:
  assumes "env_ok e" "calls_of bs \<subseteq> set (table e)" "merge_blocks (create e) (merge e) prev bs = ret (Some c)" "bs \<noteq> []"
  shows "flag c = (let vs = flags_in dir (concat (map snd bs)) in
    if vs \<noteq> [] then last vs else if flag prev = NGX_CONF_UNSET then 0 else flag prev)"
  using assms(2-4)
proof (induction bs arbitrary: prev)
  case Nil
  then show ?case by simp
next
  case (Cons b bs)
  let ?vs = "flags_in dir (snd b)"
  from Cons.prems(2) obtain c1 c2 where s: "read_block (create e) b = ret (Some c1)"
    "merge e prev c1 = Some c2" "merge_blocks (create e) (merge e) c2 bs = ret (Some c)"
    by (auto simp: bindC_Some)
  have d: "fst ` set (snd b) \<subseteq> set (table e)" "calls_of bs \<subseteq> set (table e)"
    using Cons.prems(1) by (auto simp: calls_of_def image_Un)
  have v: "?vs \<noteq> [] \<Longrightarrow> last ?vs \<noteq> NGX_CONF_UNSET" using flags_in_set [of "last ?vs" dir "snd b"] by auto
  have c2: "flag c2 = (if ?vs \<noteq> [] then last ?vs else if flag prev = NGX_CONF_UNSET then 0 else flag prev)"
    using merged [OF assms(1) s(2)] read_block_flag [OF assms(1) d(1) s(1)] v by auto
  then have "flag c2 \<noteq> NGX_CONF_UNSET" using v by auto
  then show ?case
    using Cons.IH [OF d(2) s(3)] s(3) c2 v by (cases "bs = []") (auto simp: Let_def)
qed

lemma inherited:
  assumes "env_ok e" "calls_of (outer # inner) \<subseteq> set (table e)"
    and "location_conf (create e) (merge e) outer inner = ret (Some c)" "inner \<noteq> []"
  shows "flag c = innermost dir (outer # inner)"
proof -
  let ?vs = "flags_in dir (snd outer)"
  from assms(3) obtain c1 where s: "read_block (create e) outer = ret (Some c1)"
    "merge_blocks (create e) (merge e) c1 inner = ret (Some c)"
    by (auto simp: location_conf_def bindC_Some)
  have d: "fst ` set (snd outer) \<subseteq> set (table e)" "calls_of inner \<subseteq> set (table e)"
    using assms(2) by (auto simp: calls_of_def image_Un)
  have v: "?vs \<noteq> [] \<Longrightarrow> last ?vs \<noteq> NGX_CONF_UNSET" using flags_in_set [of "last ?vs" dir "snd outer"] by auto
  show ?thesis
    using merge_blocks_flag [OF assms(1) d(2) s(2) assms(4)] read_block_flag [OF assms(1) d(1) s(1)] v
    by (auto simp: innermost_def Let_def)
qed

text \<open>For a module whose record names these functions.\<close>

lemma module_flag:
  assumes "env_ok e" "mod_commands m = table e" "create_loc_conf (mod_ctx m) = Some (create e)"
    and "merge_loc_conf (mod_ctx m) = Some (merge e)"
    and "calls_of (outer # inner) \<subseteq> set (mod_commands m)" "inner \<noteq> []" "module_conf m outer inner = ret (Some c)"
  shows "flag c = innermost dir (outer # inner)"
  using inherited [OF assms(1) _ _ assms(6)] assms(2-5,7) by (simp add: module_conf_def)

end

end
