(* ===== verification/Headers_Config.thy ===== *)
theory Headers_Config
  imports Ngx_Module Headers_Filter
begin

text \<open>
  The directive table and the module record of \<open>mod_headers_more\<close>, and what the reading of a configuration
  leaves: the commands of every location, the two flags that say which kinds of commands there are,
  and the filter and the handler that \<open>post_config\<close> installs by these flags.
\<close>

section \<open>The table and the record\<close>

text \<open>
  A directive works on the configuration of its location and the flags of the module; it may fault
  like the parser of headers.
\<close>

type_synonym 'v headers_setter =
  "string list \<Rightarrow> 'v ngx_http_headers_more_loc_conf_t \<times> headers_more_flags \<Rightarrow>
   ('v ngx_http_headers_more_loc_conf_t \<times> headers_more_flags) option outcome"

definition output_slot ::
  "(string list \<Rightarrow> 'v ngx_http_headers_more_cmd_t list option \<Rightarrow> bool \<Rightarrow>
    ('v ngx_http_headers_more_cmd_t list option \<times> bool) option outcome) \<Rightarrow> 'v headers_setter" where
  "output_slot f args s =
     bindO (f args (cmds (fst s)) (ngx_http_headers_more_filter_used (snd s))) (\<lambda>r.
       ret (map_option (\<lambda>(cs, used).
         ((fst s)\<lparr>cmds := cs\<rparr>, (snd s)\<lparr>ngx_http_headers_more_filter_used := used\<rparr>)) r))"

definition input_slot ::
  "(string list \<Rightarrow> 'v ngx_http_headers_more_cmd_t list option \<Rightarrow> bool \<Rightarrow>
    ('v ngx_http_headers_more_cmd_t list option \<times> bool) option outcome) \<Rightarrow> 'v headers_setter" where
  "input_slot f args s =
     bindO (f args (cmds (fst s)) (ngx_http_headers_more_handler_used (snd s))) (\<lambda>r.
       ret (map_option (\<lambda>(cs, used).
         ((fst s)\<lparr>cmds := cs\<rparr>, (snd s)\<lparr>ngx_http_headers_more_handler_used := used\<rparr>)) r))"

definition ngx_http_headers_more_filter_commands ::
  "'v conf_funs \<Rightarrow> bool \<Rightarrow> 'v headers_setter ngx_command_t list" where
  "ngx_http_headers_more_filter_commands C gzip =
     [\<lparr>dir_name = ''more_set_headers'',
       dir_type = [NGX_HTTP_MAIN_CONF, NGX_HTTP_SRV_CONF, NGX_HTTP_LOC_CONF, NGX_HTTP_LIF_CONF, NGX_CONF_1MORE],
       dir_set = output_slot (ngx_http_headers_more_set_headers C),
       dir_conf = NGX_HTTP_LOC_CONF_OFFSET\<rparr>,
      \<lparr>dir_name = ''more_clear_headers'',
       dir_type = [NGX_HTTP_MAIN_CONF, NGX_HTTP_SRV_CONF, NGX_HTTP_LOC_CONF, NGX_HTTP_LIF_CONF, NGX_CONF_1MORE],
       dir_set = output_slot (ngx_http_headers_more_clear_headers C),
       dir_conf = NGX_HTTP_LOC_CONF_OFFSET\<rparr>,
      \<lparr>dir_name = ''more_set_input_headers'',
       dir_type = [NGX_HTTP_MAIN_CONF, NGX_HTTP_SRV_CONF, NGX_HTTP_LOC_CONF, NGX_HTTP_LIF_CONF, NGX_CONF_1MORE],
       dir_set = input_slot (ngx_http_headers_more_set_input_headers C gzip),
       dir_conf = NGX_HTTP_LOC_CONF_OFFSET\<rparr>,
      \<lparr>dir_name = ''more_clear_input_headers'',
       dir_type = [NGX_HTTP_MAIN_CONF, NGX_HTTP_SRV_CONF, NGX_HTTP_LOC_CONF, NGX_HTTP_LIF_CONF, NGX_CONF_1MORE],
       dir_set = input_slot (ngx_http_headers_more_clear_input_headers C gzip),
       dir_conf = NGX_HTTP_LOC_CONF_OFFSET\<rparr>]"

text \<open>\<open>push_n\<close> is \<open>ngx_array_push_n\<close>, \<open>push\<close> whether the array of handlers can grow.\<close>

definition ngx_http_headers_more_filter_module_ctx where
  "ngx_http_headers_more_filter_module_ctx pcalloc push_n push header_filter handler =
     \<lparr>preconfiguration = Some ngx_http_headers_more_pre_config,
      postconfiguration = Some (ngx_http_headers_more_post_config push header_filter handler),
      create_main_conf = Some (ngx_http_headers_more_create_main_conf pcalloc), init_main_conf = None,
      create_srv_conf = None, merge_srv_conf = None,
      create_loc_conf = Some (ngx_http_headers_more_create_loc_conf pcalloc),
      merge_loc_conf = Some (ngx_http_headers_more_merge_loc_conf push_n)\<rparr>"

definition ngx_http_headers_more_filter_module ::
  "'v conf_funs \<Rightarrow> bool \<Rightarrow> bool \<Rightarrow>
   ('v ngx_http_headers_more_cmd_t list \<Rightarrow> nat \<Rightarrow> 'v ngx_http_headers_more_cmd_t list) \<Rightarrow> bool \<Rightarrow> 'hf \<Rightarrow> 'ph \<Rightarrow>
   ((headers_more_flags \<Rightarrow> int \<times> headers_more_flags,
     headers_more_flags \<Rightarrow> ('hf, 'bf) ngx_filter_chains \<Rightarrow> 'ph list \<Rightarrow> int \<times> ('hf, 'bf) ngx_filter_chains \<times> 'ph list,
     ngx_http_headers_more_main_conf_t option, 'v ngx_http_headers_more_loc_conf_t option,
     'v ngx_http_headers_more_loc_conf_t \<Rightarrow> 'v ngx_http_headers_more_loc_conf_t \<Rightarrow>
       (conf_rc \<times> 'v ngx_http_headers_more_loc_conf_t) outcome) ngx_http_module_t,
    'v headers_setter) ngx_module_t" where
  "ngx_http_headers_more_filter_module C gzip pcalloc push_n push header_filter handler =
     http_module (ngx_http_headers_more_filter_module_ctx pcalloc push_n push header_filter handler)
       (ngx_http_headers_more_filter_commands C gzip)"

section \<open>Reading a configuration\<close>

text \<open>
  nginx calls \<open>preconfiguration\<close>, then for each location \<open>create_loc_conf\<close> and, in the order in which they
  stand in the file, the directives; \<open>L\<close> maps the locations to their configurations. Afterwards the
  configuration of a location is merged with that of the block around it, from the outside to the
  inside, and \<open>postconfiguration\<close> is called at last.
\<close>

inductive headers_read ::
  "((headers_more_flags \<Rightarrow> int \<times> headers_more_flags, 'post, 'm, 'v ngx_http_headers_more_loc_conf_t option, 'merge)
     ngx_http_module_t, 'v headers_setter) ngx_module_t \<Rightarrow>
   ('l \<Rightarrow> 'v ngx_http_headers_more_loc_conf_t) \<Rightarrow> headers_more_flags \<Rightarrow> bool" for m where
  start: "the (preconfiguration (mod_ctx m)) g0 = (NGX_OK, g) \<Longrightarrow>
    the (create_loc_conf (mod_ctx m)) = Some c \<Longrightarrow> headers_read m (\<lambda>_. c) g"
| directive: "headers_read m L g \<Longrightarrow> d \<in> set (mod_commands m) \<Longrightarrow> dir_args_ok (dir_type d) args \<Longrightarrow>
    dir_set d args (L l, g) = ret (Some (c, g')) \<Longrightarrow> headers_read m (L(l := c)) g'"

inductive headers_merged ::
  "(('pre, 'post, 'm, 'create,
      'v ngx_http_headers_more_loc_conf_t \<Rightarrow> 'v ngx_http_headers_more_loc_conf_t \<Rightarrow>
      (conf_rc \<times> 'v ngx_http_headers_more_loc_conf_t) outcome) ngx_http_module_t, 'v headers_setter) ngx_module_t \<Rightarrow>
   ('l \<Rightarrow> 'v ngx_http_headers_more_loc_conf_t) \<Rightarrow> 'v ngx_http_headers_more_loc_conf_t \<Rightarrow> bool" for m L where
  outermost: "headers_merged m L (L l)"
| inner: "headers_merged m L prev \<Longrightarrow>
    the (merge_loc_conf (mod_ctx m)) prev (L l) = ret (rc, conf) \<Longrightarrow> headers_merged m L conf"

definition cmds_of :: "'v ngx_http_headers_more_loc_conf_t \<Rightarrow> 'v ngx_http_headers_more_cmd_t list" where
  "cmds_of conf = (case cmds conf of None \<Rightarrow> [] | Some cs \<Rightarrow> cs)"

section \<open>The flags count the commands\<close>

lemma output_slot_result:
  assumes "strncasecmp_spec (cf_strncasecmp C)"
    "f = ngx_http_headers_more_set_headers C \<or> f = ngx_http_headers_more_clear_headers C"
    "output_slot f args (conf, g) = ret (Some (conf', g'))"
  obtains c where "cmds_of conf' = cmds_of conf @ [c]" "\<not> is_input c"
    "g' = g\<lparr>ngx_http_headers_more_filter_used := True\<rparr>"
proof -
  obtain cs used opcode where r: "ngx_http_headers_more_parse_directive_out C args opcode (cmds conf)
      (ngx_http_headers_more_filter_used g) = ret (Some (cs, used))"
    "conf' = conf\<lparr>cmds := cs\<rparr>" "g' = g\<lparr>ngx_http_headers_more_filter_used := used\<rparr>"
    using assms(2,3) by (auto simp: output_slot_def ngx_http_headers_more_set_headers_def
        ngx_http_headers_more_clear_headers_def bindO_def split: option.splits sum.splits)
  from parse_directive_out_result [OF assms(1) r(1), of False] obtain c where
    "cs = Some ((case cmds conf of None \<Rightarrow> [] | Some l \<Rightarrow> l) @ [c])" "\<not> is_input c" used by metis
  with r show thesis by (intro that [of c]) (simp_all add: cmds_of_def)
qed

lemma input_slot_result:
  assumes "strncasecmp_spec (cf_strncasecmp C)"
    "f = ngx_http_headers_more_set_input_headers C gzip \<or> f = ngx_http_headers_more_clear_input_headers C gzip"
    "input_slot f args (conf, g) = ret (Some (conf', g'))"
  obtains c where "cmds_of conf' = cmds_of conf @ [c]" "is_input c"
    "g' = g\<lparr>ngx_http_headers_more_handler_used := True\<rparr>"
proof -
  obtain cs used opcode where r: "ngx_http_headers_more_parse_directive_in C gzip args opcode (cmds conf)
      (ngx_http_headers_more_handler_used g) = ret (Some (cs, used))"
    "conf' = conf\<lparr>cmds := cs\<rparr>" "g' = g\<lparr>ngx_http_headers_more_handler_used := used\<rparr>"
    using assms(2,3) by (auto simp: input_slot_def ngx_http_headers_more_set_input_headers_def
        ngx_http_headers_more_clear_input_headers_def bindO_def split: option.splits sum.splits)
  from parse_directive_in_result [OF assms(1) r(1)] obtain c where
    "cs = Some ((case cmds conf of None \<Rightarrow> [] | Some l \<Rightarrow> l) @ [c])" "is_input c" used by metis
  with r show thesis by (intro that [of c]) (simp_all add: cmds_of_def)
qed

text \<open>The commands that stand in some location.\<close>

definition all_cmds :: "('l \<Rightarrow> 'v ngx_http_headers_more_loc_conf_t) \<Rightarrow> 'v ngx_http_headers_more_cmd_t set" where
  "all_cmds L = (\<Union>l. set (cmds_of (L l)))"

lemma all_cmds_upd:
  "cmds_of c = cmds_of (L l) @ [x] \<Longrightarrow> all_cmds (L(l := c)) = insert x (all_cmds L)"
  by (fastforce simp: all_cmds_def split: if_splits)

lemma flags_count:
  assumes "strncasecmp_spec (cf_strncasecmp C)"
    "headers_read (ngx_http_headers_more_filter_module C gzip pcalloc push_n push hf ph) L g"
  shows "ngx_http_headers_more_filter_used g = (\<exists>c\<in>all_cmds L. \<not> is_input c)"
    "ngx_http_headers_more_handler_used g = (\<exists>c\<in>all_cmds L. is_input c)"
proof -
  let ?ok = "\<lambda>L g. ngx_http_headers_more_filter_used g = (\<exists>c\<in>all_cmds L. \<not> is_input c) \<and>
    ngx_http_headers_more_handler_used g = (\<exists>c\<in>all_cmds L. is_input c)"
  have "?ok L g" using assms(2)
  proof (induction rule: headers_read.induct)
    case (start g0 g c)
    then show ?case
      by (auto simp: ngx_http_headers_more_filter_module_def ngx_http_headers_more_filter_module_ctx_def
          ngx_http_headers_more_pre_config_def ngx_http_headers_more_create_loc_conf_def all_cmds_def cmds_of_def
          split: if_splits)
  next
    case (directive L g d args l c g')
    let ?out = "\<lambda>f. f = ngx_http_headers_more_set_headers C \<or> f = ngx_http_headers_more_clear_headers C"
    let ?in = "\<lambda>f. f = ngx_http_headers_more_set_input_headers C gzip \<or> f = ngx_http_headers_more_clear_input_headers C gzip"
    consider (out) f where "dir_set d = output_slot f" "?out f" | (inp) f where "dir_set d = input_slot f" "?in f"
      using directive.hyps(2)
      by (auto simp: ngx_http_headers_more_filter_module_def ngx_http_headers_more_filter_commands_def)
    then show ?case
    proof cases
      case out
      from output_slot_result [OF assms(1) out(2) directive.hyps(4) [unfolded out(1)]] obtain x where
        "cmds_of c = cmds_of (L l) @ [x]" "\<not> is_input x" "g' = g\<lparr>ngx_http_headers_more_filter_used := True\<rparr>" .
      then show ?thesis using directive.IH by (simp add: all_cmds_upd del: fun_upd_apply)
    next
      case inp
      from input_slot_result [OF assms(1) inp(2) directive.hyps(4) [unfolded inp(1)]] obtain x where
        "cmds_of c = cmds_of (L l) @ [x]" "is_input x" "g' = g\<lparr>ngx_http_headers_more_handler_used := True\<rparr>" .
      then show ?thesis using directive.IH by (simp add: all_cmds_upd del: fun_upd_apply)
    qed
  qed
  then show "ngx_http_headers_more_filter_used g = (\<exists>c\<in>all_cmds L. \<not> is_input c)"
    "ngx_http_headers_more_handler_used g = (\<exists>c\<in>all_cmds L. is_input c)" by simp_all
qed

lemma merged_cmds:
  assumes "push_n_spec push_n"
    "headers_merged (ngx_http_headers_more_filter_module C gzip pcalloc push_n push hf ph) L conf"
  shows "set (cmds_of conf) \<subseteq> all_cmds L"
  using assms(2)
proof (induction rule: headers_merged.induct)
  case (outermost l)
  then show ?case by (auto simp: all_cmds_def)
next
  case (inner prev l rc conf)
  then have "cmds_of conf = cmds_of prev @ cmds_of (L l)"
    using merge_loc_conf_append [OF assms(1), of prev "L l"]
    by (auto simp: ngx_http_headers_more_filter_module_def ngx_http_headers_more_filter_module_ctx_def cmds_of_def)
  then show ?case using inner.IH by (auto simp: all_cmds_def)
qed

section \<open>Installation by need\<close>

lemma run_output_none: "\<forall>c\<in>set cs. is_input c \<Longrightarrow> run_output_cmds F eval cs ro = ret (NGX_OK, ro)"
  by (induction cs) simp_all

lemma run_input_none: "\<forall>c\<in>set cs. \<not> is_input c \<Longrightarrow> run_input_cmds F eval cs r = ret (NGX_OK, r)"
  by (induction cs) simp_all

text \<open>
  C22: the filter and the handler are installed only where they are needed, and no request
  can tell. After a configuration was read and merged, \<open>post_config\<close> puts the filter at the head of the
  header filters exactly if some location has a command for responses; if none has, the filter would
  in every location only have called the next one with the headers as they are. It puts the
  handler into the rewrite phase exactly if some location has a command for requests, or returns an error
  when it cannot; if none has, the handler would have left every request as it is.
\<close>

theorem installed_by_need:
  fixes L :: "'l \<Rightarrow> 'v ngx_http_headers_more_loc_conf_t"
  assumes m: "m = ngx_http_headers_more_filter_module C gzip pcalloc push_n push hf ph"
    and "strncasecmp_spec (cf_strncasecmp C)" "push_n_spec push_n"
    and "headers_read m L g" "headers_merged m L conf"
    and "the (postconfiguration (mod_ctx m)) g tops handlers = (rc, tops', handlers')"
  shows "(if \<exists>l. \<exists>c\<in>set (cmds_of (L l)). \<not> is_input c
      then ngx_http_top_header_filter tops' = hf \<and>
        ngx_http_next_header_filter tops' = ngx_http_top_header_filter tops
      else tops' = tops \<and>
        ngx_http_headers_more_filter F eval_out next_header_filter conf ro = ret (next_header_filter ro, ro)) \<and>
    (if \<exists>l. \<exists>c\<in>set (cmds_of (L l)). is_input c
      then (rc, handlers') = (if push then (NGX_OK, handlers @ [ph]) else (NGX_ERROR, handlers))
      else (rc, handlers') = (NGX_OK, handlers) \<and>
        (case cmds conf of None \<Rightarrow> ret (NGX_OK, r) | Some cs \<Rightarrow> run_input_cmds F eval_in cs r) = ret (NGX_OK, r))"
proof -
  have flags: "ngx_http_headers_more_filter_used g = (\<exists>l. \<exists>c\<in>set (cmds_of (L l)). \<not> is_input c)"
    "ngx_http_headers_more_handler_used g = (\<exists>l. \<exists>c\<in>set (cmds_of (L l)). is_input c)"
    using flags_count [OF assms(2) assms(4) [unfolded m]] by (simp_all add: all_cmds_def)
  have post: "ngx_http_headers_more_post_config push hf ph g tops handlers = (rc, tops', handlers')"
    using assms(6) by (simp add: m ngx_http_headers_more_filter_module_def ngx_http_headers_more_filter_module_ctx_def)
  have conf: "set (cmds_of conf) \<subseteq> all_cmds L"
    by (rule merged_cmds [OF assms(3) assms(5) [unfolded m]])
  have out: "ngx_http_headers_more_filter F eval_out next_header_filter conf ro = ret (next_header_filter ro, ro)"
    if "\<not> ngx_http_headers_more_filter_used g"
    using that conf run_output_none [of "cmds_of conf" F eval_out ro] unfolding flags
    by (cases "cmds conf") (fastforce simp: ngx_http_headers_more_filter_def cmds_of_def all_cmds_def)+
  have inp: "(case cmds conf of None \<Rightarrow> ret (NGX_OK, r) | Some cs \<Rightarrow> run_input_cmds F eval_in cs r) = ret (NGX_OK, r)"
    if "\<not> ngx_http_headers_more_handler_used g"
    using that conf run_input_none [of "cmds_of conf" F eval_in r] unfolding flags
    by (cases "cmds conf") (fastforce simp: cmds_of_def all_cmds_def)+
  show ?thesis
    unfolding flags [symmetric] using post out inp
    by (auto simp: ngx_http_headers_more_post_config_def ngx_http_headers_more_filter_init_def Let_def split: if_splits)
qed

text \<open>A configuration with one location and one directive \<open>more_set_headers 'X-C: v x'\<close>.\<close>

definition demo_tops :: "(string, unit) ngx_filter_chains" where
  "demo_tops =
     \<lparr>ngx_http_top_header_filter = ''write'', ngx_http_top_body_filter = (), ngx_http_next_header_filter = [],
      ngx_http_next_body_filter = ()\<rparr>"

definition demo_headers_module ::
  "((headers_more_flags \<Rightarrow> int \<times> headers_more_flags,
     headers_more_flags \<Rightarrow> (string, unit) ngx_filter_chains \<Rightarrow> string list \<Rightarrow>
       int \<times> (string, unit) ngx_filter_chains \<times> string list,
     ngx_http_headers_more_main_conf_t option, string ngx_http_headers_more_loc_conf_t option,
     string ngx_http_headers_more_loc_conf_t \<Rightarrow> string ngx_http_headers_more_loc_conf_t \<Rightarrow>
       (conf_rc \<times> string ngx_http_headers_more_loc_conf_t) outcome) ngx_http_module_t,
    string headers_setter) ngx_module_t" where
  "demo_headers_module =
     ngx_http_headers_more_filter_module demo_conf_funs False True push_n_demo True ''more'' ''more''"

definition demo_location :: "string ngx_http_headers_more_loc_conf_t" where
  "demo_location = \<lparr>cmds = Some [header_cmd ''X-C'' 3 (''v x'' @ [NUL]) False]\<rparr>"

lemma demo_headers_read:
  "headers_read demo_headers_module (\<lambda>_ :: unit. demo_location)
     \<lparr>ngx_http_headers_more_handler_used = False, ngx_http_headers_more_filter_used = True\<rparr>"
proof -
  let ?g = "\<lambda>f. \<lparr>ngx_http_headers_more_handler_used = False, ngx_http_headers_more_filter_used = f\<rparr>"
  let ?d = "hd (mod_commands demo_headers_module)"
  have "headers_read demo_headers_module (\<lambda>_. \<lparr>cmds = None\<rparr>) (?g False)"
    by (rule headers_read.start) (simp_all add: demo_headers_module_def ngx_http_headers_more_filter_module_def
        ngx_http_headers_more_filter_module_ctx_def ngx_http_headers_more_pre_config_def
        ngx_http_headers_more_create_loc_conf_def)
  moreover have "?d \<in> set (mod_commands demo_headers_module)" "dir_args_ok (dir_type ?d) [''X-C: v x'']"
    by (simp_all add: demo_headers_module_def ngx_http_headers_more_filter_module_def
        ngx_http_headers_more_filter_commands_def dir_args_ok_def)
  moreover have "dir_set ?d [''X-C: v x''] (\<lparr>cmds = None\<rparr>, ?g False) = ret (Some (demo_location, ?g True))"
    using set_headers_directive [OF _ demo_key, of demo_conf_funs "''v x''" "''v x'' @ [NUL]" False]
    by (simp add: demo_conf_funs_def is_sep_def isspace_c_def demo_hv_def numeral_3_eq_3 demo_headers_module_def
        ngx_http_headers_more_filter_module_def ngx_http_headers_more_filter_commands_def output_slot_def demo_location_def)
  ultimately have "headers_read demo_headers_module ((\<lambda>_. \<lparr>cmds = None\<rparr>)(() := demo_location)) (?g True)"
    by (rule headers_read.directive)
  moreover have "(\<lambda>_. \<lparr>cmds = None\<rparr>)(() := demo_location) = (\<lambda>_. demo_location)" by (rule ext) simp
  ultimately show ?thesis by simp
qed

theorem installed_by_need_witness:
  "\<exists>rc tops' handlers'.
    the (postconfiguration (mod_ctx demo_headers_module))
      \<lparr>ngx_http_headers_more_handler_used = False, ngx_http_headers_more_filter_used = True\<rparr>
      demo_tops [''rewrite''] = (rc, tops', handlers') \<and>
    ngx_http_top_header_filter tops' = ''more'' \<and> ngx_http_next_header_filter tops' = ''write'' \<and>
    (rc, handlers') = (NGX_OK, [''rewrite''])"
proof -
  obtain rc tops' handlers' where post: "the (postconfiguration (mod_ctx demo_headers_module))
      \<lparr>ngx_http_headers_more_handler_used = False, ngx_http_headers_more_filter_used = True\<rparr>
      demo_tops [''rewrite''] = (rc, tops', handlers')"
    by (metis prod_cases3)
  have "strncasecmp_spec (cf_strncasecmp demo_conf_funs)" "push_n_spec push_n_demo"
    by (simp_all add: demo_conf_funs_def push_n_spec_def push_n_demo_def)
  from installed_by_need [OF demo_headers_module_def this demo_headers_read headers_merged.outermost post] post
  show ?thesis by (simp add: demo_location_def cmds_of_def header_cmd_def demo_tops_def)
qed

end
