(* ===== verification/Capcache.thy ===== *)
theory Capcache
  imports Ngx_Core
begin

text \<open>
  The capcache module, \<open>src/modules/mod_capcache/ngx_capcache_module.c\<close>: for a response it writes a
  cache file with a fixed body into the cache of the proxy module. The functions of nginx's file
  cache are parameters; using a null pointer, or the pointer of an unset configuration value, is a
  fault. \<open>disk\<close> keeps what was renamed into the cache.
\<close>

section \<open>Configuration\<close>

record ngx_path =
  path_name :: string
  path_len :: nat

text \<open>A zone of shared memory; its data, the file cache, has a path, or is null before it is set up.\<close>

datatype shm_zone =
    unset_zone
  | null_zone
  | zone (zone_data: "ngx_path option")

record ngx_capcache_loc_conf =
  capcache_enable :: int
  conf_cache :: shm_zone

text \<open>Without memory the pointer is \<open>NGX_CONF_ERROR\<close>.\<close>

definition ngx_capcache_create_loc_conf :: "bool \<Rightarrow> ngx_capcache_loc_conf conf_ptr" where
  "ngx_capcache_create_loc_conf pcalloc =
     (if \<not> pcalloc then conf_invalid else conf_at \<lparr>capcache_enable = NGX_CONF_UNSET, conf_cache = unset_zone\<rparr>)"

definition ngx_capcache_merge_loc_conf ::
  "(int \<Rightarrow> int \<Rightarrow> int \<Rightarrow> int) \<Rightarrow> ngx_capcache_loc_conf \<Rightarrow> ngx_capcache_loc_conf \<Rightarrow>
   conf_rc \<times> ngx_capcache_loc_conf" where
  "ngx_capcache_merge_loc_conf merge_value prev conf =
     (NGX_CONF_OK, conf\<lparr>capcache_enable := merge_value (capcache_enable conf) (capcache_enable prev) 0\<rparr>)"

text \<open>
  The result of the directive: \<open>NGX_CONF_OK\<close>, \<open>NGX_CONF_ERROR\<close> or a message. \<open>shared_memory_add\<close> is
  nginx's; \<open>handler\<close> is the handler of the location.
\<close>

datatype slot_rc = slot_ok | slot_error | slot_message string

definition ngx_capcache_path_conf_slot ::
  "(string \<Rightarrow> shm_zone) \<Rightarrow> string \<Rightarrow> ngx_capcache_loc_conf \<Rightarrow> 'h option \<Rightarrow>
   slot_rc \<times> ngx_capcache_loc_conf \<times> 'h option" where
  "ngx_capcache_path_conf_slot shared_memory_add value cclcf handler =
     (if conf_cache cclcf \<noteq> unset_zone then (slot_message ''shm cache is exist'', cclcf, handler)
      else if c_prefix (length value) value = ''off'' then (slot_ok, cclcf\<lparr>conf_cache := null_zone\<rparr>, handler)
      else
        (let cclcf = cclcf\<lparr>conf_cache := shared_memory_add value\<rparr> in
         if conf_cache cclcf = null_zone then (slot_error, cclcf, handler) else (slot_ok, cclcf, None)))"

section \<open>Requests\<close>

text \<open>\<open>file_name\<close> is the length and the data of \<open>c->file.name\<close>.\<close>

record ngx_http_cache =
  file_name :: "nat \<times> string option"
  header_start :: nat
  key :: string
  valid_sec :: int
  file_cache :: "ngx_path option"
  updated :: bool
  updating :: bool

record ngx_capcache_ctx =
  http_status :: int
  is_cached :: bool

record ngx_capcache_request = ngx_http_request +
  has_upstream :: bool
  cache :: "ngx_http_cache option"
  cap_ctx :: "ngx_capcache_ctx option"
  cleanup :: bool
  disk :: "(string option \<times> string) list"

text \<open>
  What the module calls. \<open>file_cache_new\<close> gives the new cache object or fails, \<open>set_header\<close> the bytes
  it writes into the buffer, \<open>write_temp\<close> the name of the temporary file or an error, \<open>junk\<close> is what
  fresh memory holds.
\<close>

record capcache_funs =
  pcalloc :: "nat \<Rightarrow> bool"
  pnalloc :: "nat \<Rightarrow> bool"
  junk :: "nat \<Rightarrow> char"
  file_cache_new :: "ngx_http_cache option"
  create_key :: "ngx_http_cache \<Rightarrow> int \<times> ngx_http_cache"
  file_cache_create_key :: "ngx_http_cache \<Rightarrow> ngx_http_cache"
  ngx_time :: int
  set_header :: "ngx_http_cache \<Rightarrow> string"
  write_temp :: "string \<Rightarrow> string option"
  hex_dump :: "string \<Rightarrow> string"
  create_hashed_filename :: "ngx_path \<Rightarrow> nat \<Rightarrow> string \<Rightarrow> string"
  ext_rename_file :: "string \<Rightarrow> string option \<Rightarrow> int"
  pool_cleanup_add :: bool

section \<open>The header filter\<close>

text \<open>
  \<open>http_cache\<close> is the macro \<open>NGX_HTTP_CACHE\<close>: with it, the upstream of the request is read, whether or
  not the request has one.
\<close>

definition ngx_capcache_header_filter ::
  "bool \<Rightarrow> bool \<Rightarrow> (ngx_capcache_request \<Rightarrow> int \<times> ngx_capcache_request) \<Rightarrow> ngx_capcache_loc_conf \<Rightarrow>
   ngx_capcache_request \<Rightarrow> (int \<times> ngx_capcache_request) outcome" where
  "ngx_capcache_header_filter http_cache alloc next_header_filter conf r =
     (if http_cache \<and> \<not> has_upstream r then fail NullPointer
      else if status r \<noteq> 304 \<and> status r \<noteq> 200 then ret (next_header_filter r)
      else if capcache_enable conf = 0 then ret (next_header_filter r)
      else if \<not> alloc then ret (NGX_ERROR, r)
      else ret (next_header_filter
             (r\<lparr>cap_ctx := Some \<lparr>http_status = status r, is_cached = False\<rparr>\<rparr>)))"

section \<open>The name of the file\<close>

abbreviation NGX_HTTP_CACHE_KEY_LEN :: nat where "NGX_HTTP_CACHE_KEY_LEN \<equiv> 16"

definition put_at :: "nat \<Rightarrow> string \<Rightarrow> string \<Rightarrow> string outcome" where
  "put_at i s buf =
     (if i + length s \<le> length buf then ret (take i buf @ s @ drop (i + length s) buf) else fail OutOfBounds)"

definition ngx_http_file_cache_name_my ::
  "capcache_funs \<Rightarrow> ngx_path \<Rightarrow> ngx_http_cache \<Rightarrow> (int \<times> ngx_http_cache) outcome" where
  "ngx_http_file_cache_name_my W path c =
     (if fst (file_name c) \<noteq> 0 then ret (NGX_OK, c)
      else
        (let n = length (path_name path) + 1 + path_len path + 2 * NGX_HTTP_CACHE_KEY_LEN in
         if \<not> pnalloc W (n + 1) then ret (NGX_ERROR, c\<lparr>file_name := (n, None)\<rparr>)
         else
           (let hex = hex_dump W (key c); p = length (path_name path) + 1 + path_len path in
            bindO (seq [put_at 0 (path_name path), put_at p hex, put_at (p + length hex) [NUL]]
                    (map (junk W) [0..<n + 1]))
              (\<lambda>data. ret (NGX_OK, c\<lparr>file_name := (n, Some (create_hashed_filename W path n data))\<rparr>)))))"

section \<open>The body filter\<close>

definition ngx_capcache_body :: string where
  "ngx_capcache_body = ''<CAPCACHE>'' @ [NL]"

text \<open>The cache object of the request: the one it has, or a new one. \<open>Inl\<close> is \<open>goto out\<close>.\<close>

definition capcache_object ::
  "capcache_funs \<Rightarrow> ngx_capcache_loc_conf \<Rightarrow> ngx_capcache_request \<Rightarrow>
   (ngx_capcache_request + ngx_capcache_request \<times> ngx_http_cache) outcome" where
  "capcache_object W conf r =
     (case cache r of
        Some c \<Rightarrow> ret (Inr (r, c))
      | None \<Rightarrow>
          (case file_cache_new W of
             None \<Rightarrow> ret (Inl r)
           | Some c \<Rightarrow>
               if \<not> has_upstream r then fail NullPointer
               else
                 (let (rc, c) = create_key W c; r = r\<lparr>cache := Some c\<rparr> in
                  if rc \<noteq> NGX_OK then ret (Inl r)
                  else
                    (case conf_cache conf of
                       zone d \<Rightarrow>
                         (let c = (file_cache_create_key W c)\<lparr>file_cache := d\<rparr>
                          in ret (Inr (r\<lparr>cache := Some c\<rparr>, c)))
                     | null_zone \<Rightarrow> fail NullPointer
                     | unset_zone \<Rightarrow> fail InvalidPointer))))"

text \<open>The content of the file: the header as nginx writes it, then the fixed body.\<close>

definition capcache_content :: "capcache_funs \<Rightarrow> ngx_http_cache \<Rightarrow> string outcome" where
  "capcache_content W c =
     seq [put_at 0 (set_header W c), put_at (header_start c) ngx_capcache_body]
       (replicate (header_start c + length ngx_capcache_body) NUL)"

text \<open>
  From the buffer to the end. The results of making the name and of renaming the file are not
  looked at.
\<close>

definition capcache_store ::
  "capcache_funs \<Rightarrow> ngx_capcache_request \<Rightarrow> ngx_capcache_ctx \<Rightarrow> ngx_http_cache \<Rightarrow> ngx_capcache_request outcome" where
  "capcache_store W r ctx c =
     (if \<not> pcalloc W (header_start c + length ngx_capcache_body) then ret r
      else
        (let c = c\<lparr>valid_sec := ngx_time W - 1\<rparr>; r = r\<lparr>cache := Some c\<rparr> in
         bindO (capcache_content W c) (\<lambda>content.
           if \<not> has_upstream r then fail NullPointer
           else
             (case write_temp W content of
                None \<Rightarrow> ret r
              | Some tmp \<Rightarrow>
                  (case file_cache c of
                     None \<Rightarrow> fail NullPointer
                   | Some path \<Rightarrow>
                       bindO (ngx_http_file_cache_name_my W path c) (\<lambda>(rc, c).
                         let r = r\<lparr>cache := Some c\<rparr>;
                             r = (if ext_rename_file W tmp (snd (file_name c)) = NGX_OK
                                  then r\<lparr>disk := disk r @ [(snd (file_name c), content)]\<rparr> else r) in
                         if \<not> pool_cleanup_add W then ret r
                         else ret (r\<lparr>cleanup := True, cap_ctx := Some (ctx\<lparr>is_cached := True\<rparr>)\<rparr>)))))))"

definition ngx_capcache_body_filter ::
  "capcache_funs \<Rightarrow> (ngx_capcache_request \<Rightarrow> ngx_buf list \<Rightarrow> int \<times> ngx_capcache_request) \<Rightarrow>
   ngx_capcache_loc_conf \<Rightarrow> ngx_capcache_request \<Rightarrow> ngx_buf list \<Rightarrow> (int \<times> ngx_capcache_request) outcome" where
  "ngx_capcache_body_filter W next_body_filter conf r chain =
     (if chain = [] then ret (next_body_filter r chain)
      else
        (case cap_ctx r of
           None \<Rightarrow> ret (next_body_filter r chain)
         | Some ctx \<Rightarrow>
             if is_cached ctx then ret (next_body_filter r chain)
             else
               bindO (bindO (capcache_object W conf r) (\<lambda>found.
                        case found of Inl r \<Rightarrow> ret r | Inr (r, c) \<Rightarrow> capcache_store W r ctx c))
                 (\<lambda>r. ret (next_body_filter r chain))))"

text \<open>The cleanup of the pool; \<open>file_cache_free\<close> is nginx's.\<close>

definition ngx_http_file_cache_cleanup_my ::
  "(ngx_http_cache \<Rightarrow> ngx_http_cache) \<Rightarrow> ngx_http_cache \<Rightarrow> ngx_http_cache" where
  "ngx_http_file_cache_cleanup_my file_cache_free c = (if updated c then c else file_cache_free c)"

definition ngx_capcache_postconfig ::
  "'hf \<Rightarrow> 'bf \<Rightarrow> ('hf, 'bf) ngx_filter_chains \<Rightarrow> int \<times> ('hf, 'bf) ngx_filter_chains" where
  "ngx_capcache_postconfig header_filter body_filter g =
     (NGX_OK,
      (let g = g\<lparr>ngx_http_next_header_filter := ngx_http_top_header_filter g\<rparr>;
           g = g\<lparr>ngx_http_top_header_filter := header_filter\<rparr>;
           g = g\<lparr>ngx_http_next_body_filter := ngx_http_top_body_filter g\<rparr>
       in g\<lparr>ngx_http_top_body_filter := body_filter\<rparr>))"

section \<open>Properties\<close>

text \<open>
  C29: whatever the file cache does, the chain is passed on. The body filter ends in the next filter
  with the chain it got, unless it uses a null pointer or the pointer of an unset zone, or writes behind
  a buffer: that of the content, when the header is longer than was computed, or that of the name.
  Without a context, or once a file was made for a response, a chain changes nothing.
\<close>

theorem capcache_passes_chain:
  "wp {NullPointer, InvalidPointer, OutOfBounds} (ngx_capcache_body_filter W next_body_filter conf r chain)
    (\<lambda>x. \<exists>r'. x = next_body_filter r' chain \<and>
      r' \<in> (case cap_ctx r of None \<Rightarrow> {r} | Some ctx \<Rightarrow> if is_cached ctx then {r} else UNIV))"
proof -
  have obj: "wp {NullPointer, InvalidPointer, OutOfBounds} (capcache_object W conf r) (\<lambda>_. True)" for r
    by (simp add: capcache_object_def Let_def split: option.split prod.split shm_zone.split)
  have put: "wp {NullPointer, InvalidPointer, OutOfBounds} (put_at i s b) (\<lambda>_. True)" for i s b
    by (simp add: put_at_def)
  have content: "wp {NullPointer, InvalidPointer, OutOfBounds} (capcache_content W c) (\<lambda>_. True)" for c
    unfolding capcache_content_def by (simp add: put wp_mono [OF put])
  have name: "wp {NullPointer, InvalidPointer, OutOfBounds} (ngx_http_file_cache_name_my W path c) (\<lambda>_. True)" for path c
    by (simp add: ngx_http_file_cache_name_my_def Let_def wp_mono [OF put])
  have store: "wp {NullPointer, InvalidPointer, OutOfBounds} (capcache_store W r ctx c) (\<lambda>_. True)" for r ctx c
    by (auto simp: capcache_store_def Let_def intro!: wp_mono [OF content] wp_mono [OF name] split: option.split)
  have all: "wp {NullPointer, InvalidPointer, OutOfBounds} (bindO (capcache_object W conf r) (\<lambda>found.
      case found of Inl r \<Rightarrow> ret r | Inr (r, c) \<Rightarrow> capcache_store W r ctx c)) (\<lambda>_. True)" for ctx
    unfolding wp_bindO by (rule wp_mono [OF obj]) (simp add: store split: sum.split prod.split)
  show ?thesis
    unfolding ngx_capcache_body_filter_def
    by (auto split: option.split simp del: wp_bindO simp: wp_bindO [of _ _ "\<lambda>r. ret (next_body_filter r chain)"]
        intro!: wp_mono [OF all])
qed

text \<open>
  \<open>ngx_create_hashed_filename (path, file, len)\<close> writes the levels of directories between the name of
  the path and the last \<open>len\<close> bytes, and nothing else.
\<close>

definition hashed_spec :: "(ngx_path \<Rightarrow> nat \<Rightarrow> string \<Rightarrow> string) \<Rightarrow> bool" where
  "hashed_spec f =
     (\<forall>p n a b c. length a = length (path_name p) \<longrightarrow> length b = 1 + path_len p \<longrightarrow>
        (\<exists>b'. length b' = length b \<and> f p n (a @ b @ c) = a @ b' @ c))"

lemma put_at_mid:
  "length a = i \<Longrightarrow> length b = length s \<Longrightarrow> put_at i s (a @ b @ c) = ret (a @ s @ c)"
  by (simp add: put_at_def)

lemma split3:
  assumes "length xs = i + j + k"
  obtains a b c where "xs = a @ b @ c" "length a = i" "length b = j" "length c = k"
proof
  show "xs = take i xs @ take j (drop i xs) @ drop (i + j) xs"
    by (metis append_take_drop_id drop_drop add.commute)
qed (use assms in simp_all)

text \<open>The name that is made: the path, the levels, the key in hexadecimal, and the NUL byte.\<close>

lemma file_name_made:
  assumes "fst (file_name c) = 0" "\<And>n. pnalloc W n" "hashed_spec (create_hashed_filename W)"
    and "length (hex_dump W (key c)) = 2 * NGX_HTTP_CACHE_KEY_LEN"
  obtains levels where "length levels = 1 + path_len path"
    and "ngx_http_file_cache_name_my W path c = ret (NGX_OK, c\<lparr>file_name :=
      (length (path_name path @ levels @ hex_dump W (key c)),
       Some (path_name path @ levels @ hex_dump W (key c) @ [NUL]))\<rparr>)"
proof -
  define n where "n = length (path_name path) + 1 + path_len path + 2 * NGX_HTTP_CACHE_KEY_LEN"
  let ?hex = "hex_dump W (key c)" and ?p = "length (path_name path) + 1 + path_len path"
  have "length (map (junk W) [0..<n + 1]) = length (path_name path) + (1 + path_len path) + (length ?hex + 1)"
    using assms(4) by (simp add: n_def)
  then obtain a b d where fresh: "map (junk W) [0..<n + 1] = a @ b @ d" "length a = length (path_name path)"
    "length b = 1 + path_len path" "length d = length ?hex + 1"
    by (rule split3)
  obtain h e where d: "d = h @ [e]" "length h = length ?hex"
    using fresh(4) by (cases d rule: rev_cases) auto
  have "seq [put_at 0 (path_name path), put_at ?p ?hex, put_at (?p + length ?hex) [NUL]] (a @ b @ h @ [e]) =
    ret (path_name path @ b @ ?hex @ [NUL])"
    using put_at_mid [of "[]" 0 a "path_name path" "b @ h @ [e]"] fresh(2)
      put_at_mid [of "path_name path @ b" ?p h ?hex "[e]"] fresh(3) d(2)
      put_at_mid [of "path_name path @ b @ ?hex" "?p + length ?hex" "[e]" "[NUL]" "[]"]
    by simp
  note made = this
  obtain levels where l: "length levels = 1 + path_len path"
    "create_hashed_filename W path n (path_name path @ b @ ?hex @ [NUL]) = path_name path @ levels @ ?hex @ [NUL]"
    using assms(3) fresh(3) unfolding hashed_spec_def by metis
  have "ngx_http_file_cache_name_my W path c =
    bindO (seq [put_at 0 (path_name path), put_at ?p ?hex, put_at (?p + length ?hex) [NUL]] (map (junk W) [0..<n + 1]))
      (\<lambda>data. ret (NGX_OK, c\<lparr>file_name := (n, Some (create_hashed_filename W path n data))\<rparr>))"
    using assms(1,2)
    by (simp only: ngx_http_file_cache_name_my_def Let_def n_def [symmetric] simp_thms if_True if_False)
  also have "\<dots> = ret (NGX_OK, c\<lparr>file_name := (n, Some (path_name path @ levels @ ?hex @ [NUL]))\<rparr>)"
    unfolding fresh(1) d(1) made by (simp add: l(2))
  also have "n = length (path_name path @ levels @ ?hex)" using assms(4) l(1) by (simp add: n_def)
  finally show thesis by (rule that [OF l(1)])
qed

text \<open>The content: the header as long as was computed, and the body.\<close>

lemma content_made:
  assumes "length (set_header W c) = header_start c"
  shows "capcache_content W c = ret (set_header W c @ ngx_capcache_body)"
proof -
  have "capcache_content W c =
    bindO (put_at 0 (set_header W c) ([] @ replicate (header_start c) NUL @ replicate (length ngx_capcache_body) NUL))
      (put_at (header_start c) ngx_capcache_body)"
    by (simp add: capcache_content_def replicate_add bindO_def split: option.split sum.split)
  then show ?thesis
    using assms put_at_mid [of "[]" 0 "replicate (header_start c) NUL" "set_header W c"]
      put_at_mid [of "set_header W c" "header_start c" "replicate (length ngx_capcache_body) NUL"
        ngx_capcache_body "[]"]
    by simp
qed

text \<open>
  C28: one file for a response. For a request that has a cache object the first chain writes one file
  into the cache, with the header and the fixed body, under the name made of the path of the cache
  and the key; the context is marked, and the second chain writes none.
\<close>

theorem capcache_one_file:
  assumes "cap_ctx r = Some ctx" "\<not> is_cached ctx" "cache r = Some c" "has_upstream r" "chain \<noteq> []"
    and "file_cache c = Some path" "fst (file_name c) = 0" "\<And>n. pcalloc W n" "\<And>n. pnalloc W n" "pool_cleanup_add W"
    and "hashed_spec (create_hashed_filename W)" "length (hex_dump W (key c)) = 2 * NGX_HTTP_CACHE_KEY_LEN"
    and "length (set_header W (c\<lparr>valid_sec := ngx_time W - 1\<rparr>)) = header_start c" "\<And>s. write_temp W s = Some tmp"
    and "\<And>name. ext_rename_file W tmp name = NGX_OK"
  shows "\<exists>r' levels. length levels = 1 + path_len path \<and>
    disk r' = disk r @ [(Some (path_name path @ levels @ hex_dump W (key c) @ [NUL]),
      set_header W (c\<lparr>valid_sec := ngx_time W - 1\<rparr>) @ ngx_capcache_body)] \<and>
    ngx_capcache_body_filter W next_body_filter conf r chain = ret (next_body_filter r' chain) \<and>
    ngx_capcache_body_filter W next_body_filter conf r' chain' = ret (next_body_filter r' chain')"
proof -
  define c1 where "c1 = c\<lparr>valid_sec := ngx_time W - 1\<rparr>"
  have c1: "fst (file_name c1) = 0" "key c1 = key c" "file_cache c1 = Some path" "header_start c1 = header_start c"
    using assms(6,7) by (simp_all add: c1_def)
  obtain levels where l: "length levels = 1 + path_len path"
    "ngx_http_file_cache_name_my W path c1 = ret (NGX_OK, c1\<lparr>file_name :=
      (length (path_name path @ levels @ hex_dump W (key c)),
       Some (path_name path @ levels @ hex_dump W (key c) @ [NUL]))\<rparr>)"
    by (rule file_name_made [OF c1(1) assms(9,11), of path]) (use assms(12) c1(2) in simp_all)
  define r' where "r' = r\<lparr>cache := Some (c1\<lparr>file_name := (length (path_name path @ levels @ hex_dump W (key c)),
       Some (path_name path @ levels @ hex_dump W (key c) @ [NUL]))\<rparr>),
     disk := disk r @ [(Some (path_name path @ levels @ hex_dump W (key c) @ [NUL]), set_header W c1 @ ngx_capcache_body)],
     cleanup := True, cap_ctx := Some (ctx\<lparr>is_cached := True\<rparr>)\<rparr>"
  have "capcache_store W r ctx c = ret r'"
    using assms(4,8,10,14,15) c1(3) l(2) content_made [of W c1] assms(13) c1(4)
    by (simp add: capcache_store_def c1_def [symmetric] r'_def Let_def)
  then have "ngx_capcache_body_filter W next_body_filter conf r chain = ret (next_body_filter r' chain)"
    using assms(1-3,5) by (simp add: ngx_capcache_body_filter_def capcache_object_def)
  moreover have "ngx_capcache_body_filter W next_body_filter conf r' chain' = ret (next_body_filter r' chain')"
    by (simp add: ngx_capcache_body_filter_def r'_def)
  ultimately show ?thesis using l(1) by (intro exI [of _ r'] exI [of _ levels]) (simp add: r'_def c1_def)
qed

definition demo_cap_path :: ngx_path where
  "demo_cap_path = \<lparr>path_name = ''/cache'', path_len = 4\<rparr>"

definition demo_cache :: ngx_http_cache where
  "demo_cache =
     \<lparr>file_name = (0, None), header_start = 3, key = replicate 16 (CHR ''k''), valid_sec = 0,
      file_cache = Some demo_cap_path, updated = False, updating = False\<rparr>"

definition demo_cap_request :: ngx_capcache_request where
  "demo_cap_request =
     \<lparr>status = 200, header_only = False, content_type = [], content_encoding = None,
      filter_need_in_memory = False, main_filter_need_in_memory = False, has_upstream = True,
      cache = Some demo_cache, cap_ctx = Some \<lparr>http_status = 200, is_cached = False\<rparr>, cleanup = False, disk = []\<rparr>"

definition demo_cap_funs :: capcache_funs where
  "demo_cap_funs =
     \<lparr>pcalloc = (\<lambda>_. True), pnalloc = (\<lambda>_. True), junk = (\<lambda>_. CHR ''?''), file_cache_new = Some (demo_cache\<lparr>file_cache := None\<rparr>),
      create_key = Pair NGX_ERROR, file_cache_create_key = id, ngx_time = 1000,
      set_header = (\<lambda>c. replicate (header_start c) (CHR ''h'')), write_temp = (\<lambda>_. Some ''tmp''),
      hex_dump = (\<lambda>k. concat (map (\<lambda>ch. [ch, ch]) k)), create_hashed_filename = (\<lambda>p n s. s),
      ext_rename_file = (\<lambda>_ _. NGX_OK), pool_cleanup_add = True\<rparr>"

lemma demo_hashed: "hashed_spec (create_hashed_filename demo_cap_funs)"
  by (auto simp: hashed_spec_def demo_cap_funs_def)

theorem capcache_one_file_witness:
  "\<exists>r' levels. length levels = 5 \<and>
    disk r' = [(Some (''/cache'' @ levels @ replicate 32 (CHR ''k'') @ [NUL]), ''hhh<CAPCACHE>'' @ [NL])] \<and>
    ngx_capcache_body_filter demo_cap_funs (\<lambda>r bs. (NGX_OK, r)) \<lparr>capcache_enable = 1, conf_cache = unset_zone\<rparr>
      demo_cap_request [\<lparr>bytes = ''x'', in_file = False, last_buf = True\<rparr>] = ret (NGX_OK, r')"
proof -
  have "concat (map (\<lambda>ch. [ch, ch]) (replicate 16 (CHR ''k''))) = replicate 32 (CHR ''k'')" by code_simp
  then show ?thesis
    using capcache_one_file [OF _ _ _ _ _ _ _ _ _ _ demo_hashed, of demo_cap_request
        "\<lparr>http_status = 200, is_cached = False\<rparr>" demo_cache "[\<lparr>bytes = ''x'', in_file = False, last_buf = True\<rparr>]"
        demo_cap_path "''tmp''" "\<lambda>r bs. (NGX_OK, r)" "\<lparr>capcache_enable = 1, conf_cache = unset_zone\<rparr>"]
    by (simp add: demo_cap_request_def demo_cache_def demo_cap_funs_def demo_cap_path_def ngx_capcache_body_def
        numeral_3_eq_3) blast
qed

text \<open>
  A location that inherits the switch but not the zone. Merging takes over \<open>capcache\<close> and leaves
  the zone unset, so for a location that does not repeat \<open>capcache_path\<close> the first chain of a
  response that has no cache object yet uses the unset pointer.
\<close>

lemma capcache_zone_not_inherited:
  assumes "merge_value_spec mv NGX_CONF_UNSET" "capcache_enable prev \<noteq> NGX_CONF_UNSET"
    and "ngx_capcache_create_loc_conf True = conf_at conf0" "conf = snd (ngx_capcache_merge_loc_conf mv prev conf0)"
    and "file_cache_new W = Some c" "fst (create_key W c) = NGX_OK" "has_upstream r" "cache r = None"
    and "cap_ctx r = Some ctx" "\<not> is_cached ctx" "chain \<noteq> []"
  shows "capcache_enable conf = capcache_enable prev \<and>
    ngx_capcache_body_filter W next_body_filter conf r chain = fail InvalidPointer"
proof -
  have conf: "conf = \<lparr>capcache_enable = capcache_enable prev, conf_cache = unset_zone\<rparr>"
    using assms(1-4) by (auto simp: ngx_capcache_create_loc_conf_def ngx_capcache_merge_loc_conf_def merge_value_cases)
  have "capcache_object W conf r = fail InvalidPointer"
    using assms(5-8) by (cases "create_key W c") (simp add: capcache_object_def conf)
  then show ?thesis using assms(9-11) by (simp add: ngx_capcache_body_filter_def conf)
qed

lemma capcache_zone_not_inherited_witness:
  "ngx_capcache_body_filter (demo_cap_funs\<lparr>create_key := Pair NGX_OK\<rparr>) (\<lambda>r bs. (NGX_OK, r))
      (snd (ngx_capcache_merge_loc_conf (merge_value_at NGX_CONF_UNSET)
        \<lparr>capcache_enable = 1, conf_cache = zone (Some demo_cap_path)\<rparr>
        \<lparr>capcache_enable = NGX_CONF_UNSET, conf_cache = unset_zone\<rparr>))
      (demo_cap_request\<lparr>cache := None\<rparr>) [\<lparr>bytes = ''x'', in_file = False, last_buf = True\<rparr>] = fail InvalidPointer"
  by (rule capcache_zone_not_inherited [where ctx = "\<lparr>http_status = 200, is_cached = False\<rparr>" and
        c = "demo_cache\<lparr>file_cache := None\<rparr>", OF merge_value_at_spec _ _ refl, THEN conjunct2])
    (simp_all add: demo_cap_funs_def demo_cap_request_def ngx_capcache_create_loc_conf_def)

text \<open>
  What nginx does: a new cache object has no place for a header yet, since \<open>ngx_http_file_cache_new\<close>
  zeroes it and only \<open>ngx_http_file_cache_create_key\<close> computes \<open>header_start\<close>; and \<open>set_header\<close> writes at
  least the structure \<open>ngx_http_file_cache_header_t\<close>, of 40 bytes.
\<close>

definition header_unset :: "capcache_funs \<Rightarrow> bool" where
  "header_unset W =
     ((\<forall>c. file_cache_new W = Some c \<longrightarrow> header_start c = 0) \<and>
      (\<forall>c. header_start (snd (create_key W c)) = header_start c) \<and>
      (\<forall>c. 40 \<le> length (set_header W c)))"

text \<open>
  C40: after a failure the second chain writes behind its buffer. When the key cannot be made, the
  first chain is passed on, but the request keeps the new cache object, which has no header yet; the
  next chain takes it for a complete one, allocates a buffer for the body alone and has nginx write
  the header of at least 40 bytes into its 11.
\<close>

theorem capcache_retry_overflows:
  assumes "cap_ctx r = Some ctx" "\<not> is_cached ctx" "cache r = None" "has_upstream r" "chain \<noteq> []" "chain' \<noteq> []"
    and "file_cache_new W = Some c" "fst (create_key W c) \<noteq> NGX_OK" "header_unset W"
    and "\<And>n. pcalloc W n"
  shows "\<exists>r'. ngx_capcache_body_filter W next_body_filter conf r chain = ret (next_body_filter r' chain) \<and>
    ngx_capcache_body_filter W next_body_filter conf r' chain' = fail OutOfBounds"
proof -
  obtain rc c1 where key: "create_key W c = (rc, c1)" "rc \<noteq> NGX_OK" using assms(8) by (cases "create_key W c") simp
  define r' where "r' = r\<lparr>cache := Some c1\<rparr>"
  have "ngx_capcache_body_filter W next_body_filter conf r chain = ret (next_body_filter r' chain)"
    using assms(1-5,7) key by (simp add: ngx_capcache_body_filter_def capcache_object_def r'_def)
  moreover have "header_start c1 = 0" and big: "40 \<le> length (set_header W (c1\<lparr>valid_sec := ngx_time W - 1\<rparr>))"
    using assms(7,9) key(1) unfolding header_unset_def by (metis snd_conv)+
  then have "capcache_content W (c1\<lparr>valid_sec := ngx_time W - 1\<rparr>) = fail OutOfBounds"
    by (simp add: capcache_content_def put_at_def ngx_capcache_body_def)
  then have "capcache_store W r' ctx c1 = fail OutOfBounds"
    using assms(10) by (simp add: capcache_store_def Let_def)
  then have "ngx_capcache_body_filter W next_body_filter conf r' chain' = fail OutOfBounds"
    using assms(1,2,6) by (simp add: ngx_capcache_body_filter_def capcache_object_def r'_def)
  ultimately show ?thesis by blast
qed

definition demo_fail_funs :: capcache_funs where
  "demo_fail_funs = demo_cap_funs\<lparr>file_cache_new := Some (demo_cache\<lparr>file_cache := None, header_start := 0\<rparr>),
     set_header := (\<lambda>c. replicate (40 + header_start c) (CHR ''h''))\<rparr>"

theorem capcache_retry_overflows_witness:
  "\<exists>r'. ngx_capcache_body_filter demo_fail_funs (\<lambda>r bs. (NGX_OK, r)) \<lparr>capcache_enable = 1, conf_cache = zone (Some demo_cap_path)\<rparr>
      (demo_cap_request\<lparr>cache := None\<rparr>) [\<lparr>bytes = ''x'', in_file = False, last_buf = False\<rparr>] = ret (NGX_OK, r') \<and>
    ngx_capcache_body_filter demo_fail_funs (\<lambda>r bs. (NGX_OK, r)) \<lparr>capcache_enable = 1, conf_cache = zone (Some demo_cap_path)\<rparr>
      r' [\<lparr>bytes = ''y'', in_file = False, last_buf = True\<rparr>] = fail OutOfBounds"
  using capcache_retry_overflows [of "demo_cap_request\<lparr>cache := None\<rparr>" "\<lparr>http_status = 200, is_cached = False\<rparr>"
      "[\<lparr>bytes = ''x'', in_file = False, last_buf = False\<rparr>]" "[\<lparr>bytes = ''y'', in_file = False, last_buf = True\<rparr>]"
      demo_fail_funs "demo_cache\<lparr>file_cache := None, header_start := 0\<rparr>"
      "\<lambda>r bs. (NGX_OK, r)" "\<lparr>capcache_enable = 1, conf_cache = zone (Some demo_cap_path)\<rparr>"]
  by (simp add: demo_fail_funs_def demo_cap_funs_def demo_cap_request_def header_unset_def)

end
