(* ===== verification/Aqb.thy ===== *)
theory Aqb
  imports Ngx_Core
begin

text \<open>
  The aqb module, \<open>src/modules/mod_aqb/ngx_http_aqb_cp_filter_module.c\<close>: a filter that is meant to
  append the strings of an array of plugins to a response. A buffer is modelled by its pointers,
  since the strings lie in the memory of the configuration.
\<close>

section \<open>Configuration\<close>

text \<open>An array of nginx as it lies in memory: five words of eight bytes.\<close>

record ngx_array =
  arr_elts :: "64 word"
  arr_nelts :: "64 word"
  arr_size :: "64 word"
  arr_nalloc :: "64 word"
  arr_pool :: "64 word"

record ngx_http_aqb_cp_conf =
  cp_enable :: int
  plugins :: "ngx_array option"

text \<open>\<open>ngx_pcalloc\<close> zeroes the structure, so \<open>plugins\<close> is null. Without memory the pointer is \<open>NGX_CONF_ERROR\<close>.\<close>

definition ngx_http_aqb_cp_create_conf :: "bool \<Rightarrow> ngx_http_aqb_cp_conf conf_ptr" where
  "ngx_http_aqb_cp_create_conf pcalloc =
     (if \<not> pcalloc then conf_invalid else conf_at \<lparr>cp_enable = NGX_CONF_UNSET, plugins = None\<rparr>)"

definition ngx_http_aqb_cp_merge_conf ::
  "(int \<Rightarrow> int \<Rightarrow> int \<Rightarrow> int) \<Rightarrow> ngx_http_aqb_cp_conf \<Rightarrow> ngx_http_aqb_cp_conf \<Rightarrow>
   conf_rc \<times> ngx_http_aqb_cp_conf" where
  "ngx_http_aqb_cp_merge_conf merge_value prev conf =
     (NGX_CONF_OK, conf\<lparr>cp_enable := merge_value (cp_enable conf) (cp_enable prev) 0\<rparr>)"

text \<open>
  \<open>array_create\<close> is what \<open>ngx_array_create\<close> returns: an array in \<open>cf->temp_pool\<close>. The arguments of the
  directive are not looked at.
\<close>

definition ngx_http_aqb_cp_load_plugin ::
  "ngx_array option \<Rightarrow> string list \<Rightarrow> ngx_http_aqb_cp_conf \<Rightarrow> conf_rc \<times> ngx_http_aqb_cp_conf" where
  "ngx_http_aqb_cp_load_plugin array_create args conf =
     (if plugins conf = None then
        (let conf = conf\<lparr>plugins := array_create\<rparr> in
         if plugins conf = None then (NGX_CONF_ERROR, conf) else (NGX_CONF_OK, conf))
      else (NGX_CONF_OK, conf))"

section \<open>The array at the time of a request\<close>

text \<open>
  nginx destroys \<open>temp_pool\<close> once the configuration is read. \<open>temp_pool\<close> tells whether it still stands; if
  it does not, reading \<open>plugins->nelts\<close> is a use of freed memory.
\<close>

definition plugins_nelts :: "bool \<Rightarrow> ngx_array \<Rightarrow> 64 word outcome" where
  "plugins_nelts temp_pool a = (if temp_pool then ret (arr_nelts a) else fail FreedMemory)"

section \<open>The header filter\<close>

record ngx_http_aqb_cp_ctx_t =
  ok :: int

record ngx_aqb_request = ngx_http_request +
  is_head :: bool
  is_main :: bool
  aqb_ctx :: "ngx_http_aqb_cp_ctx_t option"

definition ngx_http_aqb_cp_header_filter ::
  "bool \<Rightarrow> bool \<Rightarrow> (ngx_aqb_request \<Rightarrow> ngx_aqb_request) \<Rightarrow> (ngx_aqb_request \<Rightarrow> ngx_aqb_request) \<Rightarrow>
   (ngx_aqb_request \<Rightarrow> int \<times> ngx_aqb_request) \<Rightarrow> ngx_http_aqb_cp_conf \<Rightarrow> ngx_aqb_request \<Rightarrow>
   (int \<times> ngx_aqb_request) outcome" where
  "ngx_http_aqb_cp_header_filter temp_pool pcalloc clear_content_length clear_accept_ranges next_header_filter cpcf r =
     (if cp_enable cpcf = 0 then ret (next_header_filter r)
      else
        (case plugins cpcf of
           None \<Rightarrow> ret (next_header_filter r)
         | Some a \<Rightarrow>
             bindO (plugins_nelts temp_pool a) (\<lambda>nelts.
               if nelts = 0 \<or> header_only r \<or> is_head r \<or> \<not> is_main r \<or> status r = NGX_HTTP_NO_CONTENT
               then ret (next_header_filter r)
               else if \<not> pcalloc then ret (NGX_ERROR, r)
               else ret (next_header_filter
                 ((clear_accept_ranges (clear_content_length r))\<lparr>aqb_ctx := Some \<lparr>ok = 0\<rparr>\<rparr>)))))"

section \<open>The body filter\<close>

record aqb_buf =
  b_pos :: "64 word"
  b_last :: "64 word"
  b_start :: "64 word"
  b_end :: "64 word"
  b_memory :: bool
  b_last_buf :: bool

text \<open>The call of the user's function is commented out, so its result is always zero.\<close>

definition ngx_http_aqb_cp_userdefine :: "aqb_buf \<Rightarrow> ngx_http_aqb_cp_ctx_t \<Rightarrow> ngx_http_aqb_cp_ctx_t" where
  "ngx_http_aqb_cp_userdefine b ctx = (let ret = 0 :: int in if ret \<noteq> 0 then ctx\<lparr>ok := 1\<rparr> else ctx)"

text \<open>
  The search for the last buffer of a response: the links before it, and the rest beginning with
  it; no rest if the chain has no such buffer.
\<close>

fun find_last :: "aqb_buf list \<Rightarrow> ngx_http_aqb_cp_ctx_t \<Rightarrow> aqb_buf list \<times> aqb_buf list \<times> ngx_http_aqb_cp_ctx_t" where
  "find_last [] ctx = ([], [], ctx)"
| "find_last (b # bs) ctx =
     (let ctx = ngx_http_aqb_cp_userdefine b ctx in
      if b_last_buf b then ([], b # bs, ctx)
      else (case find_last bs ctx of (before, rest, ctx) \<Rightarrow> (b # before, rest, ctx)))"

text \<open>
  \<open>p = (ngx_str_t *) cpcf->plugins\<close>: the memory of the array structure itself, read as strings of a
  length and a pointer. The third would end behind the structure.
\<close>

definition as_strings :: "ngx_array \<Rightarrow> (64 word \<times> 64 word) list" where
  "as_strings a = [(arr_elts a, arr_nelts a), (arr_size a, arr_nalloc a)]"

text \<open>
  The loop over the plugins. The chain is the links \<open>before\<close> the current one, the current one, and
  those behind. \<open>calloc_buf\<close> and \<open>alloc_link\<close> tell whether there is memory at the \<open>i\<close>-th pass.
\<close>

fun add_plugins ::
  "(aqb_buf \<Rightarrow> int) \<Rightarrow> (nat \<Rightarrow> bool) \<Rightarrow> (nat \<Rightarrow> bool) \<Rightarrow> (64 word \<times> 64 word) list \<Rightarrow> nat list \<Rightarrow>
   aqb_buf list \<Rightarrow> aqb_buf \<Rightarrow> aqb_buf list \<Rightarrow> (bool \<times> aqb_buf list) outcome" where
  "add_plugins buf_size calloc_buf alloc_link p [] before cur behind = ret (True, before @ cur # behind)"
| "add_plugins buf_size calloc_buf alloc_link p (i # is) before cur behind =
     (if \<not> calloc_buf i then ret (False, before @ cur # behind)
      else if \<not> i < length p then fail OutOfBounds
      else
        (let (len, data) = p ! i;
             b = \<lparr>b_pos = data, b_last = data + len, b_start = data, b_end = data + len,
                  b_memory = True, b_last_buf = True\<rparr> in
         if buf_size cur = 0 then add_plugins buf_size calloc_buf alloc_link p is before b behind
         else if \<not> alloc_link i then ret (False, before @ cur # behind)
         else add_plugins buf_size calloc_buf alloc_link p is
                (before @ [cur\<lparr>b_last_buf := False\<rparr>]) b []))"

definition ngx_http_aqb_cp_body_filter ::
  "bool \<Rightarrow> (aqb_buf \<Rightarrow> int) \<Rightarrow> (nat \<Rightarrow> bool) \<Rightarrow> (nat \<Rightarrow> bool) \<Rightarrow>
   (ngx_aqb_request \<Rightarrow> aqb_buf list \<Rightarrow> int \<times> ngx_aqb_request) \<Rightarrow> ngx_http_aqb_cp_conf \<Rightarrow>
   ngx_aqb_request \<Rightarrow> aqb_buf list \<Rightarrow> (int \<times> ngx_aqb_request) outcome" where
  "ngx_http_aqb_cp_body_filter temp_pool buf_size calloc_buf alloc_link next_body_filter cpcf r chain =
     (if chain = [] \<or> header_only r then ret (next_body_filter r chain)
      else
        (case aqb_ctx r of
           None \<Rightarrow> ret (next_body_filter r chain)
         | Some ctx \<Rightarrow>
             (case find_last chain ctx of
                (before, rest, ctx) \<Rightarrow>
                  (let r = r\<lparr>aqb_ctx := Some ctx\<rparr> in
                   case rest of
                     [] \<Rightarrow> ret (next_body_filter r chain)
                   | cur # behind \<Rightarrow>
                       (case plugins cpcf of
                          None \<Rightarrow> fail NullPointer
                        | Some a \<Rightarrow>
                            bindO (plugins_nelts temp_pool a) (\<lambda>nelts.
                              bindO (add_plugins buf_size calloc_buf alloc_link (as_strings a)
                                       [0..<unat nelts] before cur behind)
                                (\<lambda>(done, chain).
                                   if done then ret (next_body_filter r chain) else ret (NGX_ERROR, r))))))))"

definition ngx_http_aqb_cp_filter_init ::
  "'hf \<Rightarrow> 'bf \<Rightarrow> ('hf, 'bf) ngx_filter_chains \<Rightarrow> int \<times> ('hf, 'bf) ngx_filter_chains" where
  "ngx_http_aqb_cp_filter_init header_filter body_filter g =
     (NGX_OK,
      (let g = g\<lparr>ngx_http_next_header_filter := ngx_http_top_header_filter g\<rparr>;
           g = g\<lparr>ngx_http_top_header_filter := header_filter\<rparr>;
           g = g\<lparr>ngx_http_next_body_filter := ngx_http_top_body_filter g\<rparr>
       in g\<lparr>ngx_http_top_body_filter := body_filter\<rparr>))"

section \<open>Properties\<close>

text \<open>\<open>ngx_array_create\<close> returns an array without elements.\<close>

definition fresh_array :: "ngx_array option \<Rightarrow> bool" where
  "fresh_array a = (case a of None \<Rightarrow> True | Some a \<Rightarrow> arr_nelts a = 0)"

text \<open>
  Without plugins in the array the filters pass everything on and make no context, so that the body
  filter never gets as far as the array; but an enabled header filter reads the number of plugins.
\<close>

lemma header_filter_fresh:
  "fresh_array (plugins conf) \<Longrightarrow>
   ngx_http_aqb_cp_header_filter temp_pool pcalloc clear_content_length clear_accept_ranges next_header_filter conf r =
     (if cp_enable conf \<noteq> 0 \<and> plugins conf \<noteq> None \<and> \<not> temp_pool then fail FreedMemory
      else ret (next_header_filter r))"
  by (auto simp: ngx_http_aqb_cp_header_filter_def fresh_array_def plugins_nelts_def split: option.split)

lemma body_filter_no_ctx:
  "aqb_ctx r = None \<Longrightarrow>
   ngx_http_aqb_cp_body_filter temp_pool buf_size calloc_buf alloc_link next_body_filter conf r chain =
     ret (next_body_filter r chain)"
  by (simp add: ngx_http_aqb_cp_body_filter_def)

definition demo_aqb_request :: ngx_aqb_request where
  "demo_aqb_request =
     \<lparr>status = 200, header_only = False, content_type = ''text/html'', content_encoding = None,
      filter_need_in_memory = False, main_filter_need_in_memory = False, is_head = False, is_main = True,
      aqb_ctx = None\<rparr>"

definition demo_array :: "64 word \<Rightarrow> ngx_array" where
  "demo_array n = \<lparr>arr_elts = 4096, arr_nelts = n, arr_size = 16, arr_nalloc = 10, arr_pool = 512\<rparr>"

definition demo_aqb_buf :: aqb_buf where
  "demo_aqb_buf = \<lparr>b_pos = 100, b_last = 120, b_start = 100, b_end = 120, b_memory = True, b_last_buf = True\<rparr>"

lemma find_last_split:
  "list_all (\<lambda>b. \<not> b_last_buf b) before \<Longrightarrow> b_last_buf cur \<Longrightarrow>
    find_last (before @ cur # behind) ctx = (before, cur # behind, ctx)"
  by (induction before) (simp_all add: ngx_http_aqb_cp_userdefine_def)

text \<open>
  The array would be misread. If it held plugins, and still stood, the body filter would read the array structure
  itself as the strings: the buffer it appends for the first one begins at the address that is the
  number of plugins, and is as long as the address of the elements is large; with three plugins or
  more it reads behind the structure.
\<close>

lemma aqb_plugins_misread:
  assumes "aqb_ctx r = Some ctx" "\<not> header_only r" "plugins conf = Some a"
    and "list_all (\<lambda>b. \<not> b_last_buf b) before" "b_last_buf cur" "b_pos cur \<noteq> b_last cur"
    and "arr_elts a \<noteq> 0" "arr_size a \<noteq> 0" "arr_nelts a = 1 \<or> 2 < arr_nelts a"
  shows "ngx_http_aqb_cp_body_filter True (\<lambda>b. uint (b_last b - b_pos b)) (\<lambda>_. True) (\<lambda>_. True) next_body_filter conf r
      (before @ cur # behind) =
    (if arr_nelts a = 1 then ret (next_body_filter r (before @
         [cur\<lparr>b_last_buf := False\<rparr>,
          \<lparr>b_pos = 1, b_last = 1 + arr_elts a, b_start = 1, b_end = 1 + arr_elts a, b_memory = True,
           b_last_buf = True\<rparr>]))
     else fail OutOfBounds)"
    (is "?run (\<lambda>b. uint (b_last b - b_pos b)) = ?result")
proof -
  define buf_size :: "aqb_buf \<Rightarrow> int" where "buf_size = (\<lambda>b. uint (b_last b - b_pos b))"
  have size: "buf_size b = 0 \<longleftrightarrow> b_pos b = b_last b" for b
    unfolding buf_size_def uint_0_iff right_minus_eq by auto
  have same: "r\<lparr>aqb_ctx := Some ctx\<rparr> = r" unfolding assms(1) [symmetric] by simp
  have run: "ngx_http_aqb_cp_body_filter True buf_size (\<lambda>_. True) (\<lambda>_. True) next_body_filter conf r (before @ cur # behind) =
    bindO (add_plugins buf_size (\<lambda>_. True) (\<lambda>_. True) (as_strings a) [0..<unat (arr_nelts a)] before cur behind)
      (\<lambda>(done, chain). if done then ret (next_body_filter r chain) else ret (NGX_ERROR, r))"
    using assms(1-3)
    by (simp add: ngx_http_aqb_cp_body_filter_def find_last_split [OF assms(4,5)] Let_def plugins_nelts_def)
      (simp only: same)
  have "?run buf_size = ?result"
  proof (cases "arr_nelts a = 1")
    case True
    then show ?thesis using run assms(6) by (simp add: as_strings_def size)
  next
    case False
    then have "2 < arr_nelts a" using assms(9) by simp
    then have "2 < unat (arr_nelts a)" by (simp add: word_less_nat_alt)
    then have "[0..<unat (arr_nelts a)] = 0 # 1 # 2 # [3..<unat (arr_nelts a)]"
      by (simp add: upt_conv_Cons numeral_3_eq_3)
    then show ?thesis using False assms(6-8) by (simp add: run as_strings_def size)
  qed
  then show ?thesis unfolding buf_size_def .
qed

lemma aqb_plugins_misread_witness:
  "ngx_http_aqb_cp_body_filter True (\<lambda>b. uint (b_last b - b_pos b)) (\<lambda>_. True) (\<lambda>_. True)
      (\<lambda>r bs. (int (length bs), r)) \<lparr>cp_enable = 1, plugins = Some (demo_array 3)\<rparr>
      (demo_aqb_request\<lparr>aqb_ctx := Some \<lparr>ok = 0\<rparr>\<rparr>) ([] @ demo_aqb_buf # []) = fail OutOfBounds"
  by (subst aqb_plugins_misread [where a = "demo_array 3" and ctx = "\<lparr>ok = 0\<rparr>"])
    (simp_all add: demo_aqb_request_def demo_aqb_buf_def demo_array_def)

end
