(* ===== verification/Breakpoint.thy ===== *)
theory Breakpoint
  imports Ngx_Core
begin

text \<open>
  The breakpoint module: \<open>src/modules/mod_breakpoint/ngx_http_breakpoint_module.c\<close>. Its handler
  answers with a page of the counters of nginx, written into a buffer whose size was computed
  beforehand; writing beyond that size is a fault. \<open>ngx_sprintf\<close> is modelled for the one conversion
  it is used with, \<open>%uA\<close>.
\<close>

section \<open>Request and counters\<close>

datatype http_method = NGX_HTTP_GET | NGX_HTTP_HEAD | NGX_HTTP_OTHER

record ngx_status_request = ngx_http_request +
  rq_method :: http_method
  is_main :: bool
  content_length_n :: int

text \<open>What the shared counters hold while the page is made.\<close>

record ngx_stat =
  ngx_stat_accepted :: "64 word"
  ngx_stat_handled :: "64 word"
  ngx_stat_active :: "64 word"
  ngx_stat_requests :: "64 word"
  ngx_stat_reading :: "64 word"
  ngx_stat_writing :: "64 word"

section \<open>The page\<close>

abbreviation NGX_ATOMIC_T_LEN :: nat where "NGX_ATOMIC_T_LEN \<equiv> 20"

text \<open>\<open>sizeof\<close> of a string literal counts its terminating NUL byte.\<close>

definition sizeof_str :: "string \<Rightarrow> nat" where
  "sizeof_str s = length s + 1"

definition status_size :: nat where
  "status_size =
     sizeof_str (''Active connections:  '' @ [NL]) + NGX_ATOMIC_T_LEN
     + sizeof_str (''server accepts handled requests'' @ [NL]) - 1
     + 6 + 3 * NGX_ATOMIC_T_LEN
     + sizeof_str (''Reading:  Writing:  Waiting:  '' @ [NL]) + 3 * NGX_ATOMIC_T_LEN"

text \<open>Writing at \<open>b->last\<close> of a buffer of \<open>bound\<close> bytes.\<close>

definition put_last :: "nat \<Rightarrow> string \<Rightarrow> string \<Rightarrow> string outcome" where
  "put_last bound s b = (if length b + length s \<le> bound then ret (b @ s) else fail OutOfBounds)"

definition uA :: "64 word \<Rightarrow> string" where
  "uA w = show_dec (unat w)"

definition status_page :: "nat \<Rightarrow> ngx_stat \<Rightarrow> string outcome" where
  "status_page bound st =
     (let ap = ngx_stat_accepted st; hn = ngx_stat_handled st; ac = ngx_stat_active st;
          rq = ngx_stat_requests st; rd = ngx_stat_reading st; wr = ngx_stat_writing st in
      seq
        [put_last bound (''Active connections: '' @ uA ac @ '' '' @ [NL]),
         put_last bound (''server accepts handled requests'' @ [NL]),
         put_last bound ('' '' @ uA ap @ '' '' @ uA hn @ '' '' @ uA rq @ '' '' @ [NL]),
         put_last bound (''Reading: '' @ uA rd @ '' Writing: '' @ uA wr @ '' Waiting: '' @
                        uA (ac - (rd + wr)) @ '' '' @ [NL])]
        [])"

section \<open>The handler\<close>

text \<open>
  \<open>ngx_http_discard_request_body\<close>, \<open>ngx_http_send_header\<close> and \<open>ngx_http_output_filter\<close> are nginx's;
  \<open>temp_buf\<close> tells whether a buffer of a size can be had.
\<close>

definition ngx_http_status_handler ::
  "(ngx_status_request \<Rightarrow> int \<times> ngx_status_request) \<Rightarrow> (ngx_status_request \<Rightarrow> int \<times> ngx_status_request) \<Rightarrow>
   (ngx_status_request \<Rightarrow> ngx_buf list \<Rightarrow> int \<times> ngx_status_request) \<Rightarrow> (nat \<Rightarrow> bool) \<Rightarrow> ngx_stat \<Rightarrow>
   ngx_status_request \<Rightarrow> (int \<times> ngx_status_request) outcome" where
  "ngx_http_status_handler discard_request_body send_header output_filter temp_buf st r =
     (if rq_method r \<noteq> NGX_HTTP_GET \<and> rq_method r \<noteq> NGX_HTTP_HEAD then ret (NGX_HTTP_NOT_ALLOWED, r)
      else
        (let (rc, r) = discard_request_body r in
         if rc \<noteq> NGX_OK then ret (rc, r)
         else
           (let r = r\<lparr>content_type := ''text/plain''\<rparr>;
                (rc, r) = (if rq_method r = NGX_HTTP_HEAD then send_header (r\<lparr>status := NGX_HTTP_OK\<rparr>)
                           else (NGX_OK, r)) in
            if rq_method r = NGX_HTTP_HEAD \<and> (rc = NGX_ERROR \<or> rc > NGX_OK \<or> header_only r) then ret (rc, r)
            else if \<not> temp_buf status_size then ret (NGX_HTTP_INTERNAL_SERVER_ERROR, r)
            else
              bindO (status_page status_size st) (\<lambda>page.
                let r = r\<lparr>status := NGX_HTTP_OK, content_length_n := int (length page)\<rparr>;
                    b = \<lparr>bytes = page, in_file = False, last_buf = is_main r\<rparr>;
                    (rc, r) = send_header r in
                if rc = NGX_ERROR \<or> rc > NGX_OK \<or> header_only r then ret (rc, r)
                else ret (output_filter r [b])))))"

text \<open>The directive: whatever its argument is, it installs the handler.\<close>

definition ngx_http_set_breakpoint :: "'h \<Rightarrow> string list \<Rightarrow> 'h option \<Rightarrow> conf_rc \<times> 'h option" where
  "ngx_http_set_breakpoint status_handler args handler = (NGX_CONF_OK, Some status_handler)"

section \<open>Properties\<close>

lemma status_size_value: "status_size = 233"
  by (simp add: status_size_def sizeof_str_def)

lemma uA_length: "length (uA w) \<le> 20"
  by (simp add: uA_def show_word_length)

lemma status_page_ret:
  "\<exists>page. status_page status_size st = ret page \<and> length page \<le> status_size \<and>
    page =
      ''Active connections: '' @ uA (ngx_stat_active st) @ '' '' @ [NL] @
      ''server accepts handled requests'' @ [NL] @
      '' '' @ uA (ngx_stat_accepted st) @ '' '' @ uA (ngx_stat_handled st) @ '' '' @
        uA (ngx_stat_requests st) @ '' '' @ [NL] @
      ''Reading: '' @ uA (ngx_stat_reading st) @ '' Writing: '' @ uA (ngx_stat_writing st) @
        '' Waiting: '' @ uA (ngx_stat_active st - (ngx_stat_reading st + ngx_stat_writing st)) @ '' '' @ [NL]"
  using uA_length [of "ngx_stat_active st"] uA_length [of "ngx_stat_accepted st"]
    uA_length [of "ngx_stat_handled st"] uA_length [of "ngx_stat_requests st"]
    uA_length [of "ngx_stat_reading st"] uA_length [of "ngx_stat_writing st"]
    uA_length [of "ngx_stat_active st - (ngx_stat_reading st + ngx_stat_writing st)"]
  by (simp add: status_page_def Let_def put_last_def status_size_value)

text \<open>
  C30: the page fits. Whatever the counters hold, also where the number of waiting connections wraps
  around, the four writes stay within the size computed for the buffer, and the page is the text
  with the counters in their places.
\<close>

theorem status_page_fits:
  "\<exists>page. status_page status_size st = ret page \<and> length page \<le> status_size \<and>
    page =
      ''Active connections: '' @ uA (ngx_stat_active st) @ '' '' @ [NL] @
      ''server accepts handled requests'' @ [NL] @
      '' '' @ uA (ngx_stat_accepted st) @ '' '' @ uA (ngx_stat_handled st) @ '' '' @
        uA (ngx_stat_requests st) @ '' '' @ [NL] @
      ''Reading: '' @ uA (ngx_stat_reading st) @ '' Writing: '' @ uA (ngx_stat_writing st) @
        '' Waiting: '' @ uA (ngx_stat_active st - (ngx_stat_reading st + ngx_stat_writing st)) @ '' '' @ [NL]"
  by (rule status_page_ret)

text \<open>
  The answer to a GET request. Once the body of the request is discarded and there is a buffer,
  the header is sent once, with the length of the page, and unless that ends the response, the
  page follows in one buffer, the last one of the response if the request is the main one.
\<close>

lemma status_handler_get:
  assumes "rq_method r = NGX_HTTP_GET" "discard_request_body r = (NGX_OK, r)" "temp_buf status_size"
  shows "\<exists>page. status_page status_size st = ret page \<and>
    ngx_http_status_handler discard_request_body send_header output_filter temp_buf st r =
      ret (case send_header (r\<lparr>content_type := ''text/plain'', status := NGX_HTTP_OK,
                               content_length_n := int (length page)\<rparr>) of
             (rc, r') \<Rightarrow>
               if rc = NGX_ERROR \<or> rc > NGX_OK \<or> header_only r' then (rc, r')
               else output_filter r' [\<lparr>bytes = page, in_file = False, last_buf = is_main r\<rparr>])"
proof -
  obtain page where "status_page status_size st = ret page"
    using status_page_ret [of st] by blast
  then show ?thesis
    using assms by (simp add: ngx_http_status_handler_def split: prod.split)
qed

definition demo_status_request :: ngx_status_request where
  "demo_status_request =
     \<lparr>status = 0, header_only = False, content_type = [], content_encoding = None,
      filter_need_in_memory = False, main_filter_need_in_memory = False,
      rq_method = NGX_HTTP_GET, is_main = True, content_length_n = -1\<rparr>"

definition demo_stat :: ngx_stat where
  "demo_stat =
     \<lparr>ngx_stat_accepted = 7, ngx_stat_handled = 7, ngx_stat_active = 1, ngx_stat_requests = 9,
      ngx_stat_reading = 1, ngx_stat_writing = 1\<rparr>"

lemma status_handler_get_witness:
  "\<exists>page. status_page status_size demo_stat = ret page \<and>
    ngx_http_status_handler (Pair NGX_OK) (Pair NGX_OK) (\<lambda>r bs. (int (length bs), r)) (\<lambda>_. True) demo_stat
      demo_status_request =
    ret (1, demo_status_request\<lparr>content_type := ''text/plain'', status := NGX_HTTP_OK,
              content_length_n := int (length page)\<rparr>)"
  using status_handler_get [of demo_status_request "Pair NGX_OK" "\<lambda>_. True" demo_stat "Pair NGX_OK"
      "\<lambda>r bs. (int (length bs), r)"]
  by (simp add: demo_status_request_def)

end
