(* ===== verification/Ngx_Config.thy ===== *)
theory Ngx_Config
  imports Ngx_Module Minify_Filter Strip_Module Capcache Aqb
    Breakpoint
begin

text \<open>
  The directive tables and module records of \<open>mod_minify\<close>, \<open>mod_strip\<close>, \<open>mod_capcache\<close>, \<open>mod_aqb\<close> and
  \<open>mod_breakpoint\<close>, and what a location gets by the directives of the blocks around it.
\<close>

section \<open>Minify\<close>

text \<open>
  \<open>env_types_slot\<close> is \<open>ngx_http_types_slot\<close>: it gets the arguments, the default types and the keys;
  \<open>env_html_types\<close> is \<open>ngx_http_html_default_types\<close> of nginx.
\<close>

record ('h, 'k) minify_env = conf_env +
  env_types_slot :: "string list \<Rightarrow> string list \<Rightarrow> 'k \<Rightarrow> 'k option"
  env_merge_types :: "'k \<times> 'h \<Rightarrow> 'k \<times> 'h \<Rightarrow> string list \<Rightarrow> bool \<times> ('k \<times> 'h) \<times> ('k \<times> 'h)"
  env_html_types :: "string list"
  env_zeroed :: "('h, 'k) ngx_minify_conf"

definition set_types_at ::
  "('h, 'k) minify_env \<Rightarrow> string list \<Rightarrow> (('h, 'k) ngx_minify_conf \<Rightarrow> 'k) \<Rightarrow>
   ('k \<Rightarrow> ('h, 'k) ngx_minify_conf \<Rightarrow> ('h, 'k) ngx_minify_conf) \<Rightarrow> ('h, 'k) ngx_minify_conf conf_setter" where
  "set_types_at e defaults get put args c = map_option (\<lambda>k. put k c) (env_types_slot e args defaults (get c))"

definition ngx_http_minify_filter_commands ::
  "('h, 'k) minify_env \<Rightarrow> ('h, 'k) ngx_minify_conf conf_setter ngx_command_t list" where
  "ngx_http_minify_filter_commands e =
     [\<lparr>dir_name = ''html_minify'',
       dir_type = [NGX_HTTP_MAIN_CONF, NGX_HTTP_SRV_CONF, NGX_HTTP_LOC_CONF, NGX_CONF_FLAG],
       dir_set = set_flag_at (env_flag_slot e) html_enable (\<lambda>v. html_enable_update (\<lambda>_. v)),
       dir_conf = NGX_HTTP_LOC_CONF_OFFSET\<rparr>,
      \<lparr>dir_name = ''html_types'',
       dir_type = [NGX_HTTP_MAIN_CONF, NGX_HTTP_SRV_CONF, NGX_HTTP_LOC_CONF, NGX_CONF_1MORE],
       dir_set = set_types_at e (env_html_types e) html_types_keys (\<lambda>k. html_types_keys_update (\<lambda>_. k)),
       dir_conf = NGX_HTTP_LOC_CONF_OFFSET\<rparr>,
      \<lparr>dir_name = ''css_minify'',
       dir_type = [NGX_HTTP_MAIN_CONF, NGX_HTTP_SRV_CONF, NGX_HTTP_LOC_CONF, NGX_CONF_FLAG],
       dir_set = set_flag_at (env_flag_slot e) css_enable (\<lambda>v. css_enable_update (\<lambda>_. v)),
       dir_conf = NGX_HTTP_LOC_CONF_OFFSET\<rparr>,
      \<lparr>dir_name = ''css_types'',
       dir_type = [NGX_HTTP_MAIN_CONF, NGX_HTTP_SRV_CONF, NGX_HTTP_LOC_CONF, NGX_CONF_1MORE],
       dir_set = set_types_at e ngx_http_css_default_types css_types_keys (\<lambda>k. css_types_keys_update (\<lambda>_. k)),
       dir_conf = NGX_HTTP_LOC_CONF_OFFSET\<rparr>,
      \<lparr>dir_name = ''js_minify'',
       dir_type = [NGX_HTTP_MAIN_CONF, NGX_HTTP_SRV_CONF, NGX_HTTP_LOC_CONF, NGX_CONF_FLAG],
       dir_set = set_flag_at (env_flag_slot e) js_enable (\<lambda>v. js_enable_update (\<lambda>_. v)),
       dir_conf = NGX_HTTP_LOC_CONF_OFFSET\<rparr>,
      \<lparr>dir_name = ''js_types'',
       dir_type = [NGX_HTTP_MAIN_CONF, NGX_HTTP_SRV_CONF, NGX_HTTP_LOC_CONF, NGX_CONF_1MORE],
       dir_set = set_types_at e ngx_http_js_default_types js_types_keys (\<lambda>k. js_types_keys_update (\<lambda>_. k)),
       dir_conf = NGX_HTTP_LOC_CONF_OFFSET\<rparr>]"

text \<open>The merge may also change the types of the outer block, which it shares with its other inner blocks.\<close>

definition minify_merge ::
  "('h, 'k) minify_env \<Rightarrow> ('h, 'k) ngx_minify_conf \<Rightarrow> ('h, 'k) ngx_minify_conf \<Rightarrow> ('h, 'k) ngx_minify_conf option" where
  "minify_merge e prev conf =
     (case ngx_minify_merge_conf (env_merge_value e) (env_merge_types e) (env_html_types e) prev conf of
        (rc, prev, conf) \<Rightarrow> conf_result (rc, conf))"

text \<open>The filters that \<open>ngx_minify_filter_init\<close> installs are \<open>hf\<close> and \<open>bf\<close>.\<close>

definition ngx_http_minify_filter_module_ctx where
  "ngx_http_minify_filter_module_ctx e hf bf =
     \<lparr>preconfiguration = (None :: unit option), postconfiguration = Some (ngx_minify_filter_init hf bf),
      create_main_conf = (None :: unit option), init_main_conf = None,
      create_srv_conf = None, merge_srv_conf = None,
      create_loc_conf = Some (ngx_minify_create_conf (env_pcalloc e) (env_zeroed e)),
      merge_loc_conf = Some (minify_merge e)\<rparr>"

definition ngx_http_minify_filter_module where
  "ngx_http_minify_filter_module e hf bf =
     http_module (ngx_http_minify_filter_module_ctx e hf bf) (ngx_http_minify_filter_commands e)"

section \<open>Strip\<close>

text \<open>The configuration of the strip module is its flag.\<close>

definition ngx_http_strip_filter_commands :: "'e conf_env_scheme \<Rightarrow> int conf_setter ngx_command_t list" where
  "ngx_http_strip_filter_commands e =
     [\<lparr>dir_name = ''strip'',
       dir_type = [NGX_HTTP_MAIN_CONF, NGX_HTTP_SRV_CONF, NGX_HTTP_LOC_CONF, NGX_CONF_FLAG],
       dir_set = set_flag_at (env_flag_slot e) (\<lambda>enable. enable) (\<lambda>v enable. v),
       dir_conf = NGX_HTTP_LOC_CONF_OFFSET\<rparr>]"

definition ngx_http_strip_filter_module_ctx where
  "ngx_http_strip_filter_module_ctx e hf bf =
     \<lparr>preconfiguration = (None :: unit option), postconfiguration = Some (ngx_http_strip_filter_init hf bf),
      create_main_conf = (None :: unit option), init_main_conf = None,
      create_srv_conf = None, merge_srv_conf = None,
      create_loc_conf = Some (ngx_http_strip_create_conf (env_pcalloc e)),
      merge_loc_conf = Some (\<lambda>prev conf. conf_result (ngx_http_strip_merge_conf (env_merge_value e) prev conf))\<rparr>"

definition ngx_http_strip_filter_module where
  "ngx_http_strip_filter_module e hf bf =
     http_module (ngx_http_strip_filter_module_ctx e hf bf) (ngx_http_strip_filter_commands e)"

section \<open>Capcache\<close>

text \<open>
  \<open>capcache_path\<close> also writes the handler of the location, which stands beside the configuration
  and which the merge leaves alone. A result that is a message is an error like \<open>NGX_CONF_ERROR\<close>.
\<close>

record capcache_env = conf_env +
  env_shared_memory_add :: "string \<Rightarrow> shm_zone"

definition ngx_capcache_commands ::
  "capcache_env \<Rightarrow> (ngx_capcache_loc_conf \<times> 'ph option) conf_setter ngx_command_t list" where
  "ngx_capcache_commands e =
     [\<lparr>dir_name = ''capcache'', dir_type = [NGX_HTTP_LOC_CONF, NGX_CONF_FLAG],
       dir_set = set_flag_at (env_flag_slot e) (\<lambda>c. capcache_enable (fst c))
         (\<lambda>v c. (fst c\<lparr>capcache_enable := v\<rparr>, snd c)),
       dir_conf = NGX_HTTP_LOC_CONF_OFFSET\<rparr>,
      \<lparr>dir_name = ''capcache_path'', dir_type = [NGX_HTTP_LOC_CONF, NGX_CONF_TAKE1],
       dir_set = (\<lambda>args c.
         case ngx_capcache_path_conf_slot (env_shared_memory_add e) (hd args) (fst c) (snd c) of
           (rc, conf, handler) \<Rightarrow> (if rc = slot_ok then Some (conf, handler) else None)),
       dir_conf = NGX_HTTP_LOC_CONF_OFFSET\<rparr>]"

definition ngx_capcache_module_ctx where
  "ngx_capcache_module_ctx e hf bf =
     \<lparr>preconfiguration = (None :: unit option), postconfiguration = Some (ngx_capcache_postconfig hf bf),
      create_main_conf = (None :: unit option), init_main_conf = None,
      create_srv_conf = None, merge_srv_conf = None,
      create_loc_conf = Some (map_conf_ptr (\<lambda>conf. (conf, None)) (ngx_capcache_create_loc_conf (env_pcalloc e))),
      merge_loc_conf = Some (\<lambda>prev conf. map_option (\<lambda>c. (c, snd conf))
        (conf_result (ngx_capcache_merge_loc_conf (env_merge_value e) (fst prev) (fst conf))))\<rparr>"

definition ngx_capcache_module ::
  "capcache_env \<Rightarrow> 'hf \<Rightarrow> 'bf \<Rightarrow>
   ((unit, ('hf, 'bf) ngx_filter_chains \<Rightarrow> int \<times> ('hf, 'bf) ngx_filter_chains, unit,
     (ngx_capcache_loc_conf \<times> 'ph option) conf_ptr,
     ngx_capcache_loc_conf \<times> 'ph option \<Rightarrow> ngx_capcache_loc_conf \<times> 'ph option \<Rightarrow>
       (ngx_capcache_loc_conf \<times> 'ph option) option) ngx_http_module_t,
    (ngx_capcache_loc_conf \<times> 'ph option) conf_setter) ngx_module_t" where
  "ngx_capcache_module e hf bf = http_module (ngx_capcache_module_ctx e hf bf) (ngx_capcache_commands e)"

section \<open>Aqb\<close>

record aqb_env = conf_env +
  env_array_create :: "ngx_array option"

definition ngx_http_aqb_cp_filter_commands ::
  "aqb_env \<Rightarrow> ngx_http_aqb_cp_conf conf_setter ngx_command_t list" where
  "ngx_http_aqb_cp_filter_commands e =
     [\<lparr>dir_name = ''coolplay'', dir_type = [NGX_HTTP_LOC_CONF, NGX_CONF_FLAG, NGX_CONF_TAKE1],
       dir_set = set_flag_at (env_flag_slot e) cp_enable (\<lambda>v. cp_enable_update (\<lambda>_. v)),
       dir_conf = NGX_HTTP_LOC_CONF_OFFSET\<rparr>,
      \<lparr>dir_name = ''cp_plugin'', dir_type = [NGX_HTTP_LOC_CONF, NGX_CONF_1MORE],
       dir_set = (\<lambda>args c. conf_result (ngx_http_aqb_cp_load_plugin (env_array_create e) args c)),
       dir_conf = NGX_HTTP_LOC_CONF_OFFSET\<rparr>]"

definition ngx_http_aqb_cp_filter_module_ctx where
  "ngx_http_aqb_cp_filter_module_ctx e hf bf =
     \<lparr>preconfiguration = (None :: unit option), postconfiguration = Some (ngx_http_aqb_cp_filter_init hf bf),
      create_main_conf = (None :: unit option), init_main_conf = None,
      create_srv_conf = None, merge_srv_conf = None,
      create_loc_conf = Some (ngx_http_aqb_cp_create_conf (env_pcalloc e)),
      merge_loc_conf = Some (\<lambda>prev conf. conf_result (ngx_http_aqb_cp_merge_conf (env_merge_value e) prev conf))\<rparr>"

definition ngx_http_aqb_cp_filter_module where
  "ngx_http_aqb_cp_filter_module e hf bf =
     http_module (ngx_http_aqb_cp_filter_module_ctx e hf bf) (ngx_http_aqb_cp_filter_commands e)"

section \<open>Breakpoint\<close>

text \<open>
  The module has no configuration; its directive writes the handler of the location. Its
  argument is the \<open>on\<close> or \<open>off\<close> of a flag, which is not looked at.
\<close>

definition ngx_http_breakpoint_commands :: "'ph \<Rightarrow> 'ph option conf_setter ngx_command_t list" where
  "ngx_http_breakpoint_commands status_handler =
     [\<lparr>dir_name = ''breakpoint'', dir_type = [NGX_HTTP_SRV_CONF, NGX_HTTP_LOC_CONF, NGX_CONF_FLAG],
       dir_set = (\<lambda>args handler. conf_result (ngx_http_set_breakpoint status_handler args handler)),
       dir_conf = NGX_HTTP_MAIN_CONF_OFFSET\<rparr>]"

definition ngx_http_breakpoint_module_ctx :: "(unit, unit, unit, unit, unit) ngx_http_module_t" where
  "ngx_http_breakpoint_module_ctx =
     \<lparr>preconfiguration = None, postconfiguration = None, create_main_conf = None, init_main_conf = None,
      create_srv_conf = None, merge_srv_conf = None, create_loc_conf = None, merge_loc_conf = None\<rparr>"

definition ngx_http_breakpoint_module where
  "ngx_http_breakpoint_module status_handler =
     http_module ngx_http_breakpoint_module_ctx (ngx_http_breakpoint_commands status_handler)"

section \<open>The flags of the modules\<close>

lemma merge_value_flag:
  "conf_env_ok e \<Longrightarrow> env_merge_value e c p d = (if c = NGX_CONF_UNSET then if p = NGX_CONF_UNSET then d else p else c)"
  by (simp add: conf_env_ok_def merge_value_spec_def)

lemma minify_merge_flags:
  assumes "minify_merge e prev c = Some c'"
  shows "html_enable c' = env_merge_value e (html_enable c) (html_enable prev) 0"
    "css_enable c' = env_merge_value e (css_enable c) (css_enable prev) 0"
    "js_enable c' = env_merge_value e (js_enable c) (js_enable prev) 0"
  using assms by (auto simp: minify_merge_def ngx_minify_merge_conf_def Let_def split: prod.splits if_splits)

lemma set_flag_env:
  "set_flag_at (env_flag_slot e) get put args c = Some c' \<Longrightarrow> conf_env_ok e \<Longrightarrow>
   get c = NGX_CONF_UNSET \<and> c' = put (flag_of (hd args)) c"
  by (auto simp: conf_env_ok_def dest: set_flag_at_Some)

interpretation html_flag: inherited_flag conf_env_ok ngx_http_minify_filter_commands
  "\<lambda>e. ngx_minify_create_conf (env_pcalloc e) (env_zeroed e)" minify_merge html_enable "''html_minify''"
  by unfold_locales
    (auto simp: ngx_http_minify_filter_commands_def ngx_minify_create_conf_def set_types_at_def
      minify_merge_flags merge_value_flag dest!: set_flag_env split: if_splits)

interpretation css_flag: inherited_flag conf_env_ok ngx_http_minify_filter_commands
  "\<lambda>e. ngx_minify_create_conf (env_pcalloc e) (env_zeroed e)" minify_merge css_enable "''css_minify''"
  by unfold_locales
    (auto simp: ngx_http_minify_filter_commands_def ngx_minify_create_conf_def set_types_at_def
      minify_merge_flags merge_value_flag dest!: set_flag_env split: if_splits)

interpretation js_flag: inherited_flag conf_env_ok ngx_http_minify_filter_commands
  "\<lambda>e. ngx_minify_create_conf (env_pcalloc e) (env_zeroed e)" minify_merge js_enable "''js_minify''"
  by unfold_locales
    (auto simp: ngx_http_minify_filter_commands_def ngx_minify_create_conf_def set_types_at_def
      minify_merge_flags merge_value_flag dest!: set_flag_env split: if_splits)

interpretation strip_flag: inherited_flag conf_env_ok ngx_http_strip_filter_commands
  "\<lambda>e. ngx_http_strip_create_conf (env_pcalloc e)"
  "\<lambda>e prev conf. conf_result (ngx_http_strip_merge_conf (env_merge_value e) prev conf)" "\<lambda>enable. enable" "''strip''"
  by unfold_locales
    (auto simp: ngx_http_strip_filter_commands_def ngx_http_strip_create_conf_def ngx_http_strip_merge_conf_def
      merge_value_flag dest!: set_flag_env split: if_splits)

interpretation aqb_flag: inherited_flag conf_env_ok ngx_http_aqb_cp_filter_commands
  "\<lambda>e. ngx_http_aqb_cp_create_conf (env_pcalloc e)"
  "\<lambda>e prev conf. conf_result (ngx_http_aqb_cp_merge_conf (env_merge_value e) prev conf)" cp_enable "''coolplay''"
  by unfold_locales
    (auto simp: ngx_http_aqb_cp_filter_commands_def ngx_http_aqb_cp_create_conf_def ngx_http_aqb_cp_merge_conf_def
      ngx_http_aqb_cp_load_plugin_def Let_def merge_value_flag dest!: set_flag_env split: if_splits)

interpretation capcache_flag: inherited_flag conf_env_ok ngx_capcache_commands
  "\<lambda>e. map_conf_ptr (\<lambda>conf. (conf, None)) (ngx_capcache_create_loc_conf (env_pcalloc e))"
  "\<lambda>e prev conf. map_option (\<lambda>c. (c, snd conf))
    (conf_result (ngx_capcache_merge_loc_conf (env_merge_value e) (fst prev) (fst conf)))"
  "\<lambda>c. capcache_enable (fst c)" "''capcache''"
  by unfold_locales
    (auto simp: ngx_capcache_commands_def ngx_capcache_create_loc_conf_def ngx_capcache_merge_loc_conf_def
      ngx_capcache_path_conf_slot_def Let_def merge_value_flag dest!: set_flag_env split: if_splits)

section \<open>Properties\<close>

lemmas minify_module = ngx_http_minify_filter_module_def ngx_http_minify_filter_module_ctx_def
lemmas aqb_module = ngx_http_aqb_cp_filter_module_def ngx_http_aqb_cp_filter_module_ctx_def

text \<open>
  C23: \<open>html_minify\<close>, \<open>css_minify\<close> and \<open>js_minify\<close>. Whatever directives of the module stand in the
  blocks around a location, each flag of the location has the value of the innermost
  directive of its name, and is off where there is none; so where all three are off the header
  filter lets every response pass.
\<close>

theorem minify_flags_inherited:
  assumes "conf_env_ok e"
    and "calls_of (outer # inner) \<subseteq> set (mod_commands (ngx_http_minify_filter_module e hf bf))" "inner \<noteq> []"
    and "module_conf (ngx_http_minify_filter_module e hf bf) outer inner = ret (Some conf)"
  shows "html_enable conf = innermost ''html_minify'' (outer # inner) \<and>
    css_enable conf = innermost ''css_minify'' (outer # inner) \<and>
    js_enable conf = innermost ''js_minify'' (outer # inner) \<and>
    ((\<forall>n\<in>{''html_minify'', ''css_minify'', ''js_minify''}. innermost n (outer # inner) = 0) \<longrightarrow>
      ngx_http_minify_header_filter test got clear_cl clear_ar next_hf conf r = (next_hf r, r))"
  using html_flag.module_flag [OF assms(1) _ _ _ assms(2-4)] css_flag.module_flag [OF assms(1) _ _ _ assms(2-4)]
    js_flag.module_flag [OF assms(1) _ _ _ assms(2-4)]
  by (simp add: minify_module ngx_http_minify_header_filter_def minify_passes_by_def)

text \<open>An environment for concrete runs.\<close>

definition flag_slot_at :: "string \<Rightarrow> int \<Rightarrow> int option" where
  "flag_slot_at arg old =
     (if old \<noteq> NGX_CONF_UNSET then None
      else if ci_eq arg ''on'' then Some 1 else if ci_eq arg ''off'' then Some 0 else None)"

lemma flag_words:
  "ci_eq ''on'' ''on''"  "ci_eq ''On'' ''on''"  "\<not> ci_eq ''off'' ''on''"  "ci_eq ''off'' ''off''"
  by code_simp+

definition demo_minify_env :: "(string list, string list) minify_env" where
  "demo_minify_env =
     \<lparr>env_pcalloc = True, env_flag_slot = flag_slot_at, env_merge_value = merge_value_at NGX_CONF_UNSET,
      env_types_slot = (\<lambda>args defaults keys. Some (keys @ defaults @ args)),
      env_merge_types = (\<lambda>(k, h) (pk, ph) defaults. let k = (if k = [] then pk else k) in
        (True, (k, if k = [] then defaults else k), (pk, ph))),
      env_html_types = [''text/html''],
      env_zeroed = \<lparr>html_enable = 0, css_enable = 0, js_enable = 0, html_types = [], html_types_keys = [],
        css_types = [], css_types_keys = [], js_types = [], js_types_keys = []\<rparr>\<rparr>"

lemma demo_minify_env_ok: "conf_env_ok demo_minify_env"
  by (simp add: conf_env_ok_def demo_minify_env_def flag_slot_spec_def flag_slot_at_def)

definition demo_minify_blocks :: "(string list, string list) ngx_minify_conf conf_block list" where
  "demo_minify_blocks =
     (let dir = (!) (ngx_http_minify_filter_commands demo_minify_env) in
      [(NGX_HTTP_MAIN_CONF, [(dir 0, [''on'']), (dir 4, [''On''])]),
       (NGX_HTTP_SRV_CONF, [(dir 3, [''text/x-css''])]),
       (NGX_HTTP_LOC_CONF, [(dir 0, [''off''])])])"

lemma demo_minify_conf:
  "module_conf (ngx_http_minify_filter_module demo_minify_env hf bf) (hd demo_minify_blocks) (tl demo_minify_blocks) =
    ret (Some \<lparr>html_enable = 0, css_enable = 0, js_enable = 1, html_types = [''text/html''], html_types_keys = [],
      css_types = [''text/css'', ''text/x-css''], css_types_keys = [''text/css'', ''text/x-css''],
      js_types = [''application/javascript'', ''application/x-javascript''], js_types_keys = []\<rparr>)"
  by (simp add: module_conf_def location_conf_def bindC_def read_block_def demo_minify_blocks_def Let_def
      minify_module ngx_http_minify_filter_commands_def demo_minify_env_def ngx_minify_create_conf_def
      call_directive_def dir_args_ok_def set_flag_at_def set_types_at_def flag_slot_at_def flag_words
      minify_merge_def ngx_minify_merge_conf_def merge_value_at_def ngx_http_css_default_types_def
      ngx_http_js_default_types_def)

theorem minify_flags_inherited_witness:
  "\<exists>conf. module_conf (ngx_http_minify_filter_module demo_minify_env () ()) (hd demo_minify_blocks) (tl demo_minify_blocks) =
      ret (Some conf) \<and>
    html_enable conf = 0 \<and> css_enable conf = 0 \<and> js_enable conf = 1"
proof -
  have calls: "calls_of (hd demo_minify_blocks # tl demo_minify_blocks) \<subseteq>
    set (mod_commands (ngx_http_minify_filter_module demo_minify_env () ()))"
    by (simp add: calls_of_def demo_minify_blocks_def Let_def ngx_http_minify_filter_module_def
        ngx_http_minify_filter_commands_def)
  have ne: "tl demo_minify_blocks \<noteq> []" by (simp add: demo_minify_blocks_def Let_def)
  have "innermost ''html_minify'' demo_minify_blocks = 0" "innermost ''css_minify'' demo_minify_blocks = 0"
    "innermost ''js_minify'' demo_minify_blocks = 1"
    by code_simp+
  moreover have "hd demo_minify_blocks # tl demo_minify_blocks = demo_minify_blocks"
    by (simp add: demo_minify_blocks_def Let_def)
  moreover obtain conf where conf: "module_conf (ngx_http_minify_filter_module demo_minify_env () ())
      (hd demo_minify_blocks) (tl demo_minify_blocks) = ret (Some conf)"
    by (rule that [OF demo_minify_conf])
  ultimately show ?thesis
    using minify_flags_inherited [OF demo_minify_env_ok calls ne conf] by simp
qed

text \<open>
  The same holds of the flags of the other modules. For the strip module and for capcache it decides
  whether a response is touched.
\<close>

lemma strip_flag_inherited:
  assumes "conf_env_ok e"
    and "calls_of (outer # inner) \<subseteq> set (mod_commands (ngx_http_strip_filter_module e hf bf))" "inner \<noteq> []"
    and "module_conf (ngx_http_strip_filter_module e hf bf) outer inner = ret (Some enable)"
  shows "enable = innermost ''strip'' (outer # inner)"
  using strip_flag.module_flag [OF assms(1) _ _ _ assms(2-4)] by (simp add: ngx_http_strip_filter_module_def ngx_http_strip_filter_module_ctx_def)

lemma aqb_flag_inherited:
  assumes "conf_env_ok e"
    and "calls_of (outer # inner) \<subseteq> set (mod_commands (ngx_http_aqb_cp_filter_module e hf bf))" "inner \<noteq> []"
    and "module_conf (ngx_http_aqb_cp_filter_module e hf bf) outer inner = ret (Some conf)"
  shows "cp_enable conf = innermost ''coolplay'' (outer # inner)"
  using aqb_flag.module_flag [OF assms(1) _ _ _ assms(2-4)] by (simp add: aqb_module)

lemma capcache_flag_inherited:
  assumes "conf_env_ok e"
    and "calls_of (outer # inner) \<subseteq> set (mod_commands (ngx_capcache_module e hf bf))" "inner \<noteq> []"
    and "module_conf (ngx_capcache_module e hf bf) outer inner = ret (Some conf)"
  shows "capcache_enable (fst conf) = innermost ''capcache'' (outer # inner)"
  using capcache_flag.module_flag [OF assms(1) _ _ _ assms(2-4)] by (simp add: ngx_capcache_module_def ngx_capcache_module_ctx_def)

lemma run_calls_plugins:
  assumes "fst ` set calls \<subseteq> set (ngx_http_aqb_cp_filter_commands e)" "run_calls place calls c = Some c'"
  shows "plugins c' = (if plugins c = None \<and> (\<exists>call\<in>set calls. dir_name (fst call) = ''cp_plugin'')
      then env_array_create e else plugins c) \<and>
    ((\<exists>call\<in>set calls. dir_name (fst call) = ''cp_plugin'') \<longrightarrow> plugins c' \<noteq> None)"
  using assms
proof (induction calls arbitrary: c)
  case Nil
  then show ?case by simp
next
  case (Cons call calls)
  then obtain c1 where c1: "dir_set (fst call) (snd call) c = Some c1" "run_calls place calls c1 = Some c'"
    by (auto simp: call_directive_def bind_eq_Some_conv split: if_splits)
  have "dir_name (fst call) = ''coolplay'' \<and> plugins c1 = plugins c \<or>
    dir_name (fst call) = ''cp_plugin'' \<and> plugins c1 = (if plugins c = None then env_array_create e else plugins c) \<and>
    plugins c1 \<noteq> None"
    using Cons.prems(1) c1(1)
    by (auto simp: ngx_http_aqb_cp_filter_commands_def set_flag_at_def ngx_http_aqb_cp_load_plugin_def Let_def
        conf_result_def split: if_splits)
  moreover have "fst ` set calls \<subseteq> set (ngx_http_aqb_cp_filter_commands e)" using Cons.prems(1) by simp
  ultimately show ?case using Cons.IH [OF _ c1(2)] by (auto split: if_splits)
qed

text \<open>
  C38: the filters of the aqb module, in a location whose configuration was read with any directives of
  the module. Where \<open>coolplay\<close> is on and the location itself has a \<open>cp_plugin\<close>, the header filter reads
  the number of plugins in an array of \<open>cf->temp_pool\<close>, freed memory once the configuration is read;
  in every other location, and while the pool still stands, it passes the request on as it is. No
  context is made, and the body filter passes on every chain of a request without one.
\<close>

theorem aqb_passes_or_reads_freed:
  assumes "conf_env_ok e" "fresh_array (env_array_create e)"
    and "calls_of (outer # inner) \<subseteq> set (mod_commands (ngx_http_aqb_cp_filter_module e hf bf))" "inner \<noteq> []"
    and "module_conf (ngx_http_aqb_cp_filter_module e hf bf) outer inner = ret (Some conf)" "aqb_ctx r = None"
  shows "ngx_http_aqb_cp_header_filter temp_pool memory clear_cl clear_ar next_hf conf r =
      (if innermost ''coolplay'' (outer # inner) \<noteq> 0 \<and>
          (\<exists>call\<in>set (snd (last inner)). dir_name (fst call) = ''cp_plugin'') \<and> \<not> temp_pool
       then fail FreedMemory else ret (next_hf r)) \<and>
    ngx_http_aqb_cp_body_filter temp_pool buf_size calloc_buf alloc_link next_bf conf r chain = ret (next_bf r chain)"
proof -
  let ?plugin = "\<exists>call\<in>set (snd (last inner)). dir_name (fst call) = ''cp_plugin''"
  have "module_conf (ngx_http_aqb_cp_filter_module e hf bf) outer inner =
    location_conf (ngx_http_aqb_cp_create_conf (env_pcalloc e))
      (\<lambda>prev conf. conf_result (ngx_http_aqb_cp_merge_conf (env_merge_value e) prev conf)) outer inner"
    by (simp add: module_conf_def aqb_module)
  with assms(5) obtain c1 where c1: "merge_blocks (ngx_http_aqb_cp_create_conf (env_pcalloc e))
      (\<lambda>prev conf. conf_result (ngx_http_aqb_cp_merge_conf (env_merge_value e) prev conf)) c1 inner = ret (Some conf)"
    by (auto simp: location_conf_def bindC_Some)
  obtain c0 where c0: "read_block (ngx_http_aqb_cp_create_conf (env_pcalloc e)) (last inner) = ret (Some c0)"
    "plugins conf = plugins c0"
    by (rule merge_blocks_own [where f = plugins, OF _ c1 assms(4)]) (auto simp: ngx_http_aqb_cp_merge_conf_def)
  have table: "fst ` set (snd (last inner)) \<subseteq> set (ngx_http_aqb_cp_filter_commands e)"
    using assms(3) last_in_set [OF assms(4)] by (fastforce simp: calls_of_def aqb_module)
  from c0(1) obtain c where "run_calls (fst (last inner)) (snd (last inner)) c = Some c0" "plugins c = None"
    by (auto simp: read_block_Some ngx_http_aqb_cp_create_conf_def split: if_splits)
  then have plugins: "plugins conf = (if ?plugin then env_array_create e else None)" "?plugin \<longrightarrow> plugins conf \<noteq> None"
    using run_calls_plugins [OF table, of "fst (last inner)" c c0] c0(2) by argo+
  have "cp_enable conf = innermost ''coolplay'' (outer # inner)"
    using aqb_flag.module_flag [OF assms(1) _ _ _ assms(3-5)] by (simp add: aqb_module)
  moreover have "fresh_array (plugins conf)" using assms(2) plugins(1) by (simp add: fresh_array_def)
  moreover have "plugins conf \<noteq> None \<longleftrightarrow> ?plugin" using plugins by auto
  ultimately show ?thesis using body_filter_no_ctx [OF assms(6)] by (simp add: header_filter_fresh)
qed

definition demo_aqb_env :: aqb_env where
  "demo_aqb_env =
     \<lparr>env_pcalloc = True, env_flag_slot = flag_slot_at, env_merge_value = merge_value_at NGX_CONF_UNSET,
      env_array_create = Some (demo_array 0)\<rparr>"

definition demo_aqb_blocks :: "ngx_http_aqb_cp_conf conf_block list" where
  "demo_aqb_blocks =
     (let dir = (!) (ngx_http_aqb_cp_filter_commands demo_aqb_env) in
      [(NGX_HTTP_MAIN_CONF, []), (NGX_HTTP_SRV_CONF, []),
       (NGX_HTTP_LOC_CONF, [(dir 0, [''on'']), (dir 1, [''a.so'', ''b''])])])"

lemma demo_aqb_conf:
  "module_conf (ngx_http_aqb_cp_filter_module demo_aqb_env hf bf) (hd demo_aqb_blocks) (tl demo_aqb_blocks) =
    ret (Some \<lparr>cp_enable = 1, plugins = Some (demo_array 0)\<rparr>)"
  by (simp add: module_conf_def location_conf_def bindC_def read_block_def demo_aqb_blocks_def Let_def
      aqb_module ngx_http_aqb_cp_filter_commands_def demo_aqb_env_def ngx_http_aqb_cp_create_conf_def
      call_directive_def dir_args_ok_def set_flag_at_def flag_slot_at_def flag_words
      ngx_http_aqb_cp_merge_conf_def ngx_http_aqb_cp_load_plugin_def merge_value_at_def)

theorem aqb_passes_or_reads_freed_witness:
  "ngx_http_aqb_cp_header_filter False True id id (\<lambda>r. (0, r)) \<lparr>cp_enable = 1, plugins = Some (demo_array 0)\<rparr>
      demo_aqb_request = fail FreedMemory \<and>
    ngx_http_aqb_cp_body_filter False (\<lambda>_. 1) (\<lambda>_. True) (\<lambda>_. True) (\<lambda>r bs. (int (length bs), r))
      \<lparr>cp_enable = 1, plugins = Some (demo_array 0)\<rparr> demo_aqb_request [demo_aqb_buf] = ret (1, demo_aqb_request)"
proof -
  have env: "conf_env_ok demo_aqb_env" "fresh_array (env_array_create demo_aqb_env)"
    by (simp_all add: conf_env_ok_def demo_aqb_env_def flag_slot_spec_def flag_slot_at_def fresh_array_def demo_array_def)
  have calls: "calls_of (hd demo_aqb_blocks # tl demo_aqb_blocks) \<subseteq>
    set (mod_commands (ngx_http_aqb_cp_filter_module demo_aqb_env () ()))"
    by (simp add: calls_of_def demo_aqb_blocks_def Let_def aqb_module ngx_http_aqb_cp_filter_commands_def)
  have ne: "tl demo_aqb_blocks \<noteq> []" by (simp add: demo_aqb_blocks_def Let_def)
  have r: "aqb_ctx demo_aqb_request = None" by (simp add: demo_aqb_request_def)
  have "innermost ''coolplay'' (hd demo_aqb_blocks # tl demo_aqb_blocks) \<noteq> 0"
    "\<exists>call\<in>set (snd (last (tl demo_aqb_blocks))). dir_name (fst call) = ''cp_plugin''"
    by (simp_all add: demo_aqb_blocks_def Let_def ngx_http_aqb_cp_filter_commands_def innermost_def flag_of_def flag_words)
  then show ?thesis
    using aqb_passes_or_reads_freed [OF env calls ne demo_aqb_conf r, where temp_pool = False] by simp
qed

section \<open>Without memory\<close>

text \<open>
  Without memory the functions of four modules that make a configuration return \<open>NGX_CONF_ERROR\<close>,
  where nginx looks for a null pointer. So the reading does not end with an error, but goes on
  with an invalid pointer.
\<close>

lemma location_conf_invalid: "location_conf conf_invalid merge outer inner = fail InvalidPointer"
  by (simp add: location_conf_def read_block_def bindC_def)

lemma no_memory_no_error:
  "\<not> env_pcalloc e1 \<Longrightarrow> module_conf (ngx_http_minify_filter_module e1 hf bf) outer1 inner1 = fail InvalidPointer"
  "\<not> env_pcalloc e2 \<Longrightarrow> module_conf (ngx_http_strip_filter_module e2 hf bf) outer2 inner2 = fail InvalidPointer"
  "\<not> env_pcalloc e3 \<Longrightarrow> module_conf (ngx_http_aqb_cp_filter_module e3 hf bf) outer3 inner3 = fail InvalidPointer"
  "\<not> env_pcalloc e4 \<Longrightarrow> module_conf (ngx_capcache_module e4 hf bf) outer4 inner4 = fail InvalidPointer"
  by (simp_all add: module_conf_def location_conf_invalid minify_module aqb_module ngx_http_strip_filter_module_def
      ngx_http_strip_filter_module_ctx_def ngx_capcache_module_def ngx_capcache_module_ctx_def
      ngx_minify_create_conf_def ngx_http_strip_create_conf_def ngx_http_aqb_cp_create_conf_def
      ngx_capcache_create_loc_conf_def)

section \<open>The status page\<close>

text \<open>\<open>breakpoint off\<close> installs the status page, and \<open>breakpoint\<close> alone is no directive.\<close>

lemma breakpoint_off_installs:
  "call_directive NGX_HTTP_LOC_CONF
     (hd (mod_commands (ngx_http_breakpoint_module status_handler)), args) handler =
   (if length args = 1 then Some (Some status_handler) else None)"
  by (simp add: ngx_http_breakpoint_module_def ngx_http_breakpoint_commands_def call_directive_def dir_args_ok_def
      ngx_http_set_breakpoint_def)

end
