(* ===== verification/Cache_Info.thy ===== *)
theory Cache_Info
  imports Ngx_Core
begin

text \<open>
  The utility \<open>src/utils/cache_info/cache_info.c\<close>, which shows the header of a cache file of nginx
  and changes its time of expiry. A file is the list of its bytes; the header is the structure of
  \<open>src/utils/cache_info/ngx_http_cache.h\<close> as it lies in memory on a 64-bit little-endian machine.
  What the program prints is kept as a list of messages.
\<close>

section \<open>Words in memory\<close>

fun le_bytes :: "nat \<Rightarrow> nat \<Rightarrow> string" where
  "le_bytes 0 v = []"
| "le_bytes (Suc n) v = char_of v # le_bytes n (v div 256)"

fun le_value :: "string \<Rightarrow> nat" where
  "le_value [] = 0"
| "le_value (ch # chs) = of_char ch + 256 * le_value chs"

lemma le_bytes_length [simp]: "length (le_bytes n v) = n"
  by (induction n arbitrary: v) simp_all

lemma le_value_bytes: "v < 256 ^ n \<Longrightarrow> le_value (le_bytes n v) = v"
proof (induction n arbitrary: v)
  case (Suc n)
  then have "v div 256 < 256 ^ n" by (simp add: div_less_iff_less_mult mult.commute)
  then show ?case using Suc.IH by simp
qed simp

lemma char_of_value: "char_of (of_char ch + 256 * v :: nat) = ch"
proof -
  have "char_of (of_char ch + 256 * v :: nat) = char_of ((of_char ch + 256 * v) mod 256)"
    by (simp only: char_of_mod_256)
  also have "(of_char ch + 256 * v :: nat) mod 256 = of_char ch mod 256" by simp
  finally show ?thesis by (simp only: char_of_mod_256 char_of_char)
qed

lemma le_bytes_value: "le_bytes (length bs) (le_value bs) = bs"
  by (induction bs) (simp_all add: char_of_value)

lemma le_value_less: "le_value bs < 256 ^ length bs"
proof (induction bs)
  case (Cons ch chs)
  have "v < 256 \<Longrightarrow> v + 256 * le_value chs < 256 * Suc (le_value chs)" for v :: nat by simp
  then have "of_char ch + 256 * le_value chs < 256 * Suc (le_value chs)" by simp
  also have "256 * Suc (le_value chs) \<le> 256 * 256 ^ length chs"
    using Cons by (intro mult_le_mono) simp_all
  finally show ?case by simp
qed simp

definition word_bytes :: "nat \<Rightarrow> 'w::len word \<Rightarrow> string" where
  "word_bytes n w = le_bytes n (unat w)"

definition bytes_word :: "string \<Rightarrow> 'w::len word" where
  "bytes_word bs = word_of_nat (le_value bs)"

section \<open>Values of a fixed width\<close>

text \<open>
  The contract of a representation in \<open>width\<close> bytes: every value has one, and every list of \<open>width\<close>
  bytes represents a value.
\<close>

locale codec =
  fixes width :: nat and enc :: "'a \<Rightarrow> string" and dec :: "string \<Rightarrow> 'a"
  assumes enc_length: "length (enc a) = width"
    and dec_enc: "dec (enc a) = a"
    and enc_dec: "length bs = width \<Longrightarrow> enc (dec bs) = bs"
begin

lemma dec_prefix: "dec (take width (enc a @ bs)) = a"
  by (simp add: enc_length dec_enc)

lemma drop_prefix: "drop width (enc a @ bs) = bs"
  by (simp add: enc_length)

text \<open>A read, a change and a write at the start of a file, and then the change taken back.\<close>

lemma rewrite_back:
  assumes "width \<le> length bs" "g (f (dec (take width bs))) = dec (take width bs)"
    and "bs' = enc (f (dec (take width bs))) @ drop width bs"
  shows "enc (g (dec (take width bs'))) @ drop width bs' = bs"
  unfolding assms(3) dec_prefix drop_prefix assms(2) using assms(1) by (simp add: enc_dec)

end

lemma word_codec:
  assumes "LENGTH('w::len) = 8 * n"
  shows "codec n (word_bytes n :: 'w word \<Rightarrow> string) bytes_word"
proof
  have p: "(256 :: nat) ^ n = 2 ^ LENGTH('w)"
    by (simp add: assms power_mult)
  show "length (word_bytes n a) = n" for a :: "'w word" by (simp add: word_bytes_def)
  show "bytes_word (word_bytes n a) = a" for a :: "'w word"
    using unsigned_less [of a] by (simp add: word_bytes_def bytes_word_def le_value_bytes p)
  show "word_bytes n (bytes_word bs :: 'w word) = bs" if "length bs = n" for bs
  proof -
    have "le_value bs < 2 ^ LENGTH('w)" using le_value_less [of bs] that p by simp
    then have "unat (bytes_word bs :: 'w word) = le_value bs"
      by (simp add: bytes_word_def unsigned_of_nat take_bit_nat_eq_self)
    then show ?thesis using le_bytes_value [of bs] that by (simp add: word_bytes_def)
  qed
qed

interpretation w64: codec 8 "word_bytes 8 :: 64 word \<Rightarrow> string" bytes_word
  by (rule word_codec) simp

interpretation w48: codec 6 "word_bytes 6 :: 48 word \<Rightarrow> string" bytes_word
  by (rule word_codec) simp

interpretation w32: codec 4 "word_bytes 4 :: 32 word \<Rightarrow> string" bytes_word
  by (rule word_codec) simp

interpretation w16: codec 2 "word_bytes 2 :: 16 word \<Rightarrow> string" bytes_word
  by (rule word_codec) simp

section \<open>The header of a cache file\<close>

text \<open>\<open>padding\<close> is the six bytes the compiler adds at the end of the structure.\<close>

record ngx_http_file_cache_header_t =
  valid_sec :: "64 word"
  last_modified :: "64 word"
  date :: "64 word"
  crc32 :: "32 word"
  valid_msec :: "16 word"
  header_start :: "16 word"
  body_start :: "16 word"
  padding :: "48 word"

abbreviation sizeof_header :: nat where "sizeof_header \<equiv> 40"

definition header_bytes :: "ngx_http_file_cache_header_t \<Rightarrow> string" where
  "header_bytes h =
     word_bytes 8 (valid_sec h) @ word_bytes 8 (last_modified h) @ word_bytes 8 (date h) @
     word_bytes 4 (crc32 h) @ word_bytes 2 (valid_msec h) @ word_bytes 2 (header_start h) @
     word_bytes 2 (body_start h) @ word_bytes 6 (padding h)"

definition bytes_header :: "string \<Rightarrow> ngx_http_file_cache_header_t" where
  "bytes_header bs =
     \<lparr>valid_sec = bytes_word (take 8 bs), last_modified = bytes_word (take 8 (drop 8 bs)),
      date = bytes_word (take 8 (drop 16 bs)), crc32 = bytes_word (take 4 (drop 24 bs)),
      valid_msec = bytes_word (take 2 (drop 28 bs)), header_start = bytes_word (take 2 (drop 30 bs)),
      body_start = bytes_word (take 2 (drop 32 bs)), padding = bytes_word (take 6 (drop 34 bs))\<rparr>"

interpretation header: codec 40 header_bytes bytes_header
proof
  show "length (header_bytes h) = sizeof_header" for h
    by (simp add: header_bytes_def w64.enc_length w48.enc_length w32.enc_length w16.enc_length)
  show "bytes_header (header_bytes h) = h" for h
    by (simp add: header_bytes_def bytes_header_def w64.enc_length w48.enc_length w32.enc_length
        w16.enc_length w64.dec_enc w48.dec_enc w32.dec_enc w16.dec_enc)
  show "header_bytes (bytes_header bs) = bs" if len: "length bs = sizeof_header" for bs
  proof -
    have "header_bytes (bytes_header bs) =
      take 8 bs @ take 8 (drop 8 bs) @ take 8 (drop 16 bs) @ take 4 (drop 24 bs) @ take 2 (drop 28 bs) @
      take 2 (drop 30 bs) @ take 2 (drop 32 bs) @ take 6 (drop 34 bs)"
      using len by (simp add: header_bytes_def bytes_header_def w64.enc_dec w48.enc_dec w32.enc_dec w16.enc_dec)
    also have "\<dots> = take (8 + (8 + (8 + (4 + (2 + (2 + (2 + 6))))))) bs"
      by (simp only: take_add drop_drop) simp
    finally show ?thesis using len by simp
  qed
qed

section \<open>The program\<close>

datatype message =
    file_open_error string
  | read_error string
  | write_error string
  | arg_error string
  | add_secs char int
  | dumped ngx_http_file_cache_header_t
  | usage string

text \<open>
  The machine: which files can be opened for reading and for writing, and how many bytes of a write
  reach a file.
\<close>

record host =
  readable :: "string \<Rightarrow> bool"
  writable :: "string \<Rightarrow> bool"
  room :: "string \<Rightarrow> nat"

record cache_info =
  files :: "string \<Rightarrow> string option"
  cache_header :: ngx_http_file_cache_header_t
  printed :: "message list"

definition printf :: "message \<Rightarrow> cache_info \<Rightarrow> cache_info" where
  "printf m s = s\<lparr>printed := printed s @ [m]\<rparr>"

definition cache_header_dump :: "cache_info \<Rightarrow> cache_info" where
  "cache_header_dump s = printf (dumped (cache_header s)) s"

text \<open>
  \<open>fread\<close> of one structure: what a file holds is put over the zeroed structure, and it is an error
  when the file is shorter.
\<close>

definition cache_header_show :: "host \<Rightarrow> string \<Rightarrow> bool \<Rightarrow> cache_info \<Rightarrow> cache_info" where
  "cache_header_show host fname isshow s =
     (case files s fname of
        None \<Rightarrow> printf (file_open_error fname) s
      | Some content \<Rightarrow>
          if \<not> readable host fname then printf (file_open_error fname) s
          else
            (let s = s\<lparr>cache_header := bytes_header
                  (take sizeof_header content @ replicate (sizeof_header - length content) NUL)\<rparr> in
             if length content < sizeof_header then printf (read_error fname) s
             else if isshow then cache_header_dump s else s))"

text \<open>
  Signed numbers. What is outside the width of its type is undefined in C, here the fault
  \<open>SignedOverflow\<close>: for a number read as an \<open>int\<close>, and for the sum and the difference of a \<open>time_t\<close> and an
  \<open>int\<close>.
\<close>

definition fits :: "nat \<Rightarrow> int \<Rightarrow> bool" where
  "fits width v = (- (2 ^ (width - 1)) \<le> v \<and> v < 2 ^ (width - 1))"

definition store_int :: "int \<Rightarrow> 32 word outcome" where
  "store_int n = (if fits 32 n then ret (word_of_int n) else fail SignedOverflow)"

definition move_time :: "(int \<Rightarrow> int \<Rightarrow> int) \<Rightarrow> 64 word \<Rightarrow> 32 word \<Rightarrow> 64 word outcome" where
  "move_time f t secs =
     (let v = f (sint t) (sint secs) in if fits 64 v then ret (word_of_int v) else fail SignedOverflow)"

text \<open>\<open>%d\<close> of \<open>sscanf\<close>, and \<open>atoi\<close>: white space, a sign, digits.\<close>

definition scan_digits :: "string \<Rightarrow> int option" where
  "scan_digits s =
     (let ds = takeWhile is_digit s in
      if ds = [] then None else Some (int (foldl (\<lambda>n ch. 10 * n + digit_of ch) 0 ds)))"

definition scan_int :: "string \<Rightarrow> int option" where
  "scan_int s =
     (case dropWhile isspace_c s of
        [] \<Rightarrow> None
      | ch # chs \<Rightarrow>
          if ch = CHR ''-'' then map_option uminus (scan_digits chs)
          else if ch = CHR ''+'' then scan_digits chs
          else scan_digits (ch # chs))"

definition atoi :: "string \<Rightarrow> 32 word outcome" where
  "atoi s = (case scan_int s of None \<Rightarrow> ret 0 | Some n \<Rightarrow> store_int n)"

text \<open>The offset is cut to the sixteen bits of its field.\<close>

definition cache_header_bodyoffset_modify :: "string \<Rightarrow> cache_info \<Rightarrow> (int \<times> cache_info) outcome" where
  "cache_header_bodyoffset_modify bodyoffset s =
     bindO (atoi bodyoffset) (\<lambda>n. ret (0, s\<lparr>cache_header := (cache_header s)\<lparr>body_start := ucast n\<rparr>\<rparr>))"

definition cache_header_expired_modify :: "string \<Rightarrow> cache_info \<Rightarrow> (int \<times> cache_info) outcome" where
  "cache_header_expired_modify expired s =
     (case expired of
        [] \<Rightarrow> ret (-1, printf (arg_error expired) s)
      | ope # rest \<Rightarrow>
          (case scan_int rest of
             None \<Rightarrow> ret (-1, printf (arg_error expired) s)
           | Some n \<Rightarrow>
               bindO (store_int n) (\<lambda>secs.
                 let s = printf (add_secs ope (sint secs)) s; h = cache_header s in
                 bindO (if ope = CHR ''+'' then move_time (+) (valid_sec h) secs
                        else move_time (-) (valid_sec h) secs)
                   (\<lambda>t. ret (0, s\<lparr>cache_header := h\<lparr>valid_sec := t\<rparr>\<rparr>)))))"

definition update_cache_file :: "host \<Rightarrow> string \<Rightarrow> cache_info \<Rightarrow> int \<times> cache_info" where
  "update_cache_file host fname s =
     (case files s fname of
        None \<Rightarrow> (-2, printf (file_open_error fname) s)
      | Some content \<Rightarrow>
          if \<not> (readable host fname \<and> writable host fname) then (-2, printf (file_open_error fname) s)
          else
            (let k = min sizeof_header (room host fname);
                 s = s\<lparr>files := (files s)(fname \<mapsto> take k (header_bytes (cache_header s)) @ drop k content)\<rparr> in
             if k < sizeof_header then (-3, printf (write_error fname) s) else (0, s)))"

definition main :: "host \<Rightarrow> string list \<Rightarrow> cache_info \<Rightarrow> (int \<times> cache_info) outcome" where
  "main host argv s =
     (if length argv < 2 \<or> length argv > 4
      then ret (-1, printf (usage (case argv of [] \<Rightarrow> [] | name # _ \<Rightarrow> name)) s)
      else
        bindO (if length argv = 3 then
                 (let s = cache_header_show host (argv ! 1) False s in
                  bindO (cache_header_expired_modify (argv ! 2) s) (\<lambda>(_, s).
                    ret (snd (update_cache_file host (argv ! 1) s))))
               else ret s) (\<lambda>s.
        bindO (if length argv = 4 then
                 (let s = cache_header_show host (argv ! 1) False s in
                  bindO (cache_header_expired_modify (argv ! 2) s) (\<lambda>(_, s).
                  bindO (cache_header_bodyoffset_modify (argv ! 3) s) (\<lambda>(_, s).
                    ret (snd (update_cache_file host (argv ! 1) s)))))
               else ret s) (\<lambda>s.
        ret (0, cache_header_show host (argv ! 1) True s))))"

section \<open>Properties\<close>

text \<open>The change of the time of expiry, and the result of the addition and the subtraction without a bound.\<close>

definition shift_expiry :: "char \<Rightarrow> int \<Rightarrow> ngx_http_file_cache_header_t \<Rightarrow> ngx_http_file_cache_header_t" where
  "shift_expiry ope n h =
     h\<lparr>valid_sec := (if ope = CHR ''+'' then valid_sec h + word_of_int n else valid_sec h - word_of_int n)\<rparr>"

definition expiry_at :: "char \<Rightarrow> int \<Rightarrow> ngx_http_file_cache_header_t \<Rightarrow> int" where
  "expiry_at ope n h = (if ope = CHR ''+'' then sint (valid_sec h) + n else sint (valid_sec h) - n)"

lemma shift_expiry_back: "shift_expiry (CHR ''-'') n (shift_expiry (CHR ''+'') n h) = h"
  by (simp add: shift_expiry_def)

lemma sint_word_of_int_fits:
  "fits LENGTH('w::len) v \<Longrightarrow> sint (word_of_int v :: 'w word) = v"
  by (simp add: fits_def signed_of_int signed_take_bit_int_eq_self)

lemma expiry_at_back:
  assumes "fits 64 (expiry_at (CHR ''+'') n h)"
  shows "expiry_at (CHR ''-'') n (shift_expiry (CHR ''+'') n h) = sint (valid_sec h)"
proof -
  have "valid_sec h + word_of_int n = word_of_int (sint (valid_sec h) + n)" by simp
  then have "sint (valid_sec h + word_of_int n) = sint (valid_sec h) + n"
    using assms sint_word_of_int_fits [where 'w = 64, of "sint (valid_sec h) + n"] by (simp add: expiry_at_def)
  then show ?thesis by (simp add: expiry_at_def shift_expiry_def)
qed

lemma fits_sint: "fits LENGTH('w::len) (sint (w :: 'w word))"
  using sint_range_size [of w] by (simp add: fits_def word_size)

lemma expired_modify_shift:
  assumes "scan_int rest = Some n"
  shows "cache_header_expired_modify (ope # rest) s =
    (if fits 32 n \<and> fits 64 (expiry_at ope n (cache_header s))
     then ret (0, (printf (add_secs ope n) s)\<lparr>cache_header := shift_expiry ope n (cache_header s)\<rparr>)
     else fail SignedOverflow)"
  using assms sint_word_of_int_fits [where 'w = 32, of n]
  by (simp add: cache_header_expired_modify_def store_int_def move_time_def expiry_at_def shift_expiry_def printf_def
      Let_def)

lemma show_files [simp]: "files (cache_header_show host f b t) = files t"
  by (simp add: cache_header_show_def cache_header_dump_def printf_def Let_def split: option.split)

lemma show_printed: "m \<in> set (printed t) \<Longrightarrow> m \<in> set (printed (cache_header_show host f b t))"
  by (simp add: cache_header_show_def cache_header_dump_def printf_def Let_def split: option.split)

text \<open>What a call with an operator and a number does with a file, whatever it held before.\<close>

lemma main_shift:
  assumes "files s f = Some content" "readable host f" "writable host f" "sizeof_header \<le> room host f"
    and "scan_int rest = Some n"
    and "h = bytes_header (take sizeof_header content @ replicate (sizeof_header - length content) NUL)"
  shows "if fits 32 n \<and> fits 64 (expiry_at ope n h)
    then \<exists>s'. main host [p, f, ope # rest] s = ret (0, s') \<and>
      files s' = (files s)(f \<mapsto> header_bytes (shift_expiry ope n h) @ drop sizeof_header content) \<and>
      (length content < sizeof_header \<longrightarrow> read_error f \<in> set (printed s'))
    else main host [p, f, ope # rest] s = fail SignedOverflow"
proof -
  define s1 where "s1 = cache_header_show host f False s"
  have s1: "cache_header s1 = h" "files s1 = files s" "length content < sizeof_header \<longrightarrow> read_error f \<in> set (printed s1)"
    using assms(1,2,6) by (simp_all add: s1_def cache_header_show_def printf_def Let_def)
  have run: "main host [p, f, ope # rest] s =
    bindO (cache_header_expired_modify (ope # rest) s1) (\<lambda>(_, s).
      ret (0, cache_header_show host f True (snd (update_cache_file host f s))))"
    by (simp add: main_def s1_def Let_def bindO_def split: option.split sum.split)
  show ?thesis
    using assms(1-4) s1
    by (auto simp: run expired_modify_shift [OF assms(5)] update_cache_file_def printf_def Let_def min_absorb1
        header.enc_length intro!: show_printed)
qed

text \<open>
  C27: \<open>cache_info file +n\<close>, for a file that holds a whole header and can be written. Where \<open>n\<close> is an
  \<open>int\<close> and the sum a \<open>time_t\<close>, the time of expiry is \<open>n\<close> seconds later, and all other bytes, of
  the header and behind it, and all other files are as before; elsewhere the number overflows, which
  is undefined in C.
\<close>

theorem expire_later:
  assumes "files s f = Some content" "readable host f" "writable host f" "sizeof_header \<le> room host f"
    and "scan_int rest = Some n" "sizeof_header \<le> length content"
    and "old = sint (bytes_word (take 8 content) :: 64 word)"
  shows "if fits 32 n \<and> fits 64 (old + n)
    then \<exists>s' content'. main host [p, f, CHR ''+'' # rest] s = ret (0, s') \<and> files s' = (files s)(f \<mapsto> content') \<and>
      length content' = length content \<and>
      sint (bytes_word (take 8 content') :: 64 word) = old + n \<and>
      drop 8 content' = drop 8 content
    else main host [p, f, CHR ''+'' # rest] s = fail SignedOverflow"
proof -
  define h where "h = bytes_header (take sizeof_header content)"
  define content' where "content' = header_bytes (shift_expiry (CHR ''+'') n h) @ drop sizeof_header content"
  have at: "valid_sec h = bytes_word (take 8 content)" "expiry_at (CHR ''+'') n h = old + n"
    using assms(7) by (simp_all add: h_def bytes_header_def expiry_at_def min_def)
  have "length content' = length content"
    using assms(6) by (simp add: content'_def header.enc_length)
  moreover have "fits 64 (old + n) \<Longrightarrow> sint (bytes_word (take 8 content') :: 64 word) = old + n"
  proof -
    assume f: "fits 64 (old + n)"
    have "(bytes_word (take 8 content') :: 64 word) = word_of_int (old + n)"
      using at(1) assms(7)
      by (simp add: content'_def header_bytes_def shift_expiry_def w64.enc_length w64.dec_enc)
    then show ?thesis using sint_word_of_int_fits [where 'w = 64, of "old + n"] f by (simp del: of_int_add)
  qed
  moreover have "drop 8 content' = drop 8 content"
  proof -
    have "drop 8 content' = drop 8 (header_bytes h) @ drop sizeof_header content"
      by (simp add: content'_def header_bytes_def shift_expiry_def w64.enc_length)
    also have "\<dots> = drop 8 (header_bytes h @ drop sizeof_header content)"
      by (simp add: header.enc_length)
    also have "header_bytes h @ drop sizeof_header content = content"
      using assms(6) by (simp add: h_def header.enc_dec)
    finally show ?thesis .
  qed
  moreover have "h = bytes_header (take sizeof_header content @ replicate (sizeof_header - length content) NUL)"
    using assms(6) by (simp add: h_def)
  from main_shift [OF assms(1-5) this, of "CHR ''+''" p]
  have "if fits 32 n \<and> fits 64 (old + n)
    then \<exists>s'. main host [p, f, CHR ''+'' # rest] s = ret (0, s') \<and> files s' = (files s)(f \<mapsto> content')
    else main host [p, f, CHR ''+'' # rest] s = fail SignedOverflow"
    unfolding at(2) content'_def [symmetric] by (auto split: if_splits)
  ultimately show ?thesis by (auto split: if_splits)
qed

text \<open>A file with a header of zeros and five bytes behind it.\<close>

definition demo_host :: host where
  "demo_host = \<lparr>readable = (\<lambda>_. True), writable = (\<lambda>_. True), room = (\<lambda>_. 4096)\<rparr>"

definition demo_info :: cache_info where
  "demo_info =
     \<lparr>files = (\<lambda>f. if f = ''f'' then Some (replicate 40 NUL @ ''entry'') else None),
      cache_header = bytes_header (replicate 40 NUL), printed = []\<rparr>"

lemma demo_number: "scan_int ''60'' = Some 60"
  by code_simp

theorem expire_later_witness:
  "\<exists>s' content'. main demo_host [''cache_info'', ''f'', ''+60''] demo_info = ret (0, s') \<and>
    files s' = (files demo_info)(''f'' \<mapsto> content') \<and>
    sint (bytes_word (take 8 content') :: 64 word) = 60 \<and> drop 40 content' = ''entry''"
proof -
  let ?content = "replicate 40 NUL @ ''entry''"
  have "files demo_info ''f'' = Some ?content"
    "readable demo_host ''f''" "writable demo_host ''f''" "sizeof_header \<le> room demo_host ''f''"
    "sizeof_header \<le> length ?content"
    by (simp_all add: demo_info_def demo_host_def)
  moreover have "0 = sint (bytes_word (take 8 ?content) :: 64 word)" by code_simp
  moreover have "fits 32 60 \<and> fits 64 (0 + 60)" by code_simp
  ultimately obtain s' content' where
    c: "main demo_host [''cache_info'', ''f'', ''+60''] demo_info = ret (0, s')"
    "files s' = (files demo_info)(''f'' \<mapsto> content')"
    "sint (bytes_word (take 8 content') :: 64 word) = 60" "drop 8 content' = drop 8 ?content"
    using expire_later [where s = demo_info and f = "''f''" and content = ?content and host = demo_host and rest = "''60''"
        and n = 60 and old = 0 and p = "''cache_info''", OF _ _ _ _ demo_number] by auto
  moreover have "drop 40 content' = drop 32 (drop 8 content')" by simp
  ultimately show ?thesis by auto
qed

text \<open>
  C26: what was added can be taken off again. For a file that holds a whole header and can be written,
  if the call with \<open>+n\<close> returns, so without an overflow, then the call with \<open>-n\<close> returns as well,
  and every file is as it was.
\<close>

theorem expire_roundtrip:
  assumes "files s f = Some content" "readable host f" "writable host f" "sizeof_header \<le> room host f"
    and "scan_int rest = Some n" "sizeof_header \<le> length content"
    and "main host [p, f, CHR ''+'' # rest] s = ret (rc, s1)"
  shows "\<exists>s2. main host [p, f, CHR ''-'' # rest] s1 = ret (0, s2) \<and> files s2 = files s"
proof -
  define h where "h = bytes_header (take sizeof_header content)"
  define content' where "content' = header_bytes (shift_expiry (CHR ''+'') n h) @ drop sizeof_header content"
  have "h = bytes_header (take sizeof_header content @ replicate (sizeof_header - length content) NUL)"
    using assms(6) by (simp add: h_def)
  from main_shift [OF assms(1-5) this, of "CHR ''+''" p] assms(7)
  have fit: "fits 32 n" "fits 64 (expiry_at (CHR ''+'') n h)" and s1: "files s1 = (files s)(f \<mapsto> content')"
    by (auto simp: content'_def split: if_splits)
  have "shift_expiry (CHR ''+'') n h =
    bytes_header (take sizeof_header content' @ replicate (sizeof_header - length content') NUL)"
    by (simp add: content'_def header.enc_length header.dec_enc)
  note second = main_shift [OF _ assms(2-5) this, of s1 "CHR ''-''" p]
  have "header_bytes (shift_expiry (CHR ''-'') n (bytes_header (take sizeof_header content'))) @
      drop sizeof_header content' = content"
    by (rule header.rewrite_back [where f = "shift_expiry (CHR ''+'') n" and g = "shift_expiry (CHR ''-'') n",
          OF assms(6) shift_expiry_back content'_def [unfolded h_def]])
  then have "header_bytes (shift_expiry (CHR ''-'') n (shift_expiry (CHR ''+'') n h)) @ drop sizeof_header content' =
    content"
    by (simp add: content'_def header.enc_length header.dec_enc)
  then have "\<exists>s2. main host [p, f, CHR ''-'' # rest] s1 = ret (0, s2) \<and> files s2 = (files s1)(f \<mapsto> content)"
    using second fit fits_sint [of "valid_sec h"] by (auto simp: s1 expiry_at_back)
  then show ?thesis using s1 assms(1) by (auto simp: fun_eq_iff)
qed

theorem expire_roundtrip_witness:
  "\<exists>s1 s2. main demo_host [''cache_info'', ''f'', ''+60''] demo_info = ret (0, s1) \<and>
    main demo_host [''cache_info'', ''f'', ''-60''] s1 = ret (0, s2) \<and> files s2 = files demo_info"
proof -
  let ?content = "replicate 40 NUL @ ''entry''"
  have a: "files demo_info ''f'' = Some ?content"
    "readable demo_host ''f''" "writable demo_host ''f''" "sizeof_header \<le> room demo_host ''f''"
    "sizeof_header \<le> length ?content"
    by (simp_all add: demo_info_def demo_host_def)
  have "fits 32 60 \<and> fits 64 (expiry_at (CHR ''+'') 60 (bytes_header (replicate 40 NUL)))" by code_simp
  then obtain s1 where s1: "main demo_host [''cache_info'', ''f'', ''+60''] demo_info = ret (0, s1)"
    using main_shift [OF a(1-4) demo_number refl, of "CHR ''+''" "''cache_info''"] by auto
  from expire_roundtrip [OF a(1-4) demo_number a(5) s1] s1 show ?thesis by blast
qed

text \<open>
  A file that is no cache file. The error of reading a header is printed, but the call goes on:
  a file shorter than the header is written all the same, and has the length of a header then.
\<close>

lemma short_file_overwritten:
  assumes "files s f = Some content" "readable host f" "writable host f" "sizeof_header \<le> room host f"
    and "scan_int rest = Some n" "length content < sizeof_header" "main host [p, f, ope # rest] s = ret (rc, s')"
  shows "\<exists>content'. files s' = (files s)(f \<mapsto> content') \<and>
    length content' = sizeof_header \<and> read_error f \<in> set (printed s')"
proof -
  define h where "h = bytes_header (take sizeof_header content @ replicate (sizeof_header - length content) NUL)"
  have "files s' = (files s)(f \<mapsto> header_bytes (shift_expiry ope n h) @ drop sizeof_header content)"
    "read_error f \<in> set (printed s')"
    using main_shift [OF assms(1-5) h_def, of ope p] assms(6,7) by (auto split: if_splits)
  moreover have "length (header_bytes (shift_expiry ope n h) @ drop sizeof_header content) = sizeof_header"
    using assms(6) by (simp add: header.enc_length)
  ultimately show ?thesis by blast
qed

lemma short_file_overwritten_witness:
  "\<exists>s' content'. main demo_host [''cache_info'', ''f'', ''+60''] (demo_info\<lparr>files := (\<lambda>_. Some [])\<rparr>) = ret (0, s') \<and>
    files s' ''f'' = Some content' \<and> length content' = 40"
proof -
  let ?s = "demo_info\<lparr>files := (\<lambda>_. Some [])\<rparr>"
  have a: "files ?s ''f'' = Some []" "readable demo_host ''f''" "writable demo_host ''f''"
    "sizeof_header \<le> room demo_host ''f''" "length [] < sizeof_header"
    by (simp_all add: demo_host_def)
  have "fits 32 60 \<and> fits 64 (expiry_at (CHR ''+'') 60 (bytes_header (replicate 40 NUL)))" by code_simp
  then obtain s' where s': "main demo_host [''cache_info'', ''f'', ''+60''] ?s = ret (0, s')"
    using main_shift [OF a(1-4) demo_number refl, of "CHR ''+''" "''cache_info''"] by auto
  from short_file_overwritten [OF a(1-4) demo_number a(5) s'] s' show ?thesis by auto
qed

text \<open>
  An argument without a sign, as the usage text allows one to think: its first digit is taken for
  the operator, and since that is not a plus the rest is subtracted.
\<close>

lemma expired_without_sign:
  assumes "ope \<noteq> CHR ''+''" "scan_int rest = Some n" "cache_header_expired_modify (ope # rest) s = ret (rc, s')"
  shows "sint (valid_sec (cache_header s')) = sint (valid_sec (cache_header s)) - n"
proof -
  have "fits 64 (sint (valid_sec (cache_header s)) - n)"
    "valid_sec (cache_header s') = word_of_int (sint (valid_sec (cache_header s)) - n)"
    using assms(1,3) by (auto simp: expired_modify_shift [OF assms(2)] expiry_at_def shift_expiry_def split: if_splits)
  then show ?thesis using sint_word_of_int_fits [where 'w = 64, of "sint (valid_sec (cache_header s)) - n"]
    by (simp del: of_int_diff)
qed

end
