(* ===== verification/Queue_Demo.thy ===== *)
theory Queue_Demo
  imports Ngx_Core "HOL-Library.Multiset"
begin

text \<open>
  The demonstration of the queue of nginx, \<open>src/ngx_struct/ngx_queue_t.c\<close>: three entries are put into a queue,
  printed, sorted and printed again. The queue is nginx's: its operations are parameters, with what
  they promise in terms of the list of the nodes from head to tail.
\<close>

section \<open>The queue of nginx\<close>

text \<open>
  \<open>q_prev\<close> is the link to the node before, from the head of the queue (\<open>None\<close>) or from a node:
  \<open>ngx_queue_last\<close> and \<open>ngx_queue_prev\<close> both read it. The head is also what ends a walk.
\<close>

record 'q ngx_queue_funs =
  q_init :: 'q
  q_insert_head :: "'q \<Rightarrow> nat \<Rightarrow> 'q"
  q_prev :: "'q \<Rightarrow> nat option \<Rightarrow> nat option"
  q_sort :: "(nat \<Rightarrow> nat \<Rightarrow> int) \<Rightarrow> 'q \<Rightarrow> 'q"

definition prev_in :: "nat list \<Rightarrow> nat option \<Rightarrow> nat option" where
  "prev_in ns cur =
     (let before = (case cur of None \<Rightarrow> ns | Some n \<Rightarrow> takeWhile (\<lambda>m. m \<noteq> n) ns)
      in if before = [] then None else Some (last before))"

definition queue_spec :: "'q ngx_queue_funs \<Rightarrow> ('q \<Rightarrow> nat list) \<Rightarrow> bool" where
  "queue_spec Q nodes =
     (nodes (q_init Q) = [] \<and>
      (\<forall>q n. nodes (q_insert_head Q q n) = n # nodes q) \<and>
      (\<forall>q cur. distinct (nodes q) \<longrightarrow> q_prev Q q cur = prev_in (nodes q) cur) \<and>
      (\<forall>cmp q. transp (\<lambda>m n. cmp m n \<le> 0) \<longrightarrow> (\<forall>m n. cmp m n \<le> 0 \<or> cmp n m \<le> 0) \<longrightarrow>
        mset (nodes (q_sort Q cmp q)) = mset (nodes q) \<and>
        sorted_wrt (\<lambda>m n. cmp m n \<le> 0) (nodes (q_sort Q cmp q))))"

section \<open>The program\<close>

text \<open>A node is the number of its entry; \<open>heap\<close> has the entries. A name may be null, when it could not be copied.\<close>

record yahoo_guy_t =
  guy_id :: "64 word"
  guy_name :: "string option"

type_synonym yahoo_heap = "nat \<Rightarrow> yahoo_guy_t"

definition yahoo_no_cmp :: "yahoo_heap \<Rightarrow> nat \<Rightarrow> nat \<Rightarrow> int" where
  "yahoo_no_cmp heap p n = (if guy_id (heap p) > guy_id (heap n) then 1 else 0)"

definition queue_names :: "string list" where
  "queue_names = [''rainx'', ''xiaozhe'', ''zhoujian'']"

definition queue_ids :: "int list" where
  "queue_ids = [4611, 8322, 6111]"

text \<open>
  \<open>palloc i\<close> and \<open>pstrdup i\<close> tell whether the entry and the copy of its name get memory, which the
  code does not check: an entry is written to in any case.
\<close>

fun add_guys ::
  "'q ngx_queue_funs \<Rightarrow> (nat \<Rightarrow> bool) \<Rightarrow> (nat \<Rightarrow> bool) \<Rightarrow> nat \<Rightarrow> (int \<times> string) list \<Rightarrow> 'q \<times> yahoo_heap \<Rightarrow>
   ('q \<times> yahoo_heap) outcome" where
  "add_guys Q palloc pstrdup i [] s = ret s"
| "add_guys Q palloc pstrdup i ((n, name) # guys) (q, heap) =
     (if \<not> palloc i then fail NullPointer
      else add_guys Q palloc pstrdup (Suc i) guys
        (q_insert_head Q q i,
         heap(i := \<lparr>guy_id = word_of_int n, guy_name = (if pstrdup i then Some name else None)\<rparr>)))"

text \<open>
  \<open>printf\<close> of a number by \<open>%d\<close> and of a name by \<open>%s\<close>: the copy of the name has no final zero, so the
  bytes \<open>behind\<close> it in memory are printed up to the first zero.
\<close>

definition show_d :: "int \<Rightarrow> string" where
  "show_d n = (if n < 0 then CHR ''-'' # show_dec (nat (- n)) else show_dec (nat n))"

definition guy_line :: "yahoo_guy_t \<Rightarrow> string \<Rightarrow> string" where
  "guy_line g name =
     ''No. '' @ show_d (to_int32 (uint (guy_id g))) @ '' guy in yahoo is '' @
     takeWhile (\<lambda>ch. ch \<noteq> NUL) name @ '' '' @ [NL]"

definition print_guys ::
  "'q ngx_queue_funs \<Rightarrow> (nat \<Rightarrow> string) \<Rightarrow> 'q \<Rightarrow> yahoo_heap \<Rightarrow> string list \<Rightarrow> string list outcome" where
  "print_guys Q behind q heap printed =
     bindO (loop (\<lambda>(cur, printed). cur \<noteq> None)
       (\<lambda>(cur, printed).
          case guy_name (heap (the cur)) of
            None \<Rightarrow> fail NullPointer
          | Some name \<Rightarrow>
              ret (Next (q_prev Q q cur, printed @ [guy_line (heap (the cur)) (name @ behind (the cur))])))
       (q_prev Q q None, printed)) (\<lambda>(cur, printed). ret printed)"

definition queue_main ::
  "'q ngx_queue_funs \<Rightarrow> bool \<Rightarrow> (nat \<Rightarrow> bool) \<Rightarrow> (nat \<Rightarrow> bool) \<Rightarrow> (nat \<Rightarrow> string) \<Rightarrow> yahoo_heap \<Rightarrow>
   string list outcome" where
  "queue_main Q palloc_yahoo palloc pstrdup behind heap =
     (if \<not> palloc_yahoo then fail NullPointer
      else
        bindO (add_guys Q palloc pstrdup 0 (zip queue_ids queue_names) (q_init Q, heap)) (\<lambda>(q, heap).
          bindO (print_guys Q behind q heap []) (\<lambda>printed.
            print_guys Q behind (q_sort Q (yahoo_no_cmp heap) q) heap (printed @ [''sorting....'' @ [NL]]))))"

section \<open>What is printed\<close>

lemma prev_in_before: "distinct (xs @ n # ys) \<Longrightarrow> prev_in (xs @ n # ys) (Some n) = (if xs = [] then None else Some (last xs))"
  by (auto simp: prev_in_def Let_def takeWhile_append)

text \<open>A walk along the links prints the entries from the last to the first, and ends.\<close>

lemma print_guys_all:
  assumes "queue_spec Q nodes" "distinct (nodes q)" "\<forall>n\<in>set (nodes q). guy_name (heap n) \<noteq> None"
  shows "print_guys Q behind q heap printed =
    ret (printed @ map (\<lambda>n. guy_line (heap n) (the (guy_name (heap n)) @ behind n)) (rev (nodes q)))"
proof -
  let ?line = "\<lambda>n. guy_line (heap n) (the (guy_name (heap n)) @ behind n)"
  let ?I = "\<lambda>(cur, out). \<exists>xs ys. nodes q = xs @ ys \<and> out = printed @ map ?line (rev ys) \<and>
    cur = (if xs = [] then None else Some (last xs))"
  have prev: "q_prev Q q cur = prev_in (nodes q) cur" for cur
    using assms(1,2) by (simp add: queue_spec_def)
  have "wp {} (loop (\<lambda>(cur, out). cur \<noteq> None)
      (\<lambda>(cur, out). case guy_name (heap (the cur)) of None \<Rightarrow> fail NullPointer
        | Some name \<Rightarrow> ret (Next (q_prev Q q cur, out @ [guy_line (heap (the cur)) (name @ behind (the cur))])))
      (q_prev Q q None, printed))
    (\<lambda>(cur, out). out = printed @ map ?line (rev (nodes q)))"
  proof (rule wp_loop [where I = ?I and \<mu> = "\<lambda>(cur, out). length printed + length (nodes q) - length out"])
    show "?I (q_prev Q q None, printed)" by (auto simp: prev prev_in_def Let_def)
  next
    fix t assume t: "?I t" "case t of (cur, out) \<Rightarrow> cur \<noteq> None"
    then obtain xs n ys where d: "nodes q = xs @ n # ys" "t = (Some n, printed @ map ?line (rev ys))"
      by (cases t) (auto split: if_splits, metis append_butlast_last_id append.assoc append_Cons append_Nil)
    obtain name where name: "guy_name (heap n) = Some name" using assms(3) d(1) by auto
    have "q_prev Q q (Some n) = (if xs = [] then None else Some (last xs))"
      using prev_in_before assms(2) unfolding prev d(1) by blast
    then have "?I (q_prev Q q (Some n), printed @ map ?line (rev (n # ys)))"
      using d(1) by (intro case_prodI exI [of _ xs] exI [of _ "n # ys"]) simp
    then show "wp {} (case t of (cur, out) \<Rightarrow> case guy_name (heap (the cur)) of None \<Rightarrow> fail NullPointer
        | Some name \<Rightarrow> ret (Next (q_prev Q q cur, out @ [guy_line (heap (the cur)) (name @ behind (the cur))])))
      (\<lambda>r. case r of Next t' \<Rightarrow> ?I t' \<and> (case t' of (cur, out) \<Rightarrow> length printed + length (nodes q) - length out)
          < (case t of (cur, out) \<Rightarrow> length printed + length (nodes q) - length out)
        | Break (cur, out) \<Rightarrow> out = printed @ map ?line (rev (nodes q)))"
      using name by (simp add: d)
  next
    fix t assume "?I t" "\<not> (case t of (cur, out) \<Rightarrow> cur \<noteq> None)"
    then show "case t of (cur, out) \<Rightarrow> out = printed @ map ?line (rev (nodes q))"
      by (auto split: if_splits)
  qed
  then show ?thesis by (auto simp: print_guys_def wp_no_fault)
qed

text \<open>By its comparison the queue is sorted by number, the smallest at the head.\<close>

lemma yahoo_no_cmp_le: "(yahoo_no_cmp heap m n \<le> 0) = (guy_id (heap m) \<le> guy_id (heap n))"
  by (auto simp: yahoo_no_cmp_def not_less)

lemma sorted_nodes:
  assumes "queue_spec Q nodes" "mset ns = mset (nodes q)" "inj_on (\<lambda>n. guy_id (heap n)) (set ns)"
    and "sorted (map (\<lambda>n. guy_id (heap n)) ns)"
  shows "nodes (q_sort Q (yahoo_no_cmp heap) q) = ns"
proof -
  let ?ns = "nodes (q_sort Q (yahoo_no_cmp heap) q)"
  note sort = assms(1) [unfolded queue_spec_def, THEN conjunct2, THEN conjunct2, THEN conjunct2, rule_format]
  have "transp (\<lambda>m n. guy_id (heap m) \<le> guy_id (heap n))"
    "guy_id (heap m) \<le> guy_id (heap n) \<or> guy_id (heap n) \<le> guy_id (heap m)" for m n
    by (auto intro: transpI)
  then have "mset ?ns = mset (nodes q) \<and> sorted_wrt (\<lambda>m n. yahoo_no_cmp heap m n \<le> 0) ?ns"
    by (intro sort) (simp_all only: yahoo_no_cmp_le)
  then have ns: "mset ns = mset ?ns" "sorted (map (\<lambda>n. guy_id (heap n)) ?ns)"
    using assms(2) by (simp_all add: yahoo_no_cmp_le sorted_map)
  have "sort_key (\<lambda>n. guy_id (heap n)) ns = ?ns" by (rule sort_key_inj_key_eq [OF ns(1) assms(3) ns(2)])
  moreover have "sort_key (\<lambda>n. guy_id (heap n)) ns = ns" by (rule sort_key_inj_key_eq [OF refl assms(3,4)])
  ultimately show ?thesis by simp
qed

text \<open>
  The program prints the three entries in the order in which they were added, since it adds them at
  the head and starts at the tail, and after the sorting by decreasing number, the largest first.
\<close>

lemma queue_demo_prints:
  assumes spec: "queue_spec Q nodes" and mem: "\<forall>i<3. palloc i \<and> pstrdup i \<and> hd (behind i) = NUL \<and> behind i \<noteq> []"
  shows "queue_main Q True palloc pstrdup behind heap = ret
    [''No. 4611 guy in yahoo is rainx '' @ [NL], ''No. 8322 guy in yahoo is xiaozhe '' @ [NL],
     ''No. 6111 guy in yahoo is zhoujian '' @ [NL], ''sorting....'' @ [NL],
     ''No. 8322 guy in yahoo is xiaozhe '' @ [NL], ''No. 6111 guy in yahoo is zhoujian '' @ [NL],
     ''No. 4611 guy in yahoo is rainx '' @ [NL]]"
proof -
  let ?e = "\<lambda>n name. \<lparr>guy_id = word_of_int n, guy_name = Some name\<rparr>"
  define h where "h = heap(0 := ?e 4611 ''rainx'', 1 := ?e 8322 ''xiaozhe'', 2 := ?e 6111 ''zhoujian'')"
  define q where "q = q_insert_head Q (q_insert_head Q (q_insert_head Q (q_init Q) 0) 1) 2"
  define line where "line = (\<lambda>n. guy_line (h n) (the (guy_name (h n)) @ behind n))"
  have add: "add_guys Q palloc pstrdup 0 (zip queue_ids queue_names) (q_init Q, heap) = ret (q, h)"
    using mem by (simp add: queue_ids_def queue_names_def q_def h_def numeral_2_eq_2)
  have h: "h 0 = ?e 4611 ''rainx''" "h 1 = ?e 8322 ''xiaozhe''" "h 2 = ?e 6111 ''zhoujian''" by (simp_all add: h_def)
  have q: "nodes q = [2, 1, 0]" using spec by (simp add: queue_spec_def q_def)
  have sorted: "nodes (q_sort Q (yahoo_no_cmp h) q) = [0, 2, 1]"
    by (rule sorted_nodes [OF spec]) (simp_all add: q h [simplified])
  have "takeWhile (\<lambda>ch. ch \<noteq> NUL) (behind i) = []" if "i < 3" for i
    using mem that by (cases "behind i") auto
  moreover have "show_dec 4611 = ''4611''" "show_dec 8322 = ''8322''" "show_dec 6111 = ''6111''" 
    by (simp_all add: show_dec.simps char_of_def bit_0)
  ultimately have line: "line 0 = ''No. 4611 guy in yahoo is rainx '' @ [NL]" "line 1 = ''No. 8322 guy in yahoo is xiaozhe '' @ [NL]"
    "line 2 = ''No. 6111 guy in yahoo is zhoujian '' @ [NL]"
    by (simp_all add: line_def guy_line_def h [simplified] takeWhile_append2 show_d_def to_int32_id)
  have "print_guys Q behind q h [] = ret (map line [0, 1, 2])"
    using print_guys_all [OF spec, of q h behind "[]"] by (simp add: q h [simplified] line_def)
  moreover have "print_guys Q behind (q_sort Q (yahoo_no_cmp h) q) h printed = ret (printed @ map line [1, 2, 0])" for printed
    using print_guys_all [OF spec, of "q_sort Q (yahoo_no_cmp h) q" h behind printed]
    by (simp add: sorted h [simplified] line_def)
  ultimately show ?thesis
    by (simp only: queue_main_def add line bindO_simps list.map prod.case if_True not_True_eq_False if_False append_Nil append_Cons)
qed

text \<open>A queue as the list of its nodes, and one run over it.\<close>

fun list_insert :: "(nat \<Rightarrow> nat \<Rightarrow> int) \<Rightarrow> nat \<Rightarrow> nat list \<Rightarrow> nat list" where
  "list_insert cmp n [] = [n]"
| "list_insert cmp n (m # ms) = (if cmp m n \<le> 0 then m # list_insert cmp n ms else n # m # ms)"

definition list_queue :: "nat list ngx_queue_funs" where
  "list_queue =
     \<lparr>q_init = [], q_insert_head = (\<lambda>q n. n # q), q_prev = prev_in, q_sort = (\<lambda>cmp q. fold (list_insert cmp) q [])\<rparr>"

lemma mset_list_insert [simp]: "mset (list_insert cmp n ms) = add_mset n (mset ms)"
  by (induction ms) auto

lemma list_insert_sorted:
  assumes "transp (\<lambda>m n. cmp m n \<le> 0)" "\<forall>m n. cmp m n \<le> 0 \<or> cmp n m \<le> 0"
    "sorted_wrt (\<lambda>m n. cmp m n \<le> 0) ms"
  shows "sorted_wrt (\<lambda>m n. cmp m n \<le> 0) (list_insert cmp n ms)"
  using assms(3)
proof (induction ms)
  case Nil
  then show ?case by simp
next
  case (Cons m ms)
  have "set (list_insert cmp n ms) = insert n (set ms)" by (metis mset_list_insert set_mset_add_mset_insert set_mset_mset)
  moreover have "cmp n x \<le> 0" if "\<not> cmp m n \<le> 0" "x \<in> set ms" for x
    using that assms(2) Cons.prems transpD [OF assms(1), of n m x] by auto
  ultimately show ?case using Cons assms(2) by auto
qed

lemma list_queue_ok: "queue_spec list_queue (\<lambda>q. q)"
proof -
  have mset: "mset (fold (list_insert cmp) q ms) = mset q + mset ms" for cmp q ms
    by (induction q arbitrary: ms) simp_all
  have sorted: "sorted_wrt (\<lambda>m n. cmp m n \<le> 0) (fold (list_insert cmp) q ms)"
    if "transp (\<lambda>m n. cmp m n \<le> 0)" "\<forall>m n. cmp m n \<le> 0 \<or> cmp n m \<le> 0" "sorted_wrt (\<lambda>m n. cmp m n \<le> 0) ms" for cmp q ms
    using that(3) by (induction q arbitrary: ms) (simp_all add: list_insert_sorted [OF that(1,2)])
  show ?thesis by (simp add: queue_spec_def list_queue_def mset sorted)
qed

lemma queue_demo_prints_witness:
  "\<exists>out. queue_main list_queue True (\<lambda>_. True) (\<lambda>_. True) (\<lambda>_. [NUL]) (\<lambda>_. \<lparr>guy_id = 0, guy_name = None\<rparr>) = ret out \<and> length out = 7"
  using queue_demo_prints [OF list_queue_ok, of "\<lambda>_. True" "\<lambda>_. True" "\<lambda>_. [NUL]"] by simp

end
