(* ===== verification/Spec2Isabelle.thy ===== *)
theory Spec2Isabelle
  imports Minify_Filter Minify_UT Strip_Module Headers_Filter Headers_Config
    Capcache Aqb Breakpoint Ngx_Config Cache_Info Queue_Demo
begin

text \<open>
  A verification library for NginB, a collection of modules for the web server nginx, written in C.

  \<^bold>\<open>The program.\<close> NginB has six modules and a utility, which do not call each other.

  \<^item> \<open>mod_minify\<close>: an output filter that takes comments and superfluous white space out of HTML, CSS
    and JavaScript. A response runs through \<open>ngx_http_minify_header_filter\<close>, which decides
    by configuration and content type whether a context is made, and through
    \<open>ngx_http_minify_body_filter\<close>, which hands each buffer to one of three state machines over that
    context. A machine works in place: it reads with \<open>rpos\<close>, writes with \<open>wpos\<close>, keeps a stack of
    states, and saves the bytes it cannot judge at the end of a buffer in a cache, which the filter
    puts in front of the next one. A test program runs the machines without nginx.
  \<^item> \<open>mod_strip\<close>: an output filter with one automaton of some 40 states that takes white space out of HTML.
  \<^item> \<open>mod_headers_more\<close>: directives that set and clear headers of the response, in an output filter,
    and of the request, in a handler of the rewrite phase.
  \<^item> \<open>mod_capcache\<close>, \<open>mod_aqb\<close>, \<open>mod_breakpoint\<close>: a filter that writes a file into the proxy cache, a
    filter meant to put plugins into pages, and a status page.
  \<^item> \<open>cache_info\<close>: shows the header of a cache file and changes its time of expiry.

  \<^bold>\<open>How C is modelled.\<close> \<open>NginB_Prelude\<close> has outcomes: a routine returns, commits a fault, or does not
  return. A fault is what C leaves undefined: a cursor out of its buffer, an index out of an array of
  the context, the use of a null pointer, of the pointer \<open>(void *) -1\<close> (\<open>NGX_CONF_ERROR\<close>, \<open>NGX_CONF_UNSET_PTR\<close>)
  or of freed memory, a signed overflow. Loops are \<open>loop\<close>, a partial function whose undefined
  value is the run that does not end, or recursion over what is read; no fuel is used, and
  \<open>wp F m Q\<close>, which most properties rest on, includes that \<open>m\<close> returns. Memory that is
  rewritten in place is a list with indices (\<open>mem\<close>, \<open>rpos\<close>, \<open>wpos\<close>); the headers of a request are
  parts and elements at addresses, since the module keeps pointers into them. A C \<open>int\<close> is an \<open>int\<close> with
  \<open>to_int32\<close> where it is cut to its width, counters of fixed width are words; the numbers that \<open>cache_info\<close>
  reads and adds commit the fault where they leave their type.
  \<open>Ngx_Core\<close> has the constants of nginx, buffers and chains. The functions of nginx are not part of the
  repository and are parameters of the definitions that call them; what is relied on, for
  instance that \<open>ngx_list_push\<close> gives a fresh element at the end of the list, is a named
  predicate on them and a hypothesis of the property, with an instance in its witness.

  \<^bold>\<open>Theories.\<close>

  \<^item> \<open>Minify_Ctx\<close>: \<open>ngx_minify_ctx_t\<close> and the inline operations of
    \<open>ngx_http_minify_filter_module.h\<close>, under their names there. \<open>Minify_Inv\<close>: what is a well-formed
    context, the views \<open>rest\<close>, \<open>out\<close>, \<open>held\<close> and the effect of each operation on them, and the rules
    for the loops of the machines.
  \<^item> \<open>Minify_HTML\<close>, \<open>Minify_CSS\<close>, \<open>Minify_JS\<close>: the machines of \<open>ngx_http_minify_filter_module_html.c\<close>,
    \<open>_css.c\<close>, \<open>_js.c\<close>, one definition for each \<open>switch\<close> case and one for each function; each pass
    ends, keeps the invariant and only deletes bytes (JavaScript may turn a line break into a space).
    They are instances of the locale \<open>minify_processor\<close> of \<open>Minify_Contract\<close>, from which the filter is proved.
  \<^item> \<open>Minify_Scan\<close>, \<open>Minify_CSS_Scan\<close>, \<open>Minify_JS_Scan\<close>, \<open>Minify_HTML_Scan\<close>, \<open>Minify_HTML_Refine\<close>: scanners,
    which say what a machine computes without cursors, stack and nested loops; the machines refine
    them (for HTML the steps are in the one theory, the loops in the other), and what holds of texts
    (comments, quoted and preformatted text, cuts) is proved of the scanners.
  \<^item> \<open>Minify_Filter\<close>: \<open>ngx_http_minify_filter_module.c\<close>; a whole response. \<open>Minify_UT\<close>: the test program
    with its tables of cases; that it passes on all of them, by the scanners, and minifies every file.
  \<^item> \<open>Strip_Module\<close>: \<open>ngx_http_strip_filter_module.c\<close>: the automaton (\<open>strip_switch\<close>), the loop
    in place, the filters; that a page may be cut anywhere and only white space goes.
  \<^item> \<open>Headers_Util\<close> (\<open>ngx_http_headers_more_util.c\<close> and the header file), \<open>Headers_List\<close> (the list of
    headers and removal from it), \<open>Headers_Out\<close> and \<open>Headers_Set\<close> (\<open>..._headers_out.c\<close>: the code, and
    what it does to the list), \<open>Headers_In\<close> and \<open>Headers_Remove\<close> (\<open>..._headers_in.c\<close>: likewise),
    \<open>Headers_Filter\<close> (\<open>..._filter_module.c\<close>): from a directive to the response that is sent.
  \<^item> \<open>Capcache\<close>, \<open>Aqb\<close>, \<open>Breakpoint\<close>, \<open>Cache_Info\<close>, \<open>Queue_Demo\<close> (\<open>ngx_queue_t.c\<close>): one file each. The array of
    plugins of \<open>Aqb\<close> lies in a pool that nginx destroys after the configuration is read; \<open>temp_pool\<close>
    tells whether it still stands.
  \<^item> \<open>Ngx_Module\<close>: directive tables and module records as data, how nginx calls directives and merges
    blocks as far as the modules rely on it, and the locale \<open>inherited_flag\<close> of a flag that locations
    inherit. \<open>Ngx_Config\<close>: the tables and records of all modules but \<open>mod_headers_more\<close>, each flag an instance of
    that locale; there also what the aqb filters do under any configuration, and that \<open>NGX_CONF_ERROR\<close> from
    the functions that make a configuration is not taken for an error. \<open>Headers_Config\<close>: those of \<open>mod_headers_more\<close>, and that it installs by need what it should.

  \<^bold>\<open>Bounds.\<close> Buffers are shorter than \<open>2 ^ 31\<close> bytes, as the \<open>int\<close> that counts them; a chain of them,
  with what is held back, shorter than \<open>2 ^ 30\<close> each. The context has 64 bytes for the
  cache and for each tag name and 8 states on its stack; that the stack and the cache suffice is
  part of the invariant, that the names do not is a property (\<open>html_tag_name_overflow\<close>) and makes
  the faults of the HTML machine in the others. The status page fits its 233 bytes for
  all counters; the header of a cache file has 40 bytes; the test program reads 128 bytes at a
  time into a result of 4096.

  \<^bold>\<open>Not modelled.\<close> Log messages; times are not formatted and rates not printed; code between \<open>#if 0\<close> and
  \<open>#endif\<close>; \<open>ddebug.h\<close>, which only prints; and, of the demonstrations under \<open>src/ngx_struct\<close>, those of hashes,
  pools, strings and arrays, which have no logic of their own: all they print is computed by nginx.
\<close>

end
